(* ===== verification/Prelude.thy ===== *)
theory Prelude
  imports Main "HOL-Library.Word"
begin

text \<open>
  Shared material of the development: the machine types of the firmware (an ARM Cortex-M3,
  little endian, 32-bit pointers and \<open>int\<close>), the C library's \<open>memcpy\<close> and \<open>memset\<close> on byte
  lists, little-endian readers and writers, the conversion of string literals to bytes, and
  the collections of rewrite rules the component theories extend.
\<close>

unbundle bit_operations_syntax

section \<open>Machine types\<close>

type_synonym u8 = "8 word"
type_synonym u16 = "16 word"
type_synonym u32 = "32 word"
type_synonym bytes = "u8 list"

named_theorems len_simps \<open>lengths of the byte lists the operations produce\<close>
named_theorems inv_intros \<open>preservation of the components' invariants\<close>
named_theorems ev_simps \<open>logs of external calls made by the operations\<close>

lemma u8_count_down:
  fixes t :: u8
  assumes "n < unat t"
  shows "unat (t - of_nat n) = unat t - n"
    and "t - of_nat n \<noteq> 0"
    and "t - of_nat n - 1 = 0 \<longleftrightarrow> \<not> Suc n < unat t"
proof -
  have "unat t < 2 ^ LENGTH(8)" by (rule unsigned_less)
  then have n256: "n < 256" using assms by simp
  show u: "unat (t - of_nat n) = unat t - n"
    using assms n256 by (simp add: unat_sub word_le_nat_alt unat_of_nat)
  then show "t - of_nat n \<noteq> 0"
    using assms by (metis not_less unat_0 zero_less_diff order_refl)
  have "t - of_nat n - 1 = 0 \<longleftrightarrow> t - of_nat n = 1"
    by simp
  also have "\<dots> \<longleftrightarrow> unat t - n = 1"
    by (metis u unat_1 word_unat_eq_iff)
  finally show "t - of_nat n - 1 = 0 \<longleftrightarrow> \<not> Suc n < unat t"
    using assms by auto
qed

section \<open>C library on byte lists\<close>

text \<open>
  \<open>memcpy_bytes dst src n\<close> is the array \<open>dst\<close> after \<open>memcpy(dst, src, n)\<close>, and
  \<open>memset_bytes dst c n\<close> the array after \<open>memset(dst, c, n)\<close> (arguments in C's order).
\<close>

definition memcpy_bytes :: "bytes \<Rightarrow> bytes \<Rightarrow> nat \<Rightarrow> bytes" where
  "memcpy_bytes dst src n = take n src @ drop n dst"

definition memset_bytes :: "bytes \<Rightarrow> u8 \<Rightarrow> nat \<Rightarrow> bytes" where
  "memset_bytes dst c n = replicate n c @ drop n dst"

lemma length_memcpy [len_simps, simp]:
  "n \<le> length src \<Longrightarrow> n \<le> length dst \<Longrightarrow> length (memcpy_bytes dst src n) = length dst"
  by (simp add: memcpy_bytes_def)

lemma memcpy_whole [simp]:
  "length src = n \<Longrightarrow> length dst = n \<Longrightarrow> memcpy_bytes dst src n = src"
  by (simp add: memcpy_bytes_def)

lemma length_memset [len_simps, simp]:
  "n \<le> length dst \<Longrightarrow> length (memset_bytes dst c n) = length dst"
  by (simp add: memset_bytes_def)

lemma memset_nothing [simp]: "memset_bytes dst c 0 = dst"
  by (simp add: memset_bytes_def)

section \<open>Little-endian integers\<close>

definition le16 :: "u8 \<Rightarrow> u8 \<Rightarrow> u16" where
  "le16 lo hi = ucast lo OR push_bit 8 (ucast hi)"

definition le32 :: "u8 \<Rightarrow> u8 \<Rightarrow> u8 \<Rightarrow> u8 \<Rightarrow> u32" where
  "le32 a b c d = ucast a OR push_bit 8 (ucast b) OR push_bit 16 (ucast c) OR push_bit 24 (ucast d)"

definition bytes16 :: "u16 \<Rightarrow> bytes" where
  "bytes16 w = [ucast w, ucast (drop_bit 8 w)]"

definition bytes32 :: "u32 \<Rightarrow> bytes" where
  "bytes32 w = [ucast w, ucast (drop_bit 8 w), ucast (drop_bit 16 w), ucast (drop_bit 24 w)]"

lemma length_bytes16 [len_simps, simp]: "length (bytes16 w) = 2"
  by (simp add: bytes16_def)

lemma length_bytes32 [len_simps, simp]: "length (bytes32 w) = 4"
  by (simp add: bytes32_def)

lemma bit_u8_high [simp]: "\<not> bit (w :: u8) (8 + n)"
  using bit_imp_le_length [of w "8 + n"] by auto

lemma bytes16_le16 [simp]: "bytes16 (le16 lo hi) = [lo, hi]"
  unfolding bytes16_def le16_def
  by (auto intro!: bit_word_eqI
      simp: bit_ucast_iff bit_or_iff bit_push_bit_iff bit_drop_bit_eq)

lemma le16_bytes16 [simp]: "le16 (ucast w) (ucast (drop_bit 8 w)) = w"
  unfolding le16_def
  by (rule bit_word_eqI)
    (auto simp: bit_ucast_iff bit_or_iff bit_push_bit_iff bit_drop_bit_eq)

lemma le32_bytes32 [simp]:
  fixes w :: u32
  shows "le32 (ucast w) (ucast (drop_bit 8 w)) (ucast (drop_bit 16 w)) (ucast (drop_bit 24 w)) = w"
  unfolding le32_def
proof (rule bit_word_eqI)
  fix n assume "n < LENGTH(32)"
  moreover have "n < 8 \<or> 8 \<le> n \<and> n < 16 \<or> 16 \<le> n \<and> n < 24 \<or> 24 \<le> n" by auto
  ultimately show "bit (ucast (ucast w :: u8) OR push_bit 8 (ucast (ucast (drop_bit 8 w) :: u8))
      OR push_bit 16 (ucast (ucast (drop_bit 16 w) :: u8))
      OR push_bit 24 (ucast (ucast (drop_bit 24 w) :: u8)) :: u32) n = bit w n"
    by (elim disjE) (auto simp: bit_ucast_iff bit_or_iff bit_push_bit_iff bit_drop_bit_eq)
qed

section \<open>String literals\<close>

text \<open>The bytes of a C string literal, without its terminating NUL.\<close>

definition str :: "string \<Rightarrow> bytes" where
  "str s = map of_char s"

lemma str_Nil [simp]: "str [] = []"
  by (simp add: str_def)

lemma str_append [simp]: "str (s @ t) = str s @ str t"
  by (simp add: str_def)

lemma length_str [len_simps, simp]: "length (str s) = length s"
  by (simp add: str_def)

section \<open>Arrays filled from the front\<close>

lemma take_update_snoc: "n < length xs \<Longrightarrow> take (Suc n) (xs[n := x]) = take n xs @ [x]"
  by (simp add: take_Suc_conv_app_nth)

lemma update_last: "length xs = Suc n \<Longrightarrow> xs[n := x] = take n xs @ [x]"
  using take_update_snoc [of n xs x] by simp

section \<open>First index\<close>

fun first_index :: "('a \<Rightarrow> bool) \<Rightarrow> 'a list \<Rightarrow> nat option" where
  "first_index P [] = None"
| "first_index P (x # xs) = (if P x then Some 0 else map_option Suc (first_index P xs))"

lemma first_index_None_iff: "first_index P xs = None \<longleftrightarrow> (\<forall>x\<in>set xs. \<not> P x)"
  by (induction xs) auto

lemma first_index_Some_iff:
  "first_index P xs = Some i \<longleftrightarrow> i < length xs \<and> P (xs ! i) \<and> (\<forall>j<i. \<not> P (xs ! j))"
proof (induction xs arbitrary: i)
  case Nil
  then show ?case by simp
next
  case (Cons x xs)
  show ?case
  proof (cases i)
    case 0
    then show ?thesis by auto
  next
    case (Suc k)
    then show ?thesis using Cons by (auto simp: less_Suc_eq_0_disj)
  qed
qed

lemma first_index_SomeD:
  "first_index P xs = Some i \<Longrightarrow> i < length xs \<and> P (xs ! i)"
  by (simp add: first_index_Some_iff)

text \<open>The same notions on an interval of indices, as a loop with an early exit sees them.\<close>

definition none_in :: "(nat \<Rightarrow> bool) \<Rightarrow> nat \<Rightarrow> nat \<Rightarrow> bool" where
  "none_in P i n \<longleftrightarrow> (\<forall>j. i \<le> j \<and> j < n \<longrightarrow> \<not> P j)"

definition first_in :: "(nat \<Rightarrow> bool) \<Rightarrow> nat \<Rightarrow> nat \<Rightarrow> nat \<Rightarrow> bool" where
  "first_in P i n k \<longleftrightarrow> i \<le> k \<and> k < n \<and> P k \<and> none_in P i k"

lemma none_in_empty: "n \<le> i \<Longrightarrow> none_in P i n"
  by (auto simp: none_in_def)

lemma none_in_step: "\<not> P i \<Longrightarrow> none_in P (Suc i) n \<Longrightarrow> none_in P i n"
  unfolding none_in_def by (metis Suc_leI le_neq_implies_less)

lemma first_in_here: "P i \<Longrightarrow> i < n \<Longrightarrow> first_in P i n i"
  by (simp add: first_in_def none_in_empty)

lemma first_in_step: "\<not> P i \<Longrightarrow> first_in P (Suc i) n k \<Longrightarrow> first_in P i n k"
  by (auto simp: first_in_def intro: none_in_step)

lemma first_in_first_index:
  "first_in (\<lambda>j. P (xs ! j)) 0 (length xs) k \<Longrightarrow> first_index P xs = Some k"
  by (simp add: first_in_def none_in_def first_index_Some_iff)

lemma none_in_first_index:
  "none_in (\<lambda>j. P (xs ! j)) 0 (length xs) \<Longrightarrow> first_index P xs = None"
  by (auto simp: none_in_def first_index_None_iff in_set_conv_nth)

lemma all_set_nth: "(\<forall>x\<in>set xs. P x) \<longleftrightarrow> (\<forall>i<length xs. P (xs ! i))"
  by (rule all_set_conv_all_nth)

lemma nth_loop_eq_map:
  fixes loop :: "'a list \<Rightarrow> nat \<Rightarrow> 'a list"
  assumes "\<And>xs. loop xs 0 = xs"
    and "\<And>xs i. loop xs (Suc i) = (loop xs i)[i := f (loop xs i ! i)]"
    and "n \<le> length xs"
  shows "loop xs n = map f (take n xs) @ drop n xs"
  using assms(3)
proof (induction n)
  case 0
  then show ?case by (simp add: assms(1))
next
  case (Suc n)
  then have "drop n xs = xs ! n # drop (Suc n) xs"
    by (simp add: Cons_nth_drop_Suc)
  with Suc show ?case
    by (simp add: assms(2) nth_append list_update_append take_Suc_conv_app_nth)
qed

text \<open>Distinct keys, from uniqueness by index.\<close>

lemma distinct_map_filter_nth:
  assumes "\<forall>i<length xs. \<forall>j<length xs. P (xs ! i) \<and> P (xs ! j) \<and> f (xs ! i) = f (xs ! j) \<longrightarrow> i = j"
  shows "distinct (map f (filter P xs))"
  using assms
proof (induction xs)
  case Nil
  then show ?case by simp
next
  case (Cons x xs)
  have "\<forall>i<length xs. \<forall>j<length xs. P (xs ! i) \<and> P (xs ! j) \<and> f (xs ! i) = f (xs ! j) \<longrightarrow> i = j"
    using Cons.prems by (metis Suc_inject Suc_less_eq length_Cons nth_Cons_Suc)
  moreover have "f x \<notin> f ` set (filter P xs)" if "P x"
  proof
    assume "f x \<in> f ` set (filter P xs)"
    then obtain j where "j < length xs" "P (xs ! j)" "f (xs ! j) = f x"
      by (auto simp: in_set_conv_nth)
    then have "0 = Suc j" using Cons.prems [rule_format, of 0 "Suc j"] that by simp
    then show False by simp
  qed
  ultimately show ?case using Cons.IH by simp
qed

end
