(* ===== verification/Frames.thy ===== *)
theory Frames
  imports Prelude
begin

text \<open>
  The wire formats of \<^verbatim>\<open>firmware/nrf_frames.h\<close> and \<^verbatim>\<open>firmware/nrf24l01p.h\<close>: the 16-byte raw
  radio message, the frame laid over it by the casts in \<^verbatim>\<open>data.c\<close>, and the union
  \<open>nrf_msg\<close>, whose two views of the same 12 bytes are the byte array \<open>generic\<close> and the
  power report (four 16-bit readings, the battery voltage and two spare bytes).
\<close>

definition PAYLOADSZ :: nat where
  "PAYLOADSZ = 16"

definition NRF_MSG_ID_GENERIC :: u8 where
  "NRF_MSG_ID_GENERIC = 0x00"

definition NRF_MSG_ID_POWER :: u8 where
  "NRF_MSG_ID_POWER = 0x01"

text \<open>\<open>struct nrf_raw_msg\<close> is its array \<open>data\<close> of \<open>PAYLOADSZ\<close> bytes.\<close>

type_synonym nrf_raw_msg = bytes

text \<open>\<open>union nrf_msg\<close>, kept as its \<open>generic\<close> view of 12 bytes.\<close>

type_synonym nrf_msg = bytes

record nrf_power =
  pw_value :: "u16 list"
  pw_vbatt :: u16
  pw_spare :: bytes

record nrf_frame =
  fr_board_id :: u8
  fr_msg_id :: u8
  fr_len :: u8
  fr_seq :: u8
  fr_msg :: nrf_msg

definition wf_raw :: "nrf_raw_msg \<Rightarrow> bool" where
  "wf_raw raw \<longleftrightarrow> length raw = PAYLOADSZ"

definition wf_frame :: "nrf_frame \<Rightarrow> bool" where
  "wf_frame f \<longleftrightarrow> length (fr_msg f) = 12"

definition wf_power :: "nrf_power \<Rightarrow> bool" where
  "wf_power p \<longleftrightarrow> length (pw_value p) = 4 \<and> length (pw_spare p) = 2"

section \<open>The casts\<close>

text \<open>The cast \<open>(struct nrf_raw_msg *)&msg\<close> of \<open>data_rx\<close> and its inverse, byte for byte.\<close>

definition frame_of_raw :: "nrf_raw_msg \<Rightarrow> nrf_frame" where
  "frame_of_raw raw =
     \<lparr>fr_board_id = raw ! 0, fr_msg_id = raw ! 1, fr_len = raw ! 2, fr_seq = raw ! 3,
      fr_msg = take 12 (drop 4 raw)\<rparr>"

definition raw_of_frame :: "nrf_frame \<Rightarrow> nrf_raw_msg" where
  "raw_of_frame f = [fr_board_id f, fr_msg_id f, fr_len f, fr_seq f] @ fr_msg f"

text \<open>The member \<open>power\<close> of the union read from the bytes, and the bytes it stands for.\<close>

definition power_of_msg :: "nrf_msg \<Rightarrow> nrf_power" where
  "power_of_msg g =
     \<lparr>pw_value = map (\<lambda>k. le16 (g ! (2 * k)) (g ! (2 * k + 1))) [0..<4],
      pw_vbatt = le16 (g ! 8) (g ! 9),
      pw_spare = [g ! 10, g ! 11]\<rparr>"

definition msg_of_power :: "nrf_power \<Rightarrow> nrf_msg" where
  "msg_of_power p = concat (map bytes16 (pw_value p)) @ bytes16 (pw_vbatt p) @ pw_spare p"

section \<open>Round trips\<close>

lemma list_of_12:
  "length xs = 12 \<Longrightarrow>
   xs = [xs ! 0, xs ! 1, xs ! 2, xs ! 3, xs ! 4, xs ! 5, xs ! 6, xs ! 7, xs ! 8, xs ! 9,
         xs ! 10, xs ! 11]"
  by (rule nth_equalityI) (auto simp: less_Suc_eq numeral_eq_Suc)

lemma list_of_4: "length xs = 4 \<Longrightarrow> xs = [xs ! 0, xs ! 1, xs ! 2, xs ! 3]"
  by (rule nth_equalityI) (auto simp: less_Suc_eq numeral_eq_Suc)

lemma wf_raw_of_frame [simp, len_simps]: "wf_frame f \<Longrightarrow> wf_raw (raw_of_frame f)"
  by (simp add: wf_frame_def wf_raw_def raw_of_frame_def PAYLOADSZ_def)

lemma wf_frame_of_raw [simp, len_simps]: "wf_raw raw \<Longrightarrow> wf_frame (frame_of_raw raw)"
  by (simp add: wf_frame_def wf_raw_def frame_of_raw_def PAYLOADSZ_def)

lemma length_raw_of_frame [len_simps]: "wf_frame f \<Longrightarrow> length (raw_of_frame f) = 16"
  by (simp add: wf_frame_def raw_of_frame_def)

lemma frame_of_raw_of_frame [simp]: "wf_frame f \<Longrightarrow> frame_of_raw (raw_of_frame f) = f"
  by (simp add: wf_frame_def raw_of_frame_def frame_of_raw_def)

lemma raw_of_frame_of_raw [simp]: "wf_raw raw \<Longrightarrow> raw_of_frame (frame_of_raw raw) = raw"
proof -
  assume "wf_raw raw"
  then have l: "length raw = 16" by (simp add: wf_raw_def PAYLOADSZ_def)
  then have "take 4 raw = [raw ! 0, raw ! 1, raw ! 2, raw ! 3]"
    using list_of_4 [of "take 4 raw"] by simp
  moreover have "take 12 (drop 4 raw) = drop 4 raw" using l by simp
  ultimately show ?thesis
    using append_take_drop_id [of 4 raw] by (simp add: raw_of_frame_def frame_of_raw_def)
qed

lemma upt_4: "[0..<4] = [0, 1, 2, 3 :: nat]"
  by (simp add: upt_rec)

lemma msg_of_power_of_msg: "length g = 12 \<Longrightarrow> msg_of_power (power_of_msg g) = g"
  using list_of_12 [of g] by (simp add: msg_of_power_def power_of_msg_def upt_4)

lemma power_of_msg_of_power: "wf_power p \<Longrightarrow> power_of_msg (msg_of_power p) = p"
proof -
  assume wf: "wf_power p"
  then obtain a b c d where v: "pw_value p = [a, b, c, d]"
    unfolding wf_power_def using list_of_4 by metis
  from wf obtain x y where s: "pw_spare p = [x, y]"
    unfolding wf_power_def by (auto simp: length_Suc_conv numeral_2_eq_2)
  show ?thesis
    using v s by (cases p) (simp add: msg_of_power_def power_of_msg_def bytes16_def upt_4)
qed

text \<open>
  The overlay of the frame on the raw radio message loses nothing: over the 16-byte
  messages and the frames with a 12-byte body the two casts are inverse to each other,
  so what \<open>data_rx\<close> reads through the frame is what the radio delivered.
\<close>

theorem frame_raw_roundtrip:
  assumes "wf_raw raw" and "wf_frame f"
  shows "raw_of_frame (frame_of_raw raw) = raw \<and> frame_of_raw (raw_of_frame f) = f
    \<and> wf_frame (frame_of_raw raw) \<and> wf_raw (raw_of_frame f)"
  using assms by simp

theorem frame_raw_roundtrip_witness:
  "frame_of_raw (raw_of_frame (frame_of_raw (map of_nat [0..<16]))) = frame_of_raw (map of_nat [0..<16])"
proof -
  have w: "wf_raw (map of_nat [0..<16])" by (simp add: wf_raw_def PAYLOADSZ_def)
  show ?thesis using frame_raw_roundtrip [OF w wf_frame_of_raw [OF w]] by blast
qed

text \<open>
  The two views of the union \<open>nrf_msg\<close>: every power report is carried by exactly one
  12-byte message, little endian, and reading the message back gives the report; the
  message as bytes is recovered from its power view too, spare bytes included.
\<close>

theorem power_roundtrip:
  assumes "wf_power p" and "length g = 12"
  shows "power_of_msg (msg_of_power p) = p \<and> msg_of_power (power_of_msg g) = g"
  using assms power_of_msg_of_power msg_of_power_of_msg by simp

theorem power_roundtrip_witness:
  "power_of_msg [0x10, 0x27, 1, 0, 2, 0, 3, 0, 0xE4, 0x0C, 7, 8] =
     \<lparr>pw_value = [10000, 1, 2, 3], pw_vbatt = 3300, pw_spare = [7, 8]\<rparr>"
proof -
  let ?p = "\<lparr>pw_value = [10000, 1, 2, 3], pw_vbatt = 3300, pw_spare = [7, 8]\<rparr> :: nrf_power"
  have "msg_of_power ?p = [0x10, 0x27, 1, 0, 2, 0, 3, 0, 0xE4, 0x0C, 7, 8]"
    by (simp add: msg_of_power_def bytes16_def)
  moreover have "wf_power ?p" by (simp add: wf_power_def)
  ultimately show ?thesis
    using power_roundtrip [of ?p "replicate 12 0"] by simp
qed

end
