(* ===== verification/Ttl_Store.thy ===== *)
theory Ttl_Store
  imports Frames
begin

text \<open>
  The interface of a store of sensor reports with a time to live, and what it promises over
  whole histories. A store is updated by received frames and aged by ticks; its abstract
  value is a partial map from (board, message) keys to reports. \<open>ttl_store\<close> holds the laws of
  the single operations, \<open>bounded_store\<close> adds that the store has a fixed capacity which
  alone decides whether a new key is accepted. The consequences (how long a report lives,
  agreement with the map machine \<open>spec_step\<close>) are proved once here; \<^verbatim>\<open>Data_Table\<close> shows that
  the table of \<^verbatim>\<open>firmware/data.c\<close> obeys the laws.
\<close>

section \<open>Keys, reports, histories\<close>

type_synonym key = "u8 \<times> u8"

text \<open>A report: time to live, sequence number, payload.\<close>

type_synonym report = "u8 \<times> u8 \<times> bytes"

definition frame_key :: "nrf_frame \<Rightarrow> key" where
  "frame_key m = (fr_board_id m, fr_msg_id m)"

datatype store_ev = Rx nrf_frame | Tick

fun store_run :: "(nrf_frame \<Rightarrow> 's \<Rightarrow> 's) \<Rightarrow> ('s \<Rightarrow> 's) \<Rightarrow> 's \<Rightarrow> store_ev list \<Rightarrow> 's" where
  "store_run update tick s [] = s"
| "store_run update tick s (Rx m # es) = store_run update tick (update m s) es"
| "store_run update tick s (Tick # es) = store_run update tick (tick s) es"

definition ticks :: "store_ev list \<Rightarrow> nat" where
  "ticks es = length (filter (\<lambda>e. e = Tick) es)"

text \<open>The frames of a history are well formed; no frame of it carries the key \<open>k\<close>.\<close>

definition wf_history :: "store_ev list \<Rightarrow> bool" where
  "wf_history es \<longleftrightarrow> (\<forall>m. Rx m \<in> set es \<longrightarrow> wf_frame m)"

definition silent :: "key \<Rightarrow> store_ev list \<Rightarrow> bool" where
  "silent k es \<longleftrightarrow> (\<forall>m. Rx m \<in> set es \<longrightarrow> frame_key m \<noteq> k)"

lemma ticks_simps [simp]:
  "ticks [] = 0" "ticks (Tick # es) = Suc (ticks es)" "ticks (Rx m # es) = ticks es"
  by (simp_all add: ticks_def)

lemma wf_history_simps [simp]:
  "wf_history []" "wf_history (Tick # es) = wf_history es"
  "wf_history (Rx m # es) \<longleftrightarrow> wf_frame m \<and> wf_history es"
  by (auto simp: wf_history_def)

lemma silent_simps [simp]:
  "silent k []" "silent k (Tick # es) = silent k es"
  "silent k (Rx m # es) \<longleftrightarrow> frame_key m \<noteq> k \<and> silent k es"
  by (auto simp: silent_def)

lemma store_run_append:
  "store_run u t s (es @ fs) = store_run u t (store_run u t s es) fs"
  by (induction u t s es rule: store_run.induct) auto

section \<open>Ageing\<close>

fun age :: "report option \<Rightarrow> report option" where
  "age None = None"
| "age (Some (t, q, d)) = (if t - 1 = 0 then None else Some (t - 1, q, d))"

lemma age_pow_None [simp]: "(age ^^ n) None = None"
  by (induction n) auto

lemma age_pow:
  assumes "t \<noteq> 0"
  shows "(age ^^ n) (Some (t, q, d)) =
    (if n < unat t then Some (t - of_nat n, q, d) else None)"
proof (induction n)
  case 0
  then show ?case using assms by (simp add: unat_gt_0)
next
  case (Suc n)
  show ?case
  proof (cases "n < unat t")
    case True
    note u8_count_down(3) [OF True]
    then show ?thesis using Suc True by (simp add: algebra_simps)
  next
    case False
    then show ?thesis using Suc by simp
  qed
qed

text \<open>The newest report of a key in a history, aged by the ticks since, as a store without bounds would have it.\<close>

fun newest_step :: "u8 \<Rightarrow> key \<Rightarrow> report option \<Rightarrow> store_ev \<Rightarrow> report option" where
  "newest_step ttl0 k r (Rx m) = (if frame_key m = k then Some (ttl0, fr_seq m, fr_msg m) else r)"
| "newest_step ttl0 k r Tick = age r"

definition newest :: "u8 \<Rightarrow> key \<Rightarrow> store_ev list \<Rightarrow> report option" where
  "newest ttl0 k es = foldl (newest_step ttl0 k) None es"

section \<open>The laws of a store\<close>

locale ttl_store =
  fixes update :: "nrf_frame \<Rightarrow> 's \<Rightarrow> 's"
    and tick :: "'s \<Rightarrow> 's"
    and look :: "'s \<Rightarrow> key \<Rightarrow> report option"
    and room :: "'s \<Rightarrow> bool"
    and inv :: "'s \<Rightarrow> bool"
    and ok_key :: "key \<Rightarrow> bool"
    and ttl0 :: u8
  assumes inv_update: "inv s \<Longrightarrow> wf_frame m \<Longrightarrow> inv (update m s)"
    and inv_tick: "inv s \<Longrightarrow> inv (tick s)"
    and look_hit: "inv s \<Longrightarrow> wf_frame m \<Longrightarrow> ok_key (frame_key m) \<Longrightarrow>
          look s (frame_key m) \<noteq> None \<or> room s \<Longrightarrow>
          look (update m s) (frame_key m) = Some (ttl0, fr_seq m, fr_msg m)"
    and look_full: "inv s \<Longrightarrow> ok_key (frame_key m) \<Longrightarrow>
          look s (frame_key m) = None \<Longrightarrow> \<not> room s \<Longrightarrow> update m s = s"
    and look_other: "inv s \<Longrightarrow> wf_frame m \<Longrightarrow> ok_key k \<Longrightarrow> k \<noteq> frame_key m \<Longrightarrow>
          look (update m s) k = look s k"
    and look_tick: "inv s \<Longrightarrow> ok_key k \<Longrightarrow> look (tick s) k = age (look s k)"
    and ttl0_pos: "ttl0 \<noteq> 0"
begin

lemma inv_run: "inv s \<Longrightarrow> wf_history es \<Longrightarrow> inv (store_run update tick s es)"
proof (induction es arbitrary: s)
  case (Cons e es)
  then show ?case by (cases e) (auto intro: inv_update inv_tick)
qed simp

lemma look_silent:
  "inv s \<Longrightarrow> ok_key k \<Longrightarrow> wf_history es \<Longrightarrow> silent k es \<Longrightarrow>
   look (store_run update tick s es) k = (age ^^ ticks es) (look s k)"
proof (induction es arbitrary: s)
  case (Cons e es)
  show ?case
  proof (cases e)
    case (Rx m)
    with Cons.prems have "inv (update m s)" "look (update m s) k = look s k"
      by (auto intro: inv_update look_other)
    with Cons Rx show ?thesis by simp
  next
    case Tick
    with Cons show ?thesis by (simp add: inv_tick look_tick funpow_swap1)
  qed
qed simp

text \<open>What a store shows of a key is never stale, whatever happens to the others: nothing or the newest report.\<close>

lemma look_newest:
  "inv s \<Longrightarrow> ok_key k \<Longrightarrow> wf_history es \<Longrightarrow> look s k = None \<or> look s k = r \<Longrightarrow>
   look (store_run update tick s es) k = None
   \<or> look (store_run update tick s es) k = foldl (newest_step ttl0 k) r es"
proof (induction es arbitrary: s r)
  case (Cons e es)
  show ?case
  proof (cases e)
    case Tick
    then have "inv (tick s)" "look (tick s) k = None \<or> look (tick s) k = age r"
      using Cons.prems inv_tick look_tick by auto
    then show ?thesis using Cons Tick by simp
  next
    case (Rx m)
    then have i: "inv (update m s)" using Cons.prems inv_update by simp
    have "look (update m s) k = None \<or> look (update m s) k = newest_step ttl0 k r (Rx m)"
    proof (cases "frame_key m = k")
      case True
      show ?thesis
      proof (cases "look s k \<noteq> None \<or> room s")
        case True
        then show ?thesis using look_hit [of s m] \<open>frame_key m = k\<close> Cons.prems Rx by simp
      next
        case False
        then have "update m s = s" "look s k = None"
          using look_full [of s m] \<open>frame_key m = k\<close> Cons.prems by blast+
        then show ?thesis by simp
      qed
    next
      case False
      then show ?thesis using look_other [of s m k] Cons.prems Rx by auto
    qed
    then show ?thesis using Cons.IH [OF i] Cons.prems Rx by simp
  qed
qed simp

lemma look_lifetime:
  assumes "inv s" "wf_frame m" "ok_key (frame_key m)"
    and "look s (frame_key m) \<noteq> None \<or> room s"
    and "wf_history es" "silent (frame_key m) es"
  shows "look (store_run update tick s (Rx m # es)) (frame_key m) =
    (if ticks es < unat ttl0
     then Some (ttl0 - of_nat (ticks es), fr_seq m, fr_msg m) else None)"
  using assms
  by (simp add: look_silent inv_update look_hit age_pow ttl0_pos)

end

section \<open>The map machine\<close>

fun spec_step :: "nat \<Rightarrow> u8 \<Rightarrow> (key \<rightharpoonup> report) \<Rightarrow> store_ev \<Rightarrow> (key \<rightharpoonup> report)" where
  "spec_step cap ttl0 M (Rx m) =
     (if frame_key m \<in> dom M \<or> card (dom M) < cap
      then M(frame_key m \<mapsto> (ttl0, fr_seq m, fr_msg m)) else M)"
| "spec_step cap ttl0 M Tick = (\<lambda>k. age (M k))"

locale bounded_store = ttl_store update tick look room inv ok_key ttl0
  for update :: "nrf_frame \<Rightarrow> 's \<Rightarrow> 's" and tick look room inv ok_key ttl0 +
  fixes pure_keys :: "'s \<Rightarrow> bool" and cap :: nat
  assumes pure_update: "inv s \<Longrightarrow> pure_keys s \<Longrightarrow> wf_frame m \<Longrightarrow>
          ok_key (frame_key m) \<Longrightarrow> pure_keys (update m s)"
    and pure_tick: "inv s \<Longrightarrow> pure_keys s \<Longrightarrow> pure_keys (tick s)"
    and pure_look: "pure_keys s \<Longrightarrow> \<not> ok_key k \<Longrightarrow> look s k = None"
    and room_card: "inv s \<Longrightarrow> pure_keys s \<Longrightarrow> room s \<longleftrightarrow> card (dom (look s)) < cap"
begin

lemma look_update_spec:
  assumes "inv s" "pure_keys s" "wf_frame m" "ok_key (frame_key m)"
  shows "look (update m s) = spec_step cap ttl0 (look s) (Rx m)"
proof (cases "look s (frame_key m) \<noteq> None \<or> room s")
  case True
  have "look (update m s) k = ((look s)(frame_key m \<mapsto> (ttl0, fr_seq m, fr_msg m))) k" for k
    using assms True pure_update [of s m]
    by (cases "k = frame_key m"; cases "ok_key k") (simp_all add: look_hit look_other pure_look)
  then show ?thesis
    using True assms by (auto simp: room_card dom_def)
next
  case False
  then have "\<not> card (dom (look s)) < cap" "frame_key m \<notin> dom (look s)"
    using assms by (auto simp: room_card)
  moreover have "update m s = s"
    using False assms by (intro look_full) blast+
  ultimately show ?thesis
    by (simp only: spec_step.simps if_False simp_thms)
qed

lemma look_tick_spec:
  assumes "inv s" "pure_keys s"
  shows "look (tick s) = spec_step cap ttl0 (look s) Tick"
proof
  fix k
  show "look (tick s) k = spec_step cap ttl0 (look s) Tick k"
    using assms pure_tick [of s] by (cases "ok_key k") (simp_all add: look_tick pure_look)
qed

lemma run_refines:
  assumes "inv s" "pure_keys s" "wf_history es"
    and "\<And>m. Rx m \<in> set es \<Longrightarrow> ok_key (frame_key m)"
  shows "look (store_run update tick s es) = foldl (spec_step cap ttl0) (look s) es"
  using assms
proof (induction es arbitrary: s)
  case Nil
  then show ?case by simp
next
  case (Cons e es)
  show ?case
  proof (cases e)
    case (Rx m)
    have "inv (update m s)" "pure_keys (update m s)"
      using Cons.prems Rx by (auto intro: inv_update pure_update)
    then show ?thesis
      using Cons Rx by (simp add: look_update_spec del: spec_step.simps)
  next
    case Tick
    have "inv (tick s)" "pure_keys (tick s)"
      using Cons.prems by (auto intro: inv_tick pure_tick)
    then show ?thesis
      using Cons Tick by (simp add: look_tick_spec del: spec_step.simps)
  qed
qed

end

end
