(* ===== verification/Data_Table.thy ===== *)
theory Data_Table
  imports Ttl_Store
begin

text \<open>
  The sensor table of \<^verbatim>\<open>firmware/data.c\<close>: \<open>TABLE_SIZE\<close> entries, each the last report of one
  (board, message) pair with a time to live. \<open>update_table\<close> stores a received frame,
  \<open>data_clean_tick\<close> is one turn of the \<open>data_clean\<close> thread (one second), \<open>data_init\<close> clears the
  table. The abstract view of a table is the map from (board, message) pairs to the time
  to live, sequence number and payload of the live entry that holds it. The locale
  \<open>ttl_store\<close> states the contract of such a store over that view and its consequences for
  whole histories; the table is an instance of it.

  The mutex \<open>data_mutex\<close> is taken and released by each operation around its whole body, so
  each operation is one atomic step.
\<close>

section \<open>State\<close>

definition TABLE_SIZE :: nat where
  "TABLE_SIZE = 32"

definition DATA_SIZE :: nat where
  "DATA_SIZE = 12"

definition NEW_TTL :: u8 where
  "NEW_TTL = 180"

record data_entry =
  de_ttl :: u8
  de_board_id :: u8
  de_msg_id :: u8
  de_seq :: u8
  de_data :: bytes

type_synonym data_table = "data_entry list"

text \<open>\<open>memset(entry, 0, sizeof(*entry))\<close>.\<close>

definition clear_entry :: "data_entry \<Rightarrow> data_entry" where
  "clear_entry e =
     \<lparr>de_ttl = 0, de_board_id = 0, de_msg_id = 0, de_seq = 0,
      de_data = memset_bytes (de_data e) 0 DATA_SIZE\<rparr>"

section \<open>Operations\<close>

definition update_entry :: "data_entry \<Rightarrow> nrf_frame \<Rightarrow> data_entry" where
  "update_entry entry msg =
     entry\<lparr>de_ttl := NEW_TTL,
           de_board_id := fr_board_id msg,
           de_msg_id := fr_msg_id msg,
           de_seq := fr_seq msg,
           de_data := memcpy_bytes (de_data entry) (fr_msg msg) DATA_SIZE\<rparr>"

text \<open>
  The search loop of \<open>update_table\<close>, from index \<open>i\<close>: it returns \<open>first_free\<close> and \<open>match\<close>, each
  \<open>-1\<close> while nothing is found, and leaves the loop at the first match.
\<close>

function update_scan :: "data_table \<Rightarrow> nrf_frame \<Rightarrow> int \<Rightarrow> int \<Rightarrow> nat \<Rightarrow> int \<times> int" where
  "update_scan tbl msg first_free match i =
     (if i < TABLE_SIZE then
        let entry = tbl ! i;
            first_free' = (if first_free < 0 \<and> de_ttl entry = 0 then int i else first_free)
        in if match < 0 \<and> de_board_id entry = fr_board_id msg
              \<and> de_msg_id entry = fr_msg_id msg
           then (first_free', int i)
           else update_scan tbl msg first_free' match (i + 1)
      else (first_free, match))"
  by pat_completeness auto
termination
  by (relation "measure (\<lambda>(tbl, msg, ff, m, i). TABLE_SIZE - i)") auto

declare update_scan.simps [simp del]

definition update_table :: "nrf_frame \<Rightarrow> data_table \<Rightarrow> data_table" where
  "update_table msg tbl =
     (let (first_free, match) = update_scan tbl msg (-1) (-1) 0
      in if match \<ge> 0 then tbl[nat match := update_entry (tbl ! nat match) msg]
         else if first_free \<ge> 0
         then tbl[nat first_free := update_entry (tbl ! nat first_free) msg]
         else tbl)"

text \<open>One entry and one whole turn of the \<open>data_clean\<close> loop.\<close>

definition clean_entry :: "data_entry \<Rightarrow> data_entry" where
  "clean_entry entry =
     (if de_ttl entry = 0 then entry
      else let entry' = entry\<lparr>de_ttl := de_ttl entry - 1\<rparr>
           in if de_ttl entry' = 0 then clear_entry entry' else entry')"

fun clean_loop :: "data_table \<Rightarrow> nat \<Rightarrow> data_table" where
  "clean_loop tbl 0 = tbl"
| "clean_loop tbl (Suc i) = (clean_loop tbl i)[i := clean_entry (clean_loop tbl i ! i)]"

definition data_clean_tick :: "data_table \<Rightarrow> data_table" where
  "data_clean_tick tbl = clean_loop tbl TABLE_SIZE"

text \<open>The clearing loop of \<open>data_init\<close>.\<close>

fun init_loop :: "data_table \<Rightarrow> nat \<Rightarrow> data_table" where
  "init_loop tbl 0 = tbl"
| "init_loop tbl (Suc i) = (init_loop tbl i)[i := clear_entry (init_loop tbl i ! i)]"

definition data_init :: "data_table \<Rightarrow> data_table" where
  "data_init tbl = init_loop tbl TABLE_SIZE"

section \<open>The loops in closed form\<close>

definition entry_key :: "data_entry \<Rightarrow> key" where
  "entry_key e = (de_board_id e, de_msg_id e)"

definition null_key :: key where
  "null_key = (0, 0)"

definition live :: "data_entry \<Rightarrow> bool" where
  "live e \<longleftrightarrow> de_ttl e \<noteq> 0"

definition zero_entry :: data_entry where
  "zero_entry =
     \<lparr>de_ttl = 0, de_board_id = 0, de_msg_id = 0, de_seq = 0, de_data = replicate 12 0\<rparr>"

definition wf_shape :: "data_table \<Rightarrow> bool" where
  "wf_shape tbl \<longleftrightarrow> length tbl = TABLE_SIZE \<and> (\<forall>e\<in>set tbl. length (de_data e) = DATA_SIZE)"

lemma clear_entry_zero [simp]: "length (de_data e) = DATA_SIZE \<Longrightarrow> clear_entry e = zero_entry"
  by (simp add: clear_entry_def zero_entry_def memset_bytes_def DATA_SIZE_def)

lemma clean_loop_map: "n \<le> length tbl \<Longrightarrow> clean_loop tbl n = map clean_entry (take n tbl) @ drop n tbl"
  by (rule nth_loop_eq_map) auto

lemma data_clean_tick_map: "length tbl = TABLE_SIZE \<Longrightarrow> data_clean_tick tbl = map clean_entry tbl"
  by (simp add: data_clean_tick_def clean_loop_map)

lemma data_init_map: "length tbl = TABLE_SIZE \<Longrightarrow> data_init tbl = map clear_entry tbl"
  unfolding data_init_def by (subst nth_loop_eq_map [of init_loop clear_entry]) auto

lemma data_init_zero: "wf_shape tbl \<Longrightarrow> data_init tbl = replicate TABLE_SIZE zero_entry"
  by (auto simp: wf_shape_def data_init_map map_replicate_const [symmetric] intro!: nth_equalityI)

text \<open>What the search loop returns, from index \<open>i\<close> on.\<close>

definition scan_post :: "data_table \<Rightarrow> nrf_frame \<Rightarrow> int \<Rightarrow> nat \<Rightarrow> int \<times> int \<Rightarrow> bool" where
  "scan_post tbl msg ff i r \<longleftrightarrow>
     (let hit = (\<lambda>j. entry_key (tbl ! j) = frame_key msg);
          free = (\<lambda>j. de_ttl (tbl ! j) = 0)
      in (snd r \<ge> 0 \<longrightarrow> first_in hit i TABLE_SIZE (nat (snd r)))
         \<and> (snd r < 0 \<longrightarrow>
              none_in hit i TABLE_SIZE
              \<and> (ff \<ge> 0 \<longrightarrow> fst r = ff)
              \<and> (ff < 0 \<longrightarrow>
                   (fst r \<ge> 0 \<longrightarrow> first_in free i TABLE_SIZE (nat (fst r)))
                   \<and> (fst r < 0 \<longrightarrow> none_in free i TABLE_SIZE))))"

lemma scan_post_step:
  assumes "i < TABLE_SIZE" and "entry_key (tbl ! i) \<noteq> frame_key msg"
    and "scan_post tbl msg (if ff < 0 \<and> de_ttl (tbl ! i) = 0 then int i else ff) (Suc i) r"
  shows "scan_post tbl msg ff i r"
  using assms
  by (cases "ff < 0"; cases "de_ttl (tbl ! i) = 0")
    (auto simp: scan_post_def Let_def intro: none_in_step first_in_step first_in_here)

lemma update_scan_post: "scan_post tbl msg ff i (update_scan tbl msg ff (-1) i)"
proof (induction tbl msg ff "-1 :: int" i rule: update_scan.induct)
  case (1 tbl msg ff i)
  let ?e = "tbl ! i"
  let ?ff = "if ff < 0 \<and> de_ttl ?e = 0 then int i else ff"
  show ?case
  proof (cases "i < TABLE_SIZE")
    case False
    then show ?thesis
      by (subst update_scan.simps) (simp add: scan_post_def none_in_empty)
  next
    case lt: True
    show ?thesis
    proof (cases "entry_key ?e = frame_key msg")
      case True
      then have "update_scan tbl msg ff (-1) i = (?ff, int i)"
        using lt by (subst update_scan.simps) (simp add: entry_key_def frame_key_def Let_def)
      then show ?thesis
        using lt True by (simp add: scan_post_def first_in_here)
    next
      case False
      then have eq: "update_scan tbl msg ff (-1) i = update_scan tbl msg ?ff (-1) (Suc i)"
        using lt by (subst update_scan.simps) (auto simp: entry_key_def frame_key_def Let_def)
      have rest: "scan_post tbl msg ?ff (Suc i) (update_scan tbl msg ?ff (-1) (Suc i))"
        using False lt 1 by (auto simp: entry_key_def frame_key_def)
      show ?thesis
        unfolding eq by (rule scan_post_step [OF lt False rest])
    qed
  qed
qed

lemma update_table_eq:
  assumes "length tbl = TABLE_SIZE"
  shows "update_table msg tbl =
    (case first_index (\<lambda>e. entry_key e = frame_key msg) tbl of
       Some k \<Rightarrow> tbl[k := update_entry (tbl ! k) msg]
     | None \<Rightarrow>
         (case first_index (\<lambda>e. de_ttl e = 0) tbl of
            Some k \<Rightarrow> tbl[k := update_entry (tbl ! k) msg]
          | None \<Rightarrow> tbl))"
proof -
  obtain f m where fm: "update_scan tbl msg (-1) (-1) 0 = (f, m)"
    by fastforce
  have post: "scan_post tbl msg (-1) 0 (f, m)"
    using update_scan_post [of tbl msg "-1" 0] fm by simp
  show ?thesis
  proof (cases "m \<ge> 0")
    case True
    then have "first_index (\<lambda>e. entry_key e = frame_key msg) tbl = Some (nat m)"
      using post assms by (intro first_in_first_index) (simp add: scan_post_def)
    then show ?thesis using True by (simp add: update_table_def fm)
  next
    case False
    then have none: "first_index (\<lambda>e. entry_key e = frame_key msg) tbl = None"
      using post assms by (intro none_in_first_index) (simp add: scan_post_def Let_def)
    show ?thesis
    proof (cases "f \<ge> 0")
      case True
      then have "first_index (\<lambda>e. de_ttl e = 0) tbl = Some (nat f)"
        using post assms False by (intro first_in_first_index) (simp add: scan_post_def)
      then show ?thesis using True False none by (simp add: update_table_def fm)
    next
      case f: False
      then have "first_index (\<lambda>e. de_ttl e = 0) tbl = None"
        using post assms False by (intro none_in_first_index) (simp add: scan_post_def Let_def)
      then show ?thesis using f False none by (simp add: update_table_def fm)
    qed
  qed
qed

section \<open>Abstract view and invariant\<close>

definition report_of :: "data_entry \<Rightarrow> report" where
  "report_of e = (de_ttl e, de_seq e, de_data e)"

definition table_look :: "data_table \<Rightarrow> key \<Rightarrow> report option" where
  "table_look tbl k = map_option report_of (find (\<lambda>e. live e \<and> entry_key e = k) tbl)"

definition table_room :: "data_table \<Rightarrow> bool" where
  "table_room tbl \<longleftrightarrow> (\<exists>e\<in>set tbl. \<not> live e)"

text \<open>
  The table has its 32 entries with 12-byte payloads, every entry out of use is all zero,
  and no two live entries share a key, except for the key \<open>(0, 0)\<close>.
\<close>

definition table_inv :: "data_table \<Rightarrow> bool" where
  "table_inv tbl \<longleftrightarrow> wf_shape tbl
     \<and> (\<forall>e\<in>set tbl. \<not> live e \<longrightarrow> e = zero_entry)
     \<and> (\<forall>i<TABLE_SIZE. \<forall>j<TABLE_SIZE. live (tbl ! i) \<and> live (tbl ! j)
          \<and> entry_key (tbl ! i) = entry_key (tbl ! j) \<and> entry_key (tbl ! i) \<noteq> null_key \<longrightarrow> i = j)"

definition no_null :: "data_table \<Rightarrow> bool" where
  "no_null tbl \<longleftrightarrow> (\<forall>e\<in>set tbl. live e \<longrightarrow> entry_key e \<noteq> null_key)"

lemma table_invD:
  assumes "table_inv tbl"
  shows table_inv_length: "length tbl = TABLE_SIZE"
    and table_inv_data: "\<And>i. i < TABLE_SIZE \<Longrightarrow> length (de_data (tbl ! i)) = DATA_SIZE"
    and table_inv_dead: "\<And>i. i < TABLE_SIZE \<Longrightarrow> \<not> live (tbl ! i) \<Longrightarrow> tbl ! i = zero_entry"
    and table_inv_uniq: "\<And>i j. i < TABLE_SIZE \<Longrightarrow> j < TABLE_SIZE \<Longrightarrow> live (tbl ! i) \<Longrightarrow>
          live (tbl ! j) \<Longrightarrow> entry_key (tbl ! i) = entry_key (tbl ! j) \<Longrightarrow>
          entry_key (tbl ! i) \<noteq> null_key \<Longrightarrow> i = j"
  using assms by (auto simp: table_inv_def wf_shape_def)

lemma table_invI:
  assumes "length tbl = TABLE_SIZE"
    and "\<And>i. i < TABLE_SIZE \<Longrightarrow> length (de_data (tbl ! i)) = DATA_SIZE"
    and "\<And>i. i < TABLE_SIZE \<Longrightarrow> \<not> live (tbl ! i) \<Longrightarrow> tbl ! i = zero_entry"
    and "\<And>i j. i < TABLE_SIZE \<Longrightarrow> j < TABLE_SIZE \<Longrightarrow> live (tbl ! i) \<Longrightarrow>
          live (tbl ! j) \<Longrightarrow> entry_key (tbl ! i) = entry_key (tbl ! j) \<Longrightarrow>
          entry_key (tbl ! i) \<noteq> null_key \<Longrightarrow> i = j"
  shows "table_inv tbl"
  unfolding table_inv_def wf_shape_def all_set_nth using assms by (simp, blast)

lemma zero_entry_simps [simp]:
  "\<not> live zero_entry" "de_ttl zero_entry = 0" "entry_key zero_entry = null_key" "length (de_data zero_entry) = DATA_SIZE"
  by (simp_all add: zero_entry_def live_def entry_key_def null_key_def DATA_SIZE_def)

lemma table_inv_init [inv_intros]: "table_inv (replicate TABLE_SIZE zero_entry)"
  by (rule table_invI) auto

lemma look_Some_iff:
  assumes "table_inv tbl" "k \<noteq> null_key"
  shows "table_look tbl k = Some r \<longleftrightarrow>
    (\<exists>i<TABLE_SIZE. live (tbl ! i) \<and> entry_key (tbl ! i) = k \<and> report_of (tbl ! i) = r)"
    (is "_ \<longleftrightarrow> ?R")
proof
  assume "table_look tbl k = Some r"
  then obtain e where "find (\<lambda>e. live e \<and> entry_key e = k) tbl = Some e" "report_of e = r"
    by (auto simp: table_look_def)
  then show ?R
    using table_inv_length [OF assms(1)] by (auto simp: find_Some_iff)
next
  assume ?R
  then obtain i where i: "i < TABLE_SIZE" "live (tbl ! i)" "entry_key (tbl ! i) = k"
      "report_of (tbl ! i) = r" by blast
  have "\<not> (live (tbl ! j) \<and> entry_key (tbl ! j) = k)" if "j < i" for j
    using that i assms(2) table_inv_uniq [OF assms(1), of j i] by auto
  then have "find (\<lambda>e. live e \<and> entry_key e = k) tbl = Some (tbl ! i)"
    unfolding find_Some_iff
    using i table_inv_length [OF assms(1)] by (intro exI [of _ i]) simp
  then show "table_look tbl k = Some r"
    using i by (simp add: table_look_def)
qed

lemma look_None_iff:
  "length tbl = TABLE_SIZE \<Longrightarrow>
   table_look tbl k = None \<longleftrightarrow> (\<forall>i<TABLE_SIZE. \<not> (live (tbl ! i) \<and> entry_key (tbl ! i) = k))"
  by (auto simp: table_look_def find_None_iff in_set_conv_nth)

lemma table_room_iff:
  "length tbl = TABLE_SIZE \<Longrightarrow> table_room tbl \<longleftrightarrow> (\<exists>i<TABLE_SIZE. \<not> live (tbl ! i))"
  unfolding table_room_def by (metis in_set_conv_nth)

lemma look_cong:
  assumes "table_inv tbl" "table_inv tbl'" "k \<noteq> null_key"
    and "\<And>r i. i < TABLE_SIZE \<Longrightarrow> live (tbl ! i) \<and> entry_key (tbl ! i) = k \<and> report_of (tbl ! i) = r
        \<longleftrightarrow> live (tbl' ! i) \<and> entry_key (tbl' ! i) = k \<and> report_of (tbl' ! i) = r"
  shows "table_look tbl k = table_look tbl' k"
proof -
  have "table_look tbl k = Some r \<longleftrightarrow> table_look tbl' k = Some r" for r
    unfolding look_Some_iff [OF assms(1,3)] look_Some_iff [OF assms(2,3)] using assms(4) by blast
  then show ?thesis by (metis option.exhaust)
qed

section \<open>Storing into one slot\<close>

definition put_slot :: "nrf_frame \<Rightarrow> nat \<Rightarrow> data_table \<Rightarrow> data_table" where
  "put_slot m i tbl = tbl[i := update_entry (tbl ! i) m]"

text \<open>Slot \<open>i\<close> may take the frame \<open>m\<close>: it is out of use or holds the same key already, and no
  other slot holds that key.\<close>

definition slot_for :: "nrf_frame \<Rightarrow> nat \<Rightarrow> data_table \<Rightarrow> bool" where
  "slot_for m i tbl \<longleftrightarrow> i < TABLE_SIZE \<and> (live (tbl ! i) \<longrightarrow> entry_key (tbl ! i) = frame_key m)
     \<and> (frame_key m \<noteq> null_key \<longrightarrow>
          (\<forall>j<TABLE_SIZE. j \<noteq> i \<and> live (tbl ! j) \<longrightarrow> entry_key (tbl ! j) \<noteq> frame_key m))"

lemma updated_entry:
  assumes "length (de_data e) = DATA_SIZE" "wf_frame m"
  shows "entry_key (update_entry e m) = frame_key m" "live (update_entry e m)"
    "report_of (update_entry e m) = (NEW_TTL, fr_seq m, fr_msg m)"
    "length (de_data (update_entry e m)) = DATA_SIZE"
  using assms
  by (simp_all add: update_entry_def entry_key_def frame_key_def live_def NEW_TTL_def report_of_def
      DATA_SIZE_def wf_frame_def)

lemma nth_put:
  "table_inv tbl \<Longrightarrow> i < TABLE_SIZE \<Longrightarrow>
   put_slot m i tbl ! j = (if j = i then update_entry (tbl ! i) m else tbl ! j)"
  by (simp add: put_slot_def table_inv_length)

lemma table_inv_put [inv_intros]:
  assumes "table_inv tbl" "wf_frame m" "slot_for m i tbl"
  shows "table_inv (put_slot m i tbl)"
proof (rule table_invI)
  have i: "i < TABLE_SIZE" using assms by (simp add: slot_for_def)
  note up = updated_entry [OF table_inv_data [OF assms(1) i] assms(2)]
  show "length (put_slot m i tbl) = TABLE_SIZE"
    using assms by (simp add: put_slot_def table_inv_length)
  fix j assume j: "j < TABLE_SIZE"
  show "length (de_data (put_slot m i tbl ! j)) = DATA_SIZE"
    using assms i j up by (simp add: nth_put table_inv_data)
  show "\<not> live (put_slot m i tbl ! j) \<Longrightarrow> put_slot m i tbl ! j = zero_entry"
    using table_inv_dead [OF assms(1) j] up(2) by (simp add: nth_put [OF assms(1) i] split: if_splits)
  fix l assume l: "l < TABLE_SIZE" "live (put_slot m i tbl ! j)" "live (put_slot m i tbl ! l)"
    "entry_key (put_slot m i tbl ! j) = entry_key (put_slot m i tbl ! l)"
    "entry_key (put_slot m i tbl ! j) \<noteq> null_key"
  have other: "entry_key (tbl ! n) \<noteq> frame_key m"
    if "n < TABLE_SIZE" "n \<noteq> i" "live (tbl ! n)" "frame_key m \<noteq> null_key" for n
    using assms(3) that by (simp add: slot_for_def)
  show "j = l"
  proof (cases "j = i \<or> l = i")
    case True
    then show ?thesis
      using l j other [of j] other [of l] up(1) nth_put [OF assms(1) i, of m] by (metis)
  next
    case False
    then show ?thesis
      using l j table_inv_uniq [OF assms(1), of j l] by (simp add: nth_put [OF assms(1) i])
  qed
qed

lemma look_put_same:
  assumes "table_inv tbl" "wf_frame m" "slot_for m i tbl" "frame_key m \<noteq> null_key"
  shows "table_look (put_slot m i tbl) (frame_key m) = Some (NEW_TTL, fr_seq m, fr_msg m)"
proof -
  have i: "i < TABLE_SIZE" using assms by (simp add: slot_for_def)
  note up = updated_entry [OF table_inv_data [OF assms(1) i] assms(2)]
  show ?thesis
    unfolding look_Some_iff [OF table_inv_put [OF assms(1-3)] assms(4)]
    using assms i up by (intro exI [of _ i]) (simp add: nth_put)
qed

lemma look_put_other:
  assumes "table_inv tbl" "wf_frame m" "slot_for m i tbl" "k \<noteq> null_key" "k \<noteq> frame_key m"
  shows "table_look (put_slot m i tbl) k = table_look tbl k"
proof (rule look_cong [OF table_inv_put [OF assms(1-3)] assms(1,4)])
  have i: "i < TABLE_SIZE" using assms by (simp add: slot_for_def)
  note up = updated_entry [OF table_inv_data [OF assms(1) i] assms(2)]
  fix r j assume "j < TABLE_SIZE"
  show "live (put_slot m i tbl ! j) \<and> entry_key (put_slot m i tbl ! j) = k \<and> report_of (put_slot m i tbl ! j) = r
    \<longleftrightarrow> live (tbl ! j) \<and> entry_key (tbl ! j) = k \<and> report_of (tbl ! j) = r"
    using assms i up by (auto simp: nth_put slot_for_def)
qed

text \<open>What \<open>update_table\<close> does: it stores into a suitable slot, or the table is full of other keys.\<close>

lemma update_table_cases:
  assumes "table_inv tbl"
  obtains (stored) i where "slot_for m i tbl" "update_table m tbl = put_slot m i tbl"
      "live (tbl ! i) \<or> table_room tbl"
  | (full) "update_table m tbl = tbl" "\<not> table_room tbl" "table_look tbl (frame_key m) = None"
proof -
  note len = table_inv_length [OF assms]
  note eq = update_table_eq [OF len, of m]
  show ?thesis
  proof (cases "first_index (\<lambda>e. entry_key e = frame_key m) tbl")
    case (Some i)
    then have i: "i < TABLE_SIZE" "entry_key (tbl ! i) = frame_key m"
      using first_index_SomeD len by fastforce+
    have "j = i" if "frame_key m \<noteq> null_key" "j < TABLE_SIZE" "live (tbl ! j)"
        "entry_key (tbl ! j) = frame_key m" for j
    proof (rule table_inv_uniq [OF assms])
      show "live (tbl ! i)" using i that(1) table_inv_dead [OF assms i(1)] by fastforce
    qed (use i that in simp_all)
    then have "slot_for m i tbl"
      using i by (auto simp: slot_for_def)
    moreover have "live (tbl ! i) \<or> table_room tbl"
      using i len by (auto simp: table_room_iff)
    ultimately show ?thesis
      using stored [of i] Some eq by (simp add: put_slot_def)
  next
    case None
    then have no: "entry_key (tbl ! j) \<noteq> frame_key m" if "j < TABLE_SIZE" for j
      using that len by (auto simp: first_index_None_iff all_set_nth)
    show ?thesis
    proof (cases "first_index (\<lambda>e. de_ttl e = 0) tbl")
      case (Some i)
      then have i: "i < TABLE_SIZE" "\<not> live (tbl ! i)"
        using first_index_SomeD len unfolding live_def by fastforce+
      then have "slot_for m i tbl" using no by (simp add: slot_for_def)
      moreover have "table_room tbl" using i len by (auto simp: table_room_iff)
      ultimately show ?thesis
        using stored [of i] None Some eq by (simp add: put_slot_def)
    next
      case none: None
      then have "\<not> table_room tbl"
        by (auto simp: first_index_None_iff table_room_def live_def)
      moreover have "table_look tbl (frame_key m) = None"
        using no len by (simp add: look_None_iff)
      ultimately show ?thesis
        using full None none eq by simp
    qed
  qed
qed

section \<open>One turn of the cleaner\<close>

lemma clean_entry_cases:
  assumes "length (de_data e) = DATA_SIZE" "\<not> live e \<longrightarrow> e = zero_entry"
  shows "\<not> live (clean_entry e) \<Longrightarrow> clean_entry e = zero_entry"
    and "length (de_data (clean_entry e)) = DATA_SIZE"
    and "live (clean_entry e) \<Longrightarrow> live e \<and> entry_key (clean_entry e) = entry_key e"
    and "live e \<Longrightarrow> age (Some (report_of e)) =
          (if live (clean_entry e) then Some (report_of (clean_entry e)) else None)"
  using assms
  by (auto simp: clean_entry_def live_def Let_def entry_key_def report_of_def)

lemma table_inv_tick [inv_intros]:
  assumes "table_inv tbl"
  shows "table_inv (data_clean_tick tbl)"
proof (rule table_invI)
  note len = table_inv_length [OF assms]
  show "length (data_clean_tick tbl) = TABLE_SIZE"
    by (simp add: data_clean_tick_map len)
  have nth: "data_clean_tick tbl ! i = clean_entry (tbl ! i)" if "i < TABLE_SIZE" for i
    using that by (simp add: data_clean_tick_map len)
  have c: "length (de_data (tbl ! i)) = DATA_SIZE" "\<not> live (tbl ! i) \<longrightarrow> tbl ! i = zero_entry"
    if "i < TABLE_SIZE" for i
    using that table_inv_data [OF assms] table_inv_dead [OF assms] by auto
  fix i assume i: "i < TABLE_SIZE"
  show "length (de_data (data_clean_tick tbl ! i)) = DATA_SIZE"
    using clean_entry_cases(2) [OF c [OF i]] i by (simp add: nth)
  show "\<not> live (data_clean_tick tbl ! i) \<Longrightarrow> data_clean_tick tbl ! i = zero_entry"
    using clean_entry_cases(1) [OF c [OF i]] i by (simp add: nth)
  fix j assume j: "j < TABLE_SIZE"
  assume "live (data_clean_tick tbl ! i)" "live (data_clean_tick tbl ! j)"
    "entry_key (data_clean_tick tbl ! i) = entry_key (data_clean_tick tbl ! j)"
    "entry_key (data_clean_tick tbl ! i) \<noteq> null_key"
  then show "i = j"
    using clean_entry_cases(3) [OF c [OF i]] clean_entry_cases(3) [OF c [OF j]]
      table_inv_uniq [OF assms i j] i j by (simp add: nth)
qed

lemma find_map_age:
  assumes "\<forall>e\<in>set es. length (de_data e) = DATA_SIZE \<and> (\<not> live e \<longrightarrow> e = zero_entry)"
    and "\<And>i j. i < length es \<Longrightarrow> j < length es \<Longrightarrow> live (es ! i) \<Longrightarrow> live (es ! j) \<Longrightarrow>
          entry_key (es ! i) = k \<Longrightarrow> entry_key (es ! j) = k \<Longrightarrow> i = j"
  shows "table_look (map clean_entry es) k = age (table_look es k)"
  using assms
proof (induction es)
  case Nil
  then show ?case by (simp add: table_look_def)
next
  case (Cons e es)
  note ce = clean_entry_cases [of e]
  have e: "length (de_data e) = DATA_SIZE" "\<not> live e \<longrightarrow> e = zero_entry"
    using Cons.prems(1) by auto
  show ?case
  proof (cases "live e \<and> entry_key e = k")
    case True
    have "\<not> (live x \<and> entry_key x = k)" if "x \<in> set es" for x
      using that True Cons.prems(2) [of 0] by (fastforce simp: in_set_conv_nth)
    then have "find (\<lambda>e. live e \<and> entry_key e = k) (map clean_entry es) = None"
      using Cons.prems(1) clean_entry_cases(3) by (fastforce simp: find_None_iff)
    then show ?thesis
      using True ce(3,4) [OF e] by (auto simp: table_look_def)
  next
    case False
    then have "\<not> (live (clean_entry e) \<and> entry_key (clean_entry e) = k)"
      using ce(3) [OF e] by auto
    moreover have "table_look (map clean_entry es) k = age (table_look es k)"
    proof (rule Cons.IH)
      show "i = j" if "i < length es" "j < length es" "live (es ! i)" "live (es ! j)"
        "entry_key (es ! i) = k" "entry_key (es ! j) = k" for i j
        using that Cons.prems(2) [of "Suc i" "Suc j"] by simp
    qed (use Cons.prems(1) in simp)
    ultimately show ?thesis using False by (auto simp: table_look_def)
  qed
qed

lemma look_tick_age:
  assumes "table_inv tbl" "k \<noteq> null_key"
  shows "table_look (data_clean_tick tbl) k = age (table_look tbl k)"
proof -
  note len = table_inv_length [OF assms(1)]
  show ?thesis
    unfolding data_clean_tick_map [OF len]
  proof (rule find_map_age)
    show "\<forall>e\<in>set tbl. length (de_data e) = DATA_SIZE \<and> (\<not> live e \<longrightarrow> e = zero_entry)"
      using assms(1) by (simp add: table_inv_def wf_shape_def)
    fix i j assume "i < length tbl" "j < length tbl" "live (tbl ! i)" "live (tbl ! j)"
      "entry_key (tbl ! i) = k" "entry_key (tbl ! j) = k"
    then show "i = j"
      using assms(2) len table_inv_uniq [OF assms(1), of i j] by simp
  qed
qed

section \<open>Capacity\<close>

lemma no_null_put:
  assumes "table_inv tbl" "wf_frame m" "slot_for m i tbl" "frame_key m \<noteq> null_key" "no_null tbl"
  shows "no_null (put_slot m i tbl)"
proof -
  have i: "i < TABLE_SIZE" using assms by (simp add: slot_for_def)
  note up = updated_entry [OF table_inv_data [OF assms(1) i] assms(2)]
  show ?thesis
    unfolding no_null_def put_slot_def
  proof
    fix e assume "e \<in> set (tbl[i := update_entry (tbl ! i) m])"
    then have "e = update_entry (tbl ! i) m \<or> e \<in> set tbl"
      using set_update_subset_insert by fast
    then show "live e \<longrightarrow> entry_key e \<noteq> null_key"
      using assms(4,5) up(1) by (auto simp: no_null_def)
  qed
qed

lemma no_null_tick:
  assumes "table_inv tbl" "no_null tbl"
  shows "no_null (data_clean_tick tbl)"
  unfolding no_null_def data_clean_tick_map [OF table_inv_length [OF assms(1)]]
proof
  fix e assume "e \<in> set (map clean_entry tbl)"
  then obtain e0 where "e = clean_entry e0" "e0 \<in> set tbl" by auto
  moreover have "length (de_data e0) = DATA_SIZE" "\<not> live e0 \<longrightarrow> e0 = zero_entry"
    using assms(1) \<open>e0 \<in> set tbl\<close> by (auto simp: table_inv_def wf_shape_def)
  ultimately show "live e \<longrightarrow> entry_key e \<noteq> null_key"
    using assms(2) clean_entry_cases(3) [of e0] by (auto simp: no_null_def)
qed

lemma no_null_look: "no_null tbl \<Longrightarrow> table_look tbl null_key = None"
  by (auto simp: no_null_def table_look_def find_None_iff)

lemma dom_look:
  assumes "table_inv tbl" "no_null tbl"
  shows "dom (table_look tbl) = (\<lambda>i. entry_key (tbl ! i)) ` {i. i < TABLE_SIZE \<and> live (tbl ! i)}"
proof (rule set_eqI)
  fix k
  have "k \<in> dom (table_look tbl) \<longleftrightarrow> (\<exists>i<TABLE_SIZE. live (tbl ! i) \<and> entry_key (tbl ! i) = k)"
    by (simp only: domIff look_None_iff [OF table_inv_length [OF assms(1)]] not_all not_imp not_not)
  then show "k \<in> dom (table_look tbl) \<longleftrightarrow>
      k \<in> (\<lambda>i. entry_key (tbl ! i)) ` {i. i < TABLE_SIZE \<and> live (tbl ! i)}"
    by blast
qed

lemma room_iff_card:
  assumes "table_inv tbl" "no_null tbl"
  shows "table_room tbl \<longleftrightarrow> card (dom (table_look tbl)) < TABLE_SIZE"
proof -
  let ?L = "{i. i < TABLE_SIZE \<and> live (tbl ! i)}"
  note len = table_inv_length [OF assms(1)]
  have "entry_key (tbl ! i) \<noteq> null_key" if "i \<in> ?L" for i
    using that assms(2) len by (simp add: no_null_def)
  then have "inj_on (\<lambda>i. entry_key (tbl ! i)) ?L"
    using table_inv_uniq [OF assms(1)] by (simp add: inj_on_def)
  then have "card (dom (table_look tbl)) = card ?L"
    by (simp add: dom_look [OF assms] card_image)
  moreover have "?L \<subseteq> {..<TABLE_SIZE}" by auto
  moreover have "table_room tbl \<longleftrightarrow> ?L \<noteq> {..<TABLE_SIZE}"
    by (auto simp: table_room_iff [OF len])
  ultimately show ?thesis
    by (metis card_lessThan card_subset_eq finite_lessThan psubsetI psubset_card_mono less_irrefl)
qed

section \<open>The table is a bounded store\<close>

interpretation table: bounded_store update_table data_clean_tick table_look table_room table_inv
  "\<lambda>k. k \<noteq> null_key" NEW_TTL no_null TABLE_SIZE
proof unfold_locales
  fix tbl m assume i: "table_inv tbl"
  {
    assume "wf_frame m"
    then show "table_inv (update_table m tbl)"
      using i by (cases rule: update_table_cases [OF i, of m]) (simp_all add: inv_intros)
  next
    assume "wf_frame m" "frame_key m \<noteq> null_key" "table_look tbl (frame_key m) \<noteq> None \<or> table_room tbl"
    then show "table_look (update_table m tbl) (frame_key m) = Some (NEW_TTL, fr_seq m, fr_msg m)"
      using i by (cases rule: update_table_cases [OF i, of m]) (simp_all add: look_put_same)
  next
    assume n: "frame_key m \<noteq> null_key" "table_look tbl (frame_key m) = None" "\<not> table_room tbl"
    show "update_table m tbl = tbl"
    proof (rule update_table_cases [OF i, of m])
      fix j assume "slot_for m j tbl" "live (tbl ! j) \<or> table_room tbl"
      then have "j < TABLE_SIZE" "live (tbl ! j)" "entry_key (tbl ! j) = frame_key m"
        using n(3) by (auto simp: slot_for_def)
      then show ?thesis
        using n(2) look_None_iff [OF table_inv_length [OF i]] by blast
    qed
  next
    assume "no_null tbl" "wf_frame m" "frame_key m \<noteq> null_key"
    then show "no_null (update_table m tbl)"
      using i by (cases rule: update_table_cases [OF i, of m]) (simp_all add: no_null_put)
  next
    fix k assume "wf_frame m" "k \<noteq> null_key" "k \<noteq> frame_key m"
    then show "table_look (update_table m tbl) k = table_look tbl k"
      using i by (cases rule: update_table_cases [OF i, of m]) (simp_all add: look_put_other)
  }
qed (simp_all add: inv_intros look_tick_age no_null_tick no_null_look room_iff_card NEW_TTL_def)

section \<open>Properties\<close>

text \<open>The table at boot: the array is static, so zero before \<open>data_init\<close> clears it.\<close>

definition boot_table :: data_table where
  "boot_table = data_init (replicate TABLE_SIZE zero_entry)"

lemma boot_table_zero: "boot_table = replicate TABLE_SIZE zero_entry"
  unfolding boot_table_def by (rule data_init_zero) (simp add: wf_shape_def)

lemma boot_inv: "table_inv boot_table" "no_null boot_table" "table_look boot_table = Map.empty"
  by (auto simp: boot_table_zero table_inv_init no_null_def table_look_def find_None_iff)

abbreviation run_table :: "data_table \<Rightarrow> store_ev list \<Rightarrow> data_table" where
  "run_table \<equiv> store_run update_table data_clean_tick"

text \<open>Concrete frames for the witnesses.\<close>

definition frame_a :: nrf_frame where
  "frame_a = \<lparr>fr_board_id = 1, fr_msg_id = 1, fr_len = 12, fr_seq = 7, fr_msg = replicate 12 5\<rparr>"

definition frame_null :: nrf_frame where
  "frame_null = \<lparr>fr_board_id = 0, fr_msg_id = 0, fr_len = 12, fr_seq = 3, fr_msg = replicate 12 9\<rparr>"

lemma frame_facts [simp]:
  "wf_frame frame_a" "wf_frame frame_null" "frame_key frame_a \<noteq> null_key"
  "frame_key frame_null = null_key"
  by (simp_all add: frame_a_def frame_null_def wf_frame_def frame_key_def null_key_def)

text \<open>
  Whatever frames arrive and however the cleaner interleaves with them, the table stays
  well formed: 32 entries of full size, free entries all zero, and at most one live entry
  per (board, message) pair other than \<open>(0, 0)\<close>.
\<close>

theorem table_invariant:
  assumes "wf_shape tbl0" and "wf_history es"
  shows "table_inv (run_table (data_init tbl0) es)"
  using assms by (simp add: data_init_zero table.inv_run table_inv_init)

theorem table_invariant_witness:
  "table_inv (run_table (data_init (replicate TABLE_SIZE zero_entry)) [Rx frame_a, Tick, Rx frame_null])"
  by (rule table_invariant) (simp_all add: wf_shape_def)

text \<open>
  One received frame changes the report of its own pair and of no other: it is stored
  with a fresh time to live when the pair is known or a slot is free, and is dropped, the
  table unchanged, when all slots hold other pairs.
\<close>

theorem update_table_effect:
  assumes "table_inv tbl" and "wf_frame m" and "frame_key m \<noteq> null_key"
  shows "if table_look tbl (frame_key m) \<noteq> None \<or> table_room tbl
     then (\<forall>k. k \<noteq> null_key \<longrightarrow>
             table_look (update_table m tbl) k =
               (if k = frame_key m then Some (NEW_TTL, fr_seq m, fr_msg m) else table_look tbl k))
     else update_table m tbl = tbl"
proof (cases "table_look tbl (frame_key m) \<noteq> None \<or> table_room tbl")
  case True
  then show ?thesis using assms by (simp add: table.look_hit table.look_other del: not_None_eq)
next
  case False
  then have "update_table m tbl = tbl"
    using assms by (intro table.look_full) blast+
  then show ?thesis using False by (simp del: not_None_eq)
qed

theorem update_table_effect_witness:
  "table_look (update_table frame_a boot_table) (1, 1) = Some (NEW_TTL, 7, replicate 12 5)"
proof -
  have "table_room boot_table"
    by (simp add: boot_table_zero table_room_def TABLE_SIZE_def)
  then show ?thesis
    using update_table_effect [OF boot_inv(1), of frame_a]
    by (simp add: frame_a_def frame_key_def null_key_def wf_frame_def)
qed

text \<open>
  C18. A report lives exactly \<open>NEW_TTL\<close> turns of the cleaner: after its last frame it can be
  read, with its time to live counting down from 180, until the 180th turn, which removes
  it; frames of other pairs, any number of them, do not matter.
\<close>

theorem report_lifetime:
  assumes "table_inv tbl" and "wf_frame m" and "frame_key m \<noteq> null_key"
    and "table_look tbl (frame_key m) \<noteq> None \<or> table_room tbl"
    and "wf_history es" and "silent (frame_key m) es"
  shows "table_look (run_table tbl (Rx m # es)) (frame_key m) =
    (if ticks es < 180 then Some (180 - of_nat (ticks es), fr_seq m, fr_msg m) else None)"
  using table.look_lifetime [OF assms] by (simp add: NEW_TTL_def)

theorem report_lifetime_witness:
  "table_look (run_table boot_table (Rx frame_a # [Tick, Rx frame_null, Tick])) (1, 1) =
     Some (178, 7, replicate 12 5)"
proof -
  have "table_room boot_table"
    by (simp add: boot_table_zero table_room_def TABLE_SIZE_def)
  then show ?thesis
    using report_lifetime [OF boot_inv(1), of frame_a "[Tick, Rx frame_null, Tick]"]
    by (simp add: frame_a_def frame_null_def frame_key_def null_key_def wf_frame_def)
qed

text \<open>
  C6. As long as no frame carries the pair \<open>(0, 0)\<close>, the array with its linear searches
  implements a map of at most 32 keys: after any history from boot the map read off the
  table is the one the map machine computes, which accepts a new key exactly when fewer
  than 32 keys are present.
\<close>

theorem table_refines_map:
  assumes "wf_history es" and "silent null_key es"
  shows "table_look (run_table boot_table es) = foldl (spec_step TABLE_SIZE NEW_TTL) Map.empty es"
  using table.run_refines [OF boot_inv(1,2) assms(1)] assms(2)
  by (simp add: silent_def boot_inv(3))

theorem table_refines_map_witness:
  "table_look (run_table boot_table [Rx frame_a, Tick]) =
     foldl (spec_step TABLE_SIZE NEW_TTL) Map.empty [Rx frame_a, Tick]"
  by (rule table_refines_map) simp_all

section \<open>The pair \<open>(0, 0)\<close>\<close>

text \<open>
  A cleared entry reads as board 0, message 0, and the search of \<open>update_table\<close> does not look
  at the time to live when it compares keys. A frame of pair \<open>(0, 0)\<close> is therefore stored in
  the first free slot even when a later slot already holds that pair.
\<close>

lemma clean_pow:
  assumes "length (de_data e) = DATA_SIZE" "de_ttl e \<noteq> 0"
  shows "(clean_entry ^^ n) e =
    (if n < unat (de_ttl e) then e\<lparr>de_ttl := de_ttl e - of_nat n\<rparr> else zero_entry)"
proof (induction n)
  case 0
  then show ?case using assms by (simp add: unat_gt_0)
next
  case (Suc n)
  have z: "clean_entry zero_entry = zero_entry" by (simp add: clean_entry_def)
  show ?case
  proof (cases "n < unat (de_ttl e)")
    case True
    note u8_count_down(2,3) [OF True]
    then show ?thesis
      using Suc True assms by (simp add: clean_entry_def Let_def algebra_simps)
  next
    case False
    then show ?thesis using Suc z by simp
  qed
qed

lemma run_ticks:
  "length tbl = TABLE_SIZE \<Longrightarrow> run_table tbl (replicate n Tick) = map (clean_entry ^^ n) tbl"
  by (induction n arbitrary: tbl) (simp_all add: data_clean_tick_map funpow_swap1 comp_def)

definition entry_a :: data_entry where
  "entry_a = update_entry zero_entry frame_a"

definition entry_null :: data_entry where
  "entry_null = update_entry zero_entry frame_null"

lemma entry_facts [simp]:
  "entry_key entry_a = (1, 1)" "de_ttl entry_a = 180" "length (de_data entry_a) = DATA_SIZE"
  "entry_key entry_null = null_key" "de_ttl entry_null = 180" "length (de_data entry_null) = DATA_SIZE"
  using updated_entry [of zero_entry frame_a] updated_entry [of zero_entry frame_null]
  by (simp_all add: entry_a_def entry_null_def report_of_def NEW_TTL_def)
    (simp_all add: frame_a_def frame_key_def)

lemma zero_tail: "replicate TABLE_SIZE zero_entry = zero_entry # zero_entry # replicate 30 zero_entry"
  by (simp add: TABLE_SIZE_def numeral_eq_Suc)

lemma update_frame_a:
  "update_table frame_a (zero_entry # zero_entry # replicate 30 zero_entry)
     = entry_a # zero_entry # replicate 30 zero_entry"
  by (subst update_table_eq)
    (simp_all add: TABLE_SIZE_def entry_a_def frame_a_def frame_key_def null_key_def
      first_index_None_iff [THEN iffD2])

lemma update_frame_null:
  "entry_key e \<noteq> null_key \<Longrightarrow>
   update_table frame_null (e # zero_entry # replicate 30 zero_entry)
     = e # entry_null # replicate 30 zero_entry"
  "update_table frame_null (zero_entry # e # replicate 30 zero_entry)
     = entry_null # e # replicate 30 zero_entry"
  by (subst update_table_eq; simp add: TABLE_SIZE_def entry_null_def)+

text \<open>
  C36. The exclusion of the pair \<open>(0, 0)\<close> from the map view is needed: from boot, one frame of
  another pair, one frame \<open>(0, 0)\<close>, the expiry of the first and a second frame \<open>(0, 0)\<close> leave
  two live entries for the pair \<open>(0, 0)\<close>, so both are reported.
\<close>

theorem null_pair_duplicated:
  "\<exists>es. wf_history es \<and>
    (let tbl = run_table boot_table es
     in live (tbl ! 0) \<and> live (tbl ! 1)
        \<and> entry_key (tbl ! 0) = null_key \<and> entry_key (tbl ! 1) = null_key)"
proof -
  define e1 where "e1 = entry_a\<lparr>de_ttl := 179\<rparr>"
  define e2 where "e2 = entry_null\<lparr>de_ttl := 1\<rparr>"
  let ?es = "[Rx frame_a, Tick, Rx frame_null] @ replicate 179 Tick @ [Rx frame_null]"
  have z: "clean_entry zero_entry = zero_entry" by (simp add: clean_entry_def)
  have zn: "(clean_entry ^^ n) zero_entry = zero_entry" for n by (induction n) (simp_all add: z)
  have k1: "entry_key e1 \<noteq> null_key" "length (de_data e1) = DATA_SIZE" "de_ttl e1 = 179"
    using entry_facts(1,3) by (simp_all add: e1_def entry_key_def null_key_def)
  have tick: "data_clean_tick (entry_a # zero_entry # replicate 30 zero_entry)
      = e1 # zero_entry # replicate 30 zero_entry"
    by (simp add: data_clean_tick_map TABLE_SIZE_def z)
      (simp add: clean_entry_def e1_def Let_def)
  have c1: "(clean_entry ^^ 179) e1 = zero_entry"
    using k1 by (subst clean_pow) simp_all
  have c2: "(clean_entry ^^ 179) entry_null = e2"
    by (subst clean_pow) (simp_all add: e2_def)
  have wait: "run_table (e1 # entry_null # replicate 30 zero_entry) (replicate 179 Tick)
      = zero_entry # e2 # replicate 30 zero_entry"
    by (subst run_ticks) (simp_all add: TABLE_SIZE_def zn c1 c2)
  have boot: "boot_table = zero_entry # zero_entry # replicate 30 zero_entry"
    by (simp only: boot_table_zero zero_tail)
  have "run_table boot_table ?es = entry_null # e2 # replicate 30 zero_entry"
    using k1(1) by (simp only: store_run_append boot update_frame_a tick update_frame_null wait
        store_run.simps append.simps not_False_eq_True)
  moreover have "live entry_null" "live e2" "entry_key e2 = null_key"
    using entry_facts(4) by (simp_all add: live_def e2_def entry_key_def null_key_def)
  moreover have "wf_history ?es"
    by (auto simp: wf_history_def)
  ultimately show ?thesis
    by (intro exI [of _ ?es]) simp
qed

end
