(* ===== verification/Seq_Stream.thy ===== *)
theory Seq_Stream
  imports Prelude
begin

text \<open>
  The output interface of the firmware, ChibiOS' \<open>BaseSequentialStream\<close>: a stream accepts one
  byte at a time through its method \<open>put\<close>, and \<open>chprintf\<close> formats its arguments and puts the
  resulting bytes. Neither the kernel nor \<open>chprintf\<close> is part of the repository: the formatter
  is a parameter \<open>pf\<close> (a function from the format string and the arguments to bytes) of every
  definition that prints. The locale \<open>seq_stream\<close> is the contract of a stream, with its
  contents as abstract value; \<open>printf_laws\<close> is the documented behaviour of the directives
  \<open>%d\<close> and \<open>%s\<close>, used where a property speaks about the text itself.
\<close>

section \<open>Formatted output\<close>

datatype parg = PInt int | PStr bytes

type_synonym printf = "string \<Rightarrow> parg list \<Rightarrow> bytes"

definition chprintf :: "printf \<Rightarrow> ('s \<Rightarrow> u8 \<Rightarrow> 's) \<Rightarrow> 's \<Rightarrow> string \<Rightarrow> parg list \<Rightarrow> 's" where
  "chprintf pf put s fmt args = foldl put s (pf fmt args)"

section \<open>The contract of a stream\<close>

locale seq_stream =
  fixes put :: "'s \<Rightarrow> u8 \<Rightarrow> 's"
    and contents :: "'s \<Rightarrow> bytes"
    and ok :: "'s \<Rightarrow> bool"
  assumes put_ok: "ok s \<Longrightarrow> ok (put s c)"
    and put_contents: "ok s \<Longrightarrow> contents (put s c) = contents s @ [c]"
begin

lemma puts_ok: "ok s \<Longrightarrow> ok (foldl put s cs)"
  by (induction cs arbitrary: s) (simp_all add: put_ok)

lemma puts_contents: "ok s \<Longrightarrow> contents (foldl put s cs) = contents s @ cs"
  by (induction cs arbitrary: s) (simp_all add: put_ok put_contents)

lemma chprintf_ok [simp]: "ok s \<Longrightarrow> ok (chprintf pf put s fmt args)"
  by (simp add: chprintf_def puts_ok)

lemma chprintf_contents [simp]:
  "ok s \<Longrightarrow> contents (chprintf pf put s fmt args) = contents s @ pf fmt args"
  by (simp add: chprintf_def puts_contents)

end

text \<open>
  The text a printing routine produces, whatever the stream: the routine run on the stream
  whose state is the text itself.
\<close>

definition text_put :: "bytes \<Rightarrow> u8 \<Rightarrow> bytes" where
  "text_put t c = t @ [c]"

interpretation rendered: seq_stream text_put "\<lambda>t. t" "\<lambda>t. True"
  by unfold_locales (simp_all add: text_put_def)

lemma foldl_text_put [simp]: "foldl text_put t cs = t @ cs"
  using rendered.puts_contents by simp

lemma chprintf_text: "chprintf pf put (foldl put s t) fmt args = foldl put s (chprintf pf text_put t fmt args)"
  by (simp add: chprintf_def)

section \<open>Decimal text and the directives \<open>%d\<close> and \<open>%s\<close>\<close>

definition digit :: "nat \<Rightarrow> u8" where
  "digit d = 48 + of_nat d"

fun dec_nat :: "nat \<Rightarrow> bytes" where
  "dec_nat n = (if n < 10 then [digit n] else dec_nat (n div 10) @ [digit (n mod 10)])"

declare dec_nat.simps [simp del]

definition dec_int :: "int \<Rightarrow> bytes" where
  "dec_int i = (if i < 0 then str ''-'' @ dec_nat (nat (- i)) else dec_nat (nat i))"

text \<open>
  \<open>fmt_text fmt args\<close> is the text of a format string that uses only \<open>%d\<close> and \<open>%s\<close> with
  arguments of the right kinds, and \<open>None\<close> otherwise.
\<close>

fun fmt_text :: "string \<Rightarrow> parg list \<Rightarrow> bytes option" where
  "fmt_text [] args = (if args = [] then Some [] else None)"
| "fmt_text (c # cs) args =
     (if c \<noteq> CHR ''%'' then map_option ((#) (of_char c)) (fmt_text cs args)
      else case cs of
        [] \<Rightarrow> None
      | d # ds \<Rightarrow>
          (case args of
             PInt n # as \<Rightarrow>
               if d = CHR ''d'' then map_option ((@) (dec_int n)) (fmt_text ds as) else None
           | PStr s # as \<Rightarrow>
               if d = CHR ''s'' then map_option ((@) s) (fmt_text ds as) else None
           | [] \<Rightarrow> None))"

locale printf_laws =
  fixes pf :: printf
  assumes pf_text: "fmt_text fmt args = Some t \<Longrightarrow> pf fmt args = t"

text \<open>A formatter with exactly these directives; it shows that the laws can hold.\<close>

definition plain_printf :: printf where
  "plain_printf fmt args = (case fmt_text fmt args of Some t \<Rightarrow> t | None \<Rightarrow> [])"

interpretation plain: printf_laws plain_printf
  by unfold_locales (simp add: plain_printf_def)

end
