(* ===== verification/Data_Report.thy ===== *)
theory Data_Report
  imports Data_Table Seq_Stream
begin

text \<open>
  The two reports of \<^verbatim>\<open>firmware/data.c\<close>, \<open>data_json\<close> and \<open>data_dump\<close>, over an arbitrary stream
  (its method \<open>put\<close>) and formatter \<open>pf\<close>. \<open>table_json\<close> is the JSON value the report stands for
  and \<open>json_text\<close> the text of a JSON value; \<open>data_json\<close> prints exactly that text.
\<close>

section \<open>JSON report\<close>

text \<open>A JSON member name as it stands in the format strings: quoted, with a colon and a blank.\<close>

definition quote :: "string \<Rightarrow> string" where
  "quote s = CHR 0x22 # s @ [CHR 0x22]"

definition member :: "string \<Rightarrow> string" where
  "member s = quote s @ '': ''"

text \<open>The body of the loop of \<open>data_json\<close> for a live entry; \<open>count\<close> is the value before the body.\<close>

definition json_entry :: "printf \<Rightarrow> ('s \<Rightarrow> u8 \<Rightarrow> 's) \<Rightarrow> 's \<Rightarrow> int \<Rightarrow> data_entry \<Rightarrow> 's" where
  "json_entry pf put chp count entry =
     (let msg = power_of_msg (de_data entry);
          chp1 = chprintf pf put chp
            (''%s{'' @ member ''ttl'' @ ''%d,'' @ member ''board_id'' @ ''%d,''
               @ member ''msg_id'' @ ''%d,'' @ member ''seq'' @ ''%d,'')
            [PStr (if count = 0 then [] else str '',''), PInt (uint (de_ttl entry)),
             PInt (uint (de_board_id entry)), PInt (uint (de_msg_id entry)),
             PInt (uint (de_seq entry))];
          chp2 =
            (if de_msg_id entry = NRF_MSG_ID_POWER
             then chprintf pf put
               (chprintf pf put chp1 (member ''type'' @ quote ''power'' @ '','') [])
               (member ''power1'' @ ''%d,'' @ member ''power2'' @ ''%d,''
                  @ member ''power3'' @ ''%d,'' @ member ''power4'' @ ''%d,''
                  @ member ''battery'' @ ''%d'')
               [PInt (uint (pw_value msg ! 0)), PInt (uint (pw_value msg ! 1)),
                PInt (uint (pw_value msg ! 2)), PInt (uint (pw_value msg ! 3)),
                PInt (uint (pw_vbatt msg))]
             else chprintf pf put chp1 (member ''type'' @ quote ''unknown'') [])
      in chprintf pf put chp2 ''}'' [])"

fun json_loop :: "printf \<Rightarrow> ('s \<Rightarrow> u8 \<Rightarrow> 's) \<Rightarrow> 's \<Rightarrow> int \<Rightarrow> data_table \<Rightarrow> 's" where
  "json_loop pf put chp count [] = chp"
| "json_loop pf put chp count (entry # entries) =
     (if de_ttl entry = 0 then json_loop pf put chp count entries
      else json_loop pf put (json_entry pf put chp count entry) (count + 1) entries)"

text \<open>\<open>now\<close> is \<open>chTimeNow()\<close>, a 32-bit tick count that \<open>%d\<close> reads as a signed \<open>int\<close>.\<close>

definition data_json :: "printf \<Rightarrow> ('s \<Rightarrow> u8 \<Rightarrow> 's) \<Rightarrow> u32 \<Rightarrow> data_table \<Rightarrow> 's \<Rightarrow> 's" where
  "data_json pf put now tbl chp =
     (let chp1 = chprintf pf put chp
            (''{'' @ member ''device'' @ quote ''nrf-ethernet'' @ '',''
               @ member ''timestamp'' @ quote ''%d'' @ '','') [PInt (sint now)];
          chp2 = chprintf pf put chp1 (member ''sensors'' @ ''['') [];
          chp3 = json_loop pf put chp2 0 tbl
      in chprintf pf put chp3 '']}'' [])"

section \<open>Plain dump\<close>

fun dump_bytes :: "printf \<Rightarrow> ('s \<Rightarrow> u8 \<Rightarrow> 's) \<Rightarrow> 's \<Rightarrow> bytes \<Rightarrow> nat \<Rightarrow> nat \<Rightarrow> 's" where
  "dump_bytes pf put chp d j 0 = chp"
| "dump_bytes pf put chp d j (Suc n) =
     (let chp1 = chprintf pf put chp '' %.2x'' [PInt (uint (d ! j))];
          chp2 = (if j + 1 = DATA_SIZE div 2 then chprintf pf put chp1 '' '' [] else chp1)
      in dump_bytes pf put chp2 d (j + 1) n)"

definition dump_entry :: "printf \<Rightarrow> ('s \<Rightarrow> u8 \<Rightarrow> 's) \<Rightarrow> 's \<Rightarrow> nat \<Rightarrow> data_entry \<Rightarrow> 's" where
  "dump_entry pf put chp i entry =
     (let chp1 = chprintf pf put chp ''%2d %3d - '' [PInt (int i), PInt (uint (de_ttl entry))];
          chp2 = chprintf pf put chp1 ''%.2x %.2x %.2x - ''
            [PInt (uint (de_board_id entry)), PInt (uint (de_msg_id entry)),
             PInt (uint (de_seq entry))];
          chp3 = dump_bytes pf put chp2 (de_data entry) 0 DATA_SIZE
      in chprintf pf put chp3 [CHR 0x0D, CHR 0x0A] [])"

fun dump_loop :: "printf \<Rightarrow> ('s \<Rightarrow> u8 \<Rightarrow> 's) \<Rightarrow> data_table \<Rightarrow> 's \<Rightarrow> nat \<Rightarrow> 's" where
  "dump_loop pf put tbl chp 0 = chp"
| "dump_loop pf put tbl chp (Suc i) = dump_entry pf put (dump_loop pf put tbl chp i) i (tbl ! i)"

definition data_dump :: "printf \<Rightarrow> ('s \<Rightarrow> u8 \<Rightarrow> 's) \<Rightarrow> data_table \<Rightarrow> 's \<Rightarrow> 's" where
  "data_dump pf put tbl chp = dump_loop pf put tbl chp TABLE_SIZE"

section \<open>JSON values and their text\<close>

datatype json = JNum int | JStr bytes | JArr "json list" | JObj "(string \<times> json) list"

fun joined :: "bytes \<Rightarrow> bytes list \<Rightarrow> bytes" where
  "joined sep [] = []"
| "joined sep [x] = x"
| "joined sep (x # y # ys) = x @ sep @ joined sep (y # ys)"

lemma joined_Cons: "joined sep (x # xs) = x @ (if xs = [] then [] else sep @ joined sep xs)"
  by (cases xs) simp_all

fun json_text :: "json \<Rightarrow> bytes" where
  "json_text (JNum n) = dec_int n"
| "json_text (JStr b) = [0x22] @ b @ [0x22]"
| "json_text (JArr js) = str ''['' @ joined (str '','') (map json_text js) @ str '']''"
| "json_text (JObj kvs) =
     str ''{'' @ joined (str '','') (map (\<lambda>kv. str (member (fst kv)) @ json_text (snd kv)) kvs)
       @ str ''}''"

definition sensor_json :: "data_entry \<Rightarrow> json" where
  "sensor_json e =
     JObj ([(''ttl'', JNum (uint (de_ttl e))), (''board_id'', JNum (uint (de_board_id e))),
            (''msg_id'', JNum (uint (de_msg_id e))), (''seq'', JNum (uint (de_seq e)))]
       @ (if de_msg_id e = NRF_MSG_ID_POWER
          then let p = power_of_msg (de_data e)
               in [(''type'', JStr (str ''power'')),
                   (''power1'', JNum (uint (pw_value p ! 0))),
                   (''power2'', JNum (uint (pw_value p ! 1))),
                   (''power3'', JNum (uint (pw_value p ! 2))),
                   (''power4'', JNum (uint (pw_value p ! 3))),
                   (''battery'', JNum (uint (pw_vbatt p)))]
          else [(''type'', JStr (str ''unknown''))]))"

definition table_json :: "int \<Rightarrow> data_table \<Rightarrow> json" where
  "table_json timestamp tbl =
     JObj [(''device'', JStr (str ''nrf-ethernet'')), (''timestamp'', JStr (dec_int timestamp)),
           (''sensors'', JArr (map sensor_json (filter live tbl)))]"

section \<open>What is printed\<close>

locale json_printer = seq_stream put contents ok + printf_laws pf
  for put :: "'s \<Rightarrow> u8 \<Rightarrow> 's" and contents ok pf
begin

lemma print_text:
  "ok s \<Longrightarrow> fmt_text fmt args = Some t \<Longrightarrow> contents (chprintf pf put s fmt args) = contents s @ t"
  by (simp add: pf_text)

lemma json_entry_ok [simp]: "ok s \<Longrightarrow> ok (json_entry pf put s count e)"
  by (simp add: json_entry_def Let_def)

lemma json_entry_contents:
  assumes "ok s"
  shows "contents (json_entry pf put s count e) =
    contents s @ (if count = 0 then [] else str '','') @ json_text (sensor_json e)"
  using assms
  by (simp add: json_entry_def Let_def pf_text member_def quote_def sensor_json_def str_def)

lemma json_loop_ok [simp]: "ok s \<Longrightarrow> ok (json_loop pf put s count es)"
  by (induction es arbitrary: s count) simp_all

lemma json_loop_contents:
  assumes "ok s" "count \<ge> 0"
  shows "contents (json_loop pf put s count es) =
    contents s @ (if count = 0 \<or> filter live es = [] then [] else str '','')
      @ joined (str '','') (map (\<lambda>e. json_text (sensor_json e)) (filter live es))"
  using assms
proof (induction es arbitrary: s count)
  case Nil
  then show ?case by simp
next
  case (Cons e es)
  then show ?case
    by (simp add: live_def json_entry_contents joined_Cons)
qed

lemma data_json_ok [simp]: "ok s \<Longrightarrow> ok (data_json pf put now tbl s)"
  by (simp add: data_json_def Let_def)

lemma data_json_contents:
  assumes "ok s"
  shows "contents (data_json pf put now tbl s) =
    contents s @ json_text (table_json (sint now) tbl)"
  using assms
  by (simp add: data_json_def Let_def pf_text member_def quote_def table_json_def json_loop_contents comp_def
      str_def)

end

section \<open>The text does not depend on the stream\<close>

lemma json_entry_text:
  "json_entry pf put (foldl put s t) count e = foldl put s (json_entry pf text_put t count e)"
  by (cases "de_msg_id e = NRF_MSG_ID_POWER")
    (simp_all only: json_entry_def Let_def chprintf_text if_True if_False simp_thms)

lemma json_loop_text:
  "json_loop pf put (foldl put s t) count es = foldl put s (json_loop pf text_put t count es)"
  by (induction es arbitrary: t count) (simp_all add: json_entry_text)

lemma data_json_text: "data_json pf put now tbl s = foldl put s (data_json pf text_put now tbl [])"
proof -
  have "data_json pf put now tbl (foldl put s []) = foldl put s (data_json pf text_put now tbl [])"
    by (simp only: data_json_def Let_def chprintf_text json_loop_text)
  then show ?thesis by simp
qed

lemma dump_bytes_text:
  "dump_bytes pf put (foldl put s t) d j n = foldl put s (dump_bytes pf text_put t d j n)"
  by (induction n arbitrary: t j)
    (simp_all add: Let_def chprintf_text split: if_split del: foldl_append)

lemma dump_loop_text:
  "dump_loop pf put tbl (foldl put s t) n = foldl put s (dump_loop pf text_put tbl t n)"
  by (induction n) (simp_all only: dump_loop.simps dump_entry_def Let_def chprintf_text dump_bytes_text)

lemma data_dump_text: "data_dump pf put tbl s = foldl put s (data_dump pf text_put tbl [])"
  using dump_loop_text [of pf put tbl s "[]" TABLE_SIZE] by (simp add: data_dump_def)

section \<open>Properties of the reports\<close>

lemma data_json_report_text:
  assumes "printf_laws pf"
  shows "data_json pf put now tbl s = foldl put s (json_text (table_json (sint now) tbl))"
proof -
  have "json_printer text_put (\<lambda>t. t) (\<lambda>t. True) pf"
    using assms rendered.seq_stream_axioms by (simp add: json_printer_def)
  from json_printer.data_json_contents [OF this, where s = "[]" and now = now and tbl = tbl]
  show ?thesis using data_json_text [of pf put now tbl s] by simp
qed

lemma sint_u32: "sint (w :: u32) = (if uint w < 2 ^ 31 then uint w else uint w - 2 ^ 32)"
proof -
  have u: "0 \<le> uint w" "uint w < 2 ^ 32" using uint_lt2p [of w] by simp_all
  have "sint w = (uint w + 2 ^ 31) mod 2 ^ 32 - 2 ^ 31"
    by (simp add: sint_uint signed_take_bit_eq_take_bit_shift take_bit_eq_mod)
  also have "(uint w + 2 ^ 31) mod 2 ^ 32 = (if uint w < 2 ^ 31 then uint w + 2 ^ 31 else uint w + 2 ^ 31 - 2 ^ 32)"
  proof (cases "uint w < 2 ^ 31")
    case True
    then show ?thesis using u by (simp add: mod_pos_pos_trivial)
  next
    case False
    have "(uint w + 2 ^ 31) mod 2 ^ 32 = (uint w + 2 ^ 31 - 2 ^ 32) mod 2 ^ 32"
      using minus_mod_self2 [of "uint w + 2 ^ 31" "2 ^ 32"] by simp
    also have "\<dots> = uint w + 2 ^ 31 - 2 ^ 32"
      using u False by (intro mod_pos_pos_trivial) simp_all
    finally show ?thesis using False by simp
  qed
  finally show ?thesis by simp
qed

text \<open>
  C23. The JSON report is, on every stream, exactly the text of the JSON value that lists the live entries in
  the order of the table, power readings decoded, and nothing of the entries out of use. Its timestamp is
  the tick count as a signed 32-bit number: from \<open>2 ^ 31\<close> ms (25 days) after boot on it is
  negative.
\<close>

theorem data_json_report:
  assumes "printf_laws pf"
  shows "data_json pf put now tbl s =
    foldl put s (json_text (table_json (if uint now < 2 ^ 31 then uint now else uint now - 2 ^ 32) tbl))"
  unfolding sint_u32 [symmetric] by (rule data_json_report_text [OF assms])

theorem data_json_report_witness:
  "data_json plain_printf text_put 0x80000000 [] [] =
     str ''{'' @ str (member ''device'') @ str (quote ''nrf-ethernet'') @ str '','' @ str (member ''timestamp'')
       @ str (quote ''-2147483648'') @ str '','' @ str (member ''sensors'') @ str ''[]}''"
  unfolding data_json_report [OF plain.printf_laws_axioms] foldl_text_put
  by (simp add: table_json_def dec_int_def dec_nat.simps digit_def str_def quote_def member_def)

text \<open>A line of the dump.\<close>

definition dump_line :: "printf \<Rightarrow> nat \<Rightarrow> data_entry \<Rightarrow> bytes" where
  "dump_line pf i e =
     pf ''%2d %3d - '' [PInt (int i), PInt (uint (de_ttl e))]
     @ pf ''%.2x %.2x %.2x - ''
         [PInt (uint (de_board_id e)), PInt (uint (de_msg_id e)), PInt (uint (de_seq e))]
     @ concat (map (\<lambda>b. pf '' %.2x'' [PInt (uint b)]) (take 6 (de_data e))) @ pf '' '' []
     @ concat (map (\<lambda>b. pf '' %.2x'' [PInt (uint b)]) (drop 6 (de_data e)))
     @ pf [CHR 0x0D, CHR 0x0A] []"

lemma dump_bytes_12:
  assumes "length d = 12"
  shows "dump_bytes pf put s d 0 DATA_SIZE =
    foldl put s (concat (map (\<lambda>b. pf '' %.2x'' [PInt (uint b)]) (take 6 d)) @ pf '' '' []
      @ concat (map (\<lambda>b. pf '' %.2x'' [PInt (uint b)]) (drop 6 d)))"
proof -
  obtain a b c e f g h i j k l m where "d = [a, b, c, e, f, g, h, i, j, k, l, m]"
    using list_of_12 [OF assms] by blast
  moreover have six: "DATA_SIZE div 2 = 6" by (simp add: DATA_SIZE_def)
  ultimately have "dump_bytes pf put s d 0 12 =
    foldl put s (concat (map (\<lambda>b. pf '' %.2x'' [PInt (uint b)]) (take 6 d)) @ pf '' '' []
      @ concat (map (\<lambda>b. pf '' %.2x'' [PInt (uint b)]) (drop 6 d)))"
    by (simp add: numeral_eq_Suc chprintf_def Let_def)
  then show ?thesis by (simp add: DATA_SIZE_def)
qed

lemma dump_loop_lines:
  assumes "wf_shape tbl" "n \<le> TABLE_SIZE"
  shows "dump_loop pf put tbl s n = foldl put s (concat (map (\<lambda>i. dump_line pf i (tbl ! i)) [0..<n]))"
  using assms(2)
proof (induction n)
  case 0
  then show ?case by simp
next
  case (Suc n)
  then have "length (de_data (tbl ! n)) = 12"
    using assms(1) by (simp add: wf_shape_def DATA_SIZE_def)
  then show ?case
    using Suc by (simp add: dump_entry_def dump_bytes_12 dump_line_def chprintf_def Let_def)
qed

text \<open>
  The dump prints one line for each of the 32 entries, in order and on any stream: its index and
  time to live, the three identifiers and the twelve payload bytes in two groups of six.
\<close>

theorem data_dump_lines:
  assumes "wf_shape tbl"
  shows "data_dump pf put tbl s = foldl put s (concat (map (\<lambda>i. dump_line pf i (tbl ! i)) [0..<32]))"
  using dump_loop_lines [OF assms, of 32 pf put s] by (simp add: data_dump_def TABLE_SIZE_def)

theorem data_dump_lines_witness:
  "data_dump (\<lambda>fmt args. [of_nat (length args)]) text_put (replicate TABLE_SIZE zero_entry) [] =
     concat (replicate 32 ([2, 3] @ replicate 6 1 @ [0] @ replicate 6 1 @ [0]))"
proof -
  have shape: "wf_shape (replicate TABLE_SIZE zero_entry)"
    by (simp add: wf_shape_def zero_entry_def DATA_SIZE_def)
  show ?thesis
    unfolding data_dump_lines [OF shape] foldl_text_put
    by (simp add: TABLE_SIZE_def dump_line_def zero_entry_def map_replicate_const numeral_eq_Suc)
qed

end
