(* ===== verification/Net_Stream.thy ===== *)
theory Net_Stream
  imports Seq_Stream
begin

text \<open>
  The stream of \<^verbatim>\<open>firmware/net/httpd.c\<close> that collects a response in a 512-byte buffer and
  pushes it to a TCP connection: \<open>net_put\<close> and \<open>net_finalize\<close>. \<open>netconn_write\<close> belongs to
  lwIP and its result is ignored by the code, so the model logs the calls: the field
  \<open>ns_log\<close> holds the calls the server's thread has made, oldest first. The stream is
  an instance of \<open>seq_stream\<close>, with the bytes written so far and the pending part of the
  buffer as its contents.
\<close>

definition NET_BUF_SIZE :: nat where
  "NET_BUF_SIZE = 512"

text \<open>
  A connection is named by its address. \<open>Netconn_new\<close> and \<open>Netconn_accepted\<close> are successful returns of
  \<open>netconn_new\<close> and \<open>netconn_accept\<close>.
\<close>

type_synonym netconn = u32

datatype net_call =
    Netconn_new netconn
  | Netconn_bind netconn nat
  | Netconn_listen netconn
  | Netconn_accepted netconn
  | Netconn_write netconn bytes
  | Netconn_close netconn
  | Netconn_delete netconn
  | Netbuf_delete
  | Blink_red

record net_seq_stream =
  ns_nc :: netconn
  ns_buf :: bytes
  ns_count :: nat
  ns_log :: "net_call list"

definition net_call :: "net_call \<Rightarrow> net_seq_stream \<Rightarrow> net_seq_stream" where
  "net_call e net = net\<lparr>ns_log := ns_log net @ [e]\<rparr>"

definition netconn_write :: "net_seq_stream \<Rightarrow> bytes \<Rightarrow> nat \<Rightarrow> net_seq_stream" where
  "netconn_write net buf n = net_call (Netconn_write (ns_nc net) (take n buf)) net"

definition net_put :: "net_seq_stream \<Rightarrow> u8 \<Rightarrow> net_seq_stream" where
  "net_put net c =
     (let net1 = net\<lparr>ns_buf := (ns_buf net)[ns_count net := c], ns_count := ns_count net + 1\<rparr>
      in if ns_count net1 = NET_BUF_SIZE
         then (netconn_write net1 (ns_buf net1) (ns_count net1))\<lparr>ns_count := 0\<rparr>
         else net1)"

definition net_finalize :: "net_seq_stream \<Rightarrow> net_seq_stream" where
  "net_finalize net =
     (if ns_count net \<noteq> 0 then netconn_write net (ns_buf net) (ns_count net) else net)"

text \<open>How \<open>httpd_process\<close> prepares the stream, which is a global of the file.\<close>

definition net_open :: "netconn \<Rightarrow> net_seq_stream \<Rightarrow> net_seq_stream" where
  "net_open nc net = net\<lparr>ns_nc := nc, ns_count := 0\<rparr>"

section \<open>The stream contract\<close>

definition net_ok :: "net_seq_stream \<Rightarrow> bool" where
  "net_ok net \<longleftrightarrow> length (ns_buf net) = NET_BUF_SIZE \<and> ns_count net < NET_BUF_SIZE"

fun written :: "net_call \<Rightarrow> bytes" where
  "written (Netconn_new nc) = []"
| "written (Netconn_bind nc port) = []"
| "written (Netconn_listen nc) = []"
| "written (Netconn_accepted nc) = []"
| "written (Netconn_write nc b) = b"
| "written (Netconn_close nc) = []"
| "written (Netconn_delete nc) = []"
| "written Netbuf_delete = []"
| "written Blink_red = []"

definition net_sent :: "net_seq_stream \<Rightarrow> bytes" where
  "net_sent net = concat (map written (ns_log net))"

definition net_contents :: "net_seq_stream \<Rightarrow> bytes" where
  "net_contents net = net_sent net @ take (ns_count net) (ns_buf net)"

lemmas net_defs = net_put_def netconn_write_def net_call_def net_finalize_def Let_def

lemma net_put_ok: "net_ok net \<Longrightarrow> net_ok (net_put net c)"
  by (auto simp: net_ok_def net_defs NET_BUF_SIZE_def)

lemma net_put_contents: "net_ok net \<Longrightarrow> net_contents (net_put net c) = net_contents net @ [c]"
  by (cases "Suc (ns_count net) = NET_BUF_SIZE")
    (simp_all add: net_ok_def net_defs net_contents_def net_sent_def take_update_snoc update_last)

interpretation net: seq_stream net_put net_contents net_ok
  by unfold_locales (simp_all add: net_put_ok net_put_contents)

lemma net_open_ok [simp]: "length (ns_buf net) = NET_BUF_SIZE \<Longrightarrow> net_ok (net_open nc net)"
  by (simp add: net_ok_def net_open_def NET_BUF_SIZE_def)

lemma net_open_contents [simp]: "net_contents (net_open nc net) = net_sent net"
  by (simp add: net_contents_def net_open_def net_sent_def)

lemma written_writes [simp]: "map written (map (Netconn_write nc) ws) = ws"
  by (induction ws) simp_all

text \<open>The writes of a run of puts: full buffers to the stream's connection.\<close>

definition full_writes :: "netconn \<Rightarrow> net_call list \<Rightarrow> bool" where
  "full_writes nc cs \<longleftrightarrow> (\<forall>e\<in>set cs. \<exists>w. e = Netconn_write nc w \<and> length w = NET_BUF_SIZE)"

lemma puts_writes:
  "net_ok net \<Longrightarrow> \<exists>ws. ns_log (foldl net_put net cs) = ns_log net @ map (Netconn_write (ns_nc net)) ws
     \<and> (\<forall>w\<in>set ws. length w = NET_BUF_SIZE) \<and> ns_nc (foldl net_put net cs) = ns_nc net"
proof (induction cs arbitrary: net)
  case Nil
  show ?case by (intro exI [of _ "[]"]) simp
next
  case (Cons c cs)
  obtain ws where ws: "ns_log (foldl net_put (net_put net c) cs)
      = ns_log (net_put net c) @ map (Netconn_write (ns_nc (net_put net c))) ws"
      "\<forall>w\<in>set ws. length w = NET_BUF_SIZE" "ns_nc (foldl net_put (net_put net c) cs) = ns_nc (net_put net c)"
    using Cons.IH [of "net_put net c"] Cons.prems net_put_ok by blast
  have nc: "ns_nc (net_put net c) = ns_nc net" by (simp add: net_defs)
  show ?case
  proof (cases "ns_count net + 1 = NET_BUF_SIZE")
    case True
    then have "ns_log (net_put net c) = ns_log net @ [Netconn_write (ns_nc net) ((ns_buf net)[ns_count net := c])]"
      using Cons.prems by (simp add: net_defs net_ok_def)
    then show ?thesis
      using ws nc Cons.prems
      by (intro exI [of _ "(ns_buf net)[ns_count net := c] # ws"]) (simp add: net_ok_def)
  next
    case False
    then have "ns_log (net_put net c) = ns_log net" by (simp add: net_defs)
    then show ?thesis using ws nc by (intro exI [of _ ws]) simp
  qed
qed

text \<open>The final write: what is left in the buffer, if anything.\<close>

lemma finalize_writes:
  assumes "net_ok net"
  obtains ws where "ns_log (net_finalize net) = ns_log net @ map (Netconn_write (ns_nc net)) ws"
    "concat ws = take (ns_count net) (ns_buf net)" "length ws \<le> 1"
    "\<forall>w\<in>set ws. w \<noteq> [] \<and> length w < NET_BUF_SIZE"
proof (cases "ns_count net = 0")
  case True
  then show ?thesis using that [of "[]"] by (simp add: net_finalize_def)
next
  case False
  then show ?thesis
    using that [of "[take (ns_count net) (ns_buf net)]"] assms
    by (simp add: net_defs net_ok_def) (metis NET_BUF_SIZE_def list.size(3) zero_neq_numeral)
qed

lemma finalize_sent: "net_sent (net_finalize net) = net_contents net"
  by (simp add: net_defs net_contents_def net_sent_def)

text \<open>
  C27. Whatever bytes are put into the stream, after \<open>net_finalize\<close> the connection has been
  written exactly those bytes in order: every call before the final one carries 512 bytes,
  the final one between 1 and 511, and the buffer index never leaves the buffer.
\<close>

theorem net_stream_delivers:
  assumes "length (ns_buf net) = 512"
  shows "\<exists>ws last. ns_log (net_finalize (foldl net_put (net_open nc net) cs))
      = ns_log net @ map (Netconn_write nc) (ws @ last)
    \<and> concat (ws @ last) = cs
    \<and> list_all (\<lambda>w. length w = 512) ws
    \<and> length last \<le> 1 \<and> list_all (\<lambda>w. w \<noteq> [] \<and> length w < 512) last
    \<and> ns_count (foldl net_put (net_open nc net) cs) < length (ns_buf (foldl net_put (net_open nc net) cs))"
proof -
  let ?n = "foldl net_put (net_open nc net) cs"
  have ok: "net_ok (net_open nc net)" "net_ok ?n"
    using assms by (simp_all add: net.puts_ok NET_BUF_SIZE_def)
  obtain ws where ws: "ns_log ?n = ns_log net @ map (Netconn_write nc) ws"
      "\<forall>w\<in>set ws. length w = NET_BUF_SIZE" "ns_nc ?n = nc"
    using puts_writes [OF ok(1), of cs] by (auto simp: net_open_def)
  obtain l where l: "ns_log (net_finalize ?n) = ns_log ?n @ map (Netconn_write (ns_nc ?n)) l"
      "concat l = take (ns_count ?n) (ns_buf ?n)" "length l \<le> 1"
      "\<forall>w\<in>set l. w \<noteq> [] \<and> length w < NET_BUF_SIZE"
    by (rule finalize_writes [OF ok(2)])
  have "net_contents ?n = net_sent net @ cs" by (simp add: net.puts_contents ok)
  then have "concat ws @ concat l = cs"
    using ws(1) l(2) written_writes [of nc ws] by (simp add: net_contents_def net_sent_def comp_def)
  then show ?thesis
    using ws l ok(2)
    by (intro exI [of _ ws] exI [of _ l]) (simp add: list_all_iff net_ok_def NET_BUF_SIZE_def)
qed

definition net_zero :: net_seq_stream where
  "net_zero = \<lparr>ns_nc = 0, ns_buf = replicate NET_BUF_SIZE 0, ns_count = 0, ns_log = []\<rparr>"

lemma net_zero_buf [simp]: "length (ns_buf net_zero) = NET_BUF_SIZE"
  by (simp add: net_zero_def)

theorem net_stream_delivers_witness:
  "\<exists>ws last. ns_log (net_finalize (foldl net_put (net_open 1 net_zero) (replicate 1000 42)))
      = map (Netconn_write 1) (ws @ last) \<and> concat (ws @ last) = replicate 1000 42
    \<and> list_all (\<lambda>w. length w = 512) ws"
  using net_stream_delivers [of net_zero 1 "replicate 1000 42"]
  by (auto simp: net_zero_def NET_BUF_SIZE_def)

end
