(* ===== verification/Nrf_Radio.thy ===== *)
theory Nrf_Radio
  imports Frames
begin

text \<open>
  The nRF24L01+ driver of \<^verbatim>\<open>firmware/nrf24l01p.c\<close> below its queues: the SPI command functions,
  the mode changes, reception, transmission and the configuration the radio thread makes
  before its loop. The SPI driver and the pins belong to ChibiOS and the radio is hardware,
  so a call that reaches them is logged in a trace (the type \<open>bus\<close>), and the byte the radio
  shifts out is a parameter: \<open>miso tr k\<close> is byte \<open>k\<close> of the transfer that ends the trace \<open>tr\<close>.
  Every property holds for every \<open>miso\<close>, so for every behaviour of the radio.

  \<open>chip_step\<close> reads a trace the way the data sheet says the radio does: a transaction starts
  with chip select, its first byte is the command, a write command stores the bytes that
  follow, and \<open>CONFIG\<close> may only be written while CE is low.
\<close>

section \<open>Commands and registers (\<^verbatim>\<open>nrf24l01p.h\<close>)\<close>

named_theorems nrf_regs \<open>values of the radio's commands, registers and bits\<close>

definition CMD_R_REGISTER :: u8 where [nrf_regs]:
  "CMD_R_REGISTER = 0x00"

definition CMD_W_REGISTER :: u8 where [nrf_regs]:
  "CMD_W_REGISTER = 0x20"

definition CMD_R_RX_PAYLOAD :: u8 where [nrf_regs]:
  "CMD_R_RX_PAYLOAD = 0x61"

definition CMD_W_TX_PAYLOAD :: u8 where [nrf_regs]:
  "CMD_W_TX_PAYLOAD = 0xA0"

definition CMD_FLUSH_TX :: u8 where [nrf_regs]:
  "CMD_FLUSH_TX = 0xE1"

definition CMD_FLUSH_RX :: u8 where [nrf_regs]:
  "CMD_FLUSH_RX = 0xE2"

definition CMD_NOP :: u8 where [nrf_regs]:
  "CMD_NOP = 0xFF"

definition CONFIG :: u8 where [nrf_regs]:
  "CONFIG = 0x00"

definition EN_CRC :: u8 where [nrf_regs]:
  "EN_CRC = 0x08"

definition CRCO :: u8 where [nrf_regs]:
  "CRCO = 0x04"

definition PWR_UP :: u8 where [nrf_regs]:
  "PWR_UP = 0x02"

definition PRIM_RX :: u8 where [nrf_regs]:
  "PRIM_RX = 0x01"

definition PRIM_TX :: u8 where [nrf_regs]:
  "PRIM_TX = 0x00"

definition EN_AA :: u8 where [nrf_regs]:
  "EN_AA = 0x01"

definition EN_RXADDR :: u8 where [nrf_regs]:
  "EN_RXADDR = 0x02"

definition ERX_P0 :: u8 where [nrf_regs]:
  "ERX_P0 = 0x01"

definition SETUP_AW :: u8 where [nrf_regs]:
  "SETUP_AW = 0x03"

definition AW_3_BYTES :: u8 where [nrf_regs]:
  "AW_3_BYTES = 0x01"

definition SETUP_RETR :: u8 where [nrf_regs]:
  "SETUP_RETR = 0x04"

definition ARD_SHIFT :: nat where [nrf_regs]:
  "ARD_SHIFT = 4"

definition ARC_SHIFT :: nat where [nrf_regs]:
  "ARC_SHIFT = 0"

definition RF_CH :: u8 where [nrf_regs]:
  "RF_CH = 0x05"

definition RF_SETUP :: u8 where [nrf_regs]:
  "RF_SETUP = 0x06"

definition RF_DR_1M :: u8 where [nrf_regs]:
  "RF_DR_1M = 0x00"

definition RF_PWR_3 :: u8 where [nrf_regs]:
  "RF_PWR_3 = 0x06"

definition STATUS :: u8 where [nrf_regs]:
  "STATUS = 0x07"

definition RX_DR :: u8 where [nrf_regs]:
  "RX_DR = 0x40"

definition TX_DS :: u8 where [nrf_regs]:
  "TX_DS = 0x20"

definition MAX_RT :: u8 where [nrf_regs]:
  "MAX_RT = 0x10"

definition RX_P_NO_MASK :: u8 where [nrf_regs]:
  "RX_P_NO_MASK = 0x0E"

definition RX_P_NO_SHIFT :: nat where [nrf_regs]:
  "RX_P_NO_SHIFT = 1"

definition RX_ADDR_P0 :: u8 where [nrf_regs]:
  "RX_ADDR_P0 = 0x0A"

definition TX_ADDR :: u8 where [nrf_regs]:
  "TX_ADDR = 0x10"

definition RX_PW_P0 :: u8 where [nrf_regs]:
  "RX_PW_P0 = 0x11"

definition DYNPD :: u8 where [nrf_regs]:
  "DYNPD = 0x1C"

section \<open>Bus\<close>

datatype radio_ev =
    Spi_select
  | Spi_send bytes
  | Spi_receive nat
  | Spi_exchange bytes
  | Spi_unselect
  | Ce_low
  | Ce_high
  | Sleep_ms nat
  | Blink_rf bool

type_synonym bus = "radio_ev list"
type_synonym miso = "bus \<Rightarrow> nat \<Rightarrow> u8"

definition spiSelect :: "bus \<Rightarrow> bus" where
  "spiSelect tr = tr @ [Spi_select]"

definition spiSend :: "bytes \<Rightarrow> bus \<Rightarrow> bus" where
  "spiSend bs tr = tr @ [Spi_send bs]"

definition spiReceive :: "miso \<Rightarrow> nat \<Rightarrow> bus \<Rightarrow> bytes \<times> bus" where
  "spiReceive miso n tr =
     (let tr' = tr @ [Spi_receive n] in (map (miso tr') [0..<n], tr'))"

definition spiExchange :: "miso \<Rightarrow> bytes \<Rightarrow> bus \<Rightarrow> bytes \<times> bus" where
  "spiExchange miso bs tr =
     (let tr' = tr @ [Spi_exchange bs] in (map (miso tr') [0..<length bs], tr'))"

definition spiUnselect :: "bus \<Rightarrow> bus" where
  "spiUnselect tr = tr @ [Spi_unselect]"

definition nrf_ce_l :: "bus \<Rightarrow> bus" where
  "nrf_ce_l tr = tr @ [Ce_low]"

definition nrf_ce_h :: "bus \<Rightarrow> bus" where
  "nrf_ce_h tr = tr @ [Ce_high]"

definition sleep_ms :: "nat \<Rightarrow> bus \<Rightarrow> bus" where
  "sleep_ms n tr = tr @ [Sleep_ms n]"

section \<open>Commands\<close>

definition nrf_read_reg :: "miso \<Rightarrow> u8 \<Rightarrow> bus \<Rightarrow> u8 \<times> bus" where
  "nrf_read_reg miso addr tr =
     (let addr = CMD_R_REGISTER OR addr;
          (ret, tr) = spiReceive miso 1 (spiSend [addr] (spiSelect tr))
      in (ret ! 0, spiUnselect tr))"

definition nrf_write_reg :: "u8 \<Rightarrow> u8 \<Rightarrow> bus \<Rightarrow> bus" where
  "nrf_write_reg addr dat tr =
     (let addr = CMD_W_REGISTER OR addr
      in spiUnselect (spiSend [dat] (spiSend [addr] (spiSelect tr))))"

definition nrf_read_addr :: "miso \<Rightarrow> u8 \<Rightarrow> nat \<Rightarrow> bus \<Rightarrow> bytes \<times> bus" where
  "nrf_read_addr miso addr sz tr =
     (let addr = CMD_R_REGISTER OR addr;
          (dat, tr) = spiReceive miso sz (spiSend [addr] (spiSelect tr))
      in (dat, spiUnselect tr))"

definition nrf_write_addr :: "u8 \<Rightarrow> bytes \<Rightarrow> nat \<Rightarrow> bus \<Rightarrow> bus" where
  "nrf_write_addr addr dat sz tr =
     (let addr = CMD_W_REGISTER OR addr
      in spiUnselect (spiSend (take sz dat) (spiSend [addr] (spiSelect tr))))"

definition nrf_read_payload :: "miso \<Rightarrow> nat \<Rightarrow> bus \<Rightarrow> bytes \<times> bus" where
  "nrf_read_payload miso sz tr =
     (let (buf, tr) = spiReceive miso sz (spiSend [CMD_R_RX_PAYLOAD] (spiSelect tr))
      in (buf, spiUnselect tr))"

definition nrf_write_payload :: "bytes \<Rightarrow> nat \<Rightarrow> bus \<Rightarrow> bus" where
  "nrf_write_payload buf sz tr =
     spiUnselect (spiSend (take sz buf) (spiSend [CMD_W_TX_PAYLOAD] (spiSelect tr)))"

definition nrf_flush_tx :: "bus \<Rightarrow> bus" where
  "nrf_flush_tx tr = spiUnselect (spiSend [CMD_FLUSH_TX] (spiSelect tr))"

definition nrf_flush_rx :: "bus \<Rightarrow> bus" where
  "nrf_flush_rx tr = spiUnselect (spiSend [CMD_FLUSH_RX] (spiSelect tr))"

definition nrf_get_status :: "miso \<Rightarrow> bus \<Rightarrow> u8 \<times> bus" where
  "nrf_get_status miso tr =
     (let (ret, tr) = spiExchange miso [CMD_NOP] (spiSelect tr)
      in (ret ! 0, spiUnselect tr))"

section \<open>Modes, reception, transmission\<close>

definition NRF_CONFIG :: u8 where
  "NRF_CONFIG = EN_CRC OR CRCO"

definition nrf_standby :: "bus \<Rightarrow> bus" where
  "nrf_standby tr = sleep_ms 5 (nrf_write_reg CONFIG (NRF_CONFIG OR PWR_UP) (nrf_ce_l tr))"

definition nrf_rx_mode :: "bus \<Rightarrow> bus" where
  "nrf_rx_mode tr = nrf_ce_h (nrf_write_reg CONFIG (NRF_CONFIG OR PWR_UP OR PRIM_RX) tr)"

definition nrf_powerdown :: "bus \<Rightarrow> bus" where
  "nrf_powerdown tr = nrf_write_reg CONFIG 0x00 (nrf_ce_l tr)"

definition nrf_has_data :: "miso \<Rightarrow> bus \<Rightarrow> u8 \<times> bus" where
  "nrf_has_data miso tr =
     (let (status, tr) = nrf_get_status miso tr
      in if status AND RX_DR \<noteq> 0 then (1, nrf_write_reg STATUS RX_DR tr) else (0, tr))"

text \<open>\<open>nrf_rx\<close> returns its result, the buffer it was given as it leaves it, and the trace.\<close>

definition nrf_rx :: "miso \<Rightarrow> bytes \<Rightarrow> u8 \<Rightarrow> bus \<Rightarrow> u8 \<times> bytes \<times> bus" where
  "nrf_rx miso dat sz tr =
     (let (status, tr) = nrf_get_status miso tr;
          pipe = drop_bit RX_P_NO_SHIFT (status AND RX_P_NO_MASK)
      in if pipe > 5 then (0, dat, tr)
         else
           let (rx_size, tr) = nrf_read_reg miso (RX_PW_P0 + pipe) tr
           in if rx_size = sz
              then let (buf, tr) = nrf_read_payload miso (unat rx_size) tr
                   in (rx_size, memcpy_bytes dat buf (unat rx_size), tr)
              else (0, dat, nrf_flush_rx tr))"

definition nrf_tx :: "bytes \<Rightarrow> nat \<Rightarrow> bus \<Rightarrow> bus" where
  "nrf_tx dat sz tr =
     nrf_ce_h (nrf_write_payload dat sz
       (nrf_write_reg CONFIG (NRF_CONFIG OR PWR_UP OR PRIM_TX) tr))"

section \<open>Configuration made by the radio thread\<close>

definition ADDR_AW :: u8 where
  "ADDR_AW = AW_3_BYTES"

definition broadcast :: bytes where
  "broadcast = [0x10, 0xab, 0x0f]"

definition CHANNEL :: u8 where
  "CHANNEL = 24"

definition nrf_radio_setup :: "bus \<Rightarrow> bus" where
  "nrf_radio_setup tr =
     (let tr = nrf_powerdown tr;
          tr = nrf_write_reg SETUP_AW ADDR_AW tr;
          tr = nrf_write_addr TX_ADDR broadcast (length broadcast) tr;
          tr = nrf_write_reg SETUP_RETR (push_bit ARD_SHIFT 0x0 OR push_bit ARC_SHIFT 0x0) tr;
          tr = nrf_write_addr RX_ADDR_P0 broadcast (length broadcast) tr;
          tr = nrf_write_reg EN_RXADDR ERX_P0 tr;
          tr = nrf_write_reg EN_AA 0 tr;
          tr = nrf_write_reg DYNPD 0 tr;
          tr = nrf_write_reg RX_PW_P0 (of_nat PAYLOADSZ) tr;
          tr = nrf_write_reg RF_CH CHANNEL tr;
          tr = nrf_write_reg RF_SETUP (RF_DR_1M OR RF_PWR_3) tr;
          tr = nrf_flush_tx tr;
          tr = nrf_flush_rx tr;
          tr = nrf_write_reg STATUS (RX_DR OR TX_DS OR MAX_RT) tr;
          tr = nrf_standby tr
      in nrf_rx_mode tr)"

section \<open>What the radio makes of a trace\<close>

datatype spi_phase = Deselected | Command | Data u8

record chip =
  cp_phase :: spi_phase
  cp_ce :: bool
  cp_regs :: "u8 \<Rightarrow> bytes option"
  cp_payloads :: "bytes list"
  cp_legal :: bool

text \<open>
  \<open>cp_regs\<close> holds the last bytes written to each register, \<open>cp_payloads\<close> the payloads written
  for transmission, oldest first, \<open>cp_legal\<close> whether the trace respected the protocol so far.
\<close>

definition is_reg_write :: "u8 \<Rightarrow> bool" where
  "is_reg_write cmd \<longleftrightarrow> cmd AND 0xE0 = CMD_W_REGISTER"

fun chip_step :: "chip \<Rightarrow> radio_ev \<Rightarrow> chip" where
  "chip_step c Spi_select =
     c\<lparr>cp_legal := cp_legal c \<and> cp_phase c = Deselected, cp_phase := Command\<rparr>"
| "chip_step c (Spi_send bs) =
     (case cp_phase c of
        Deselected \<Rightarrow> c\<lparr>cp_legal := False\<rparr>
      | Command \<Rightarrow> c\<lparr>cp_legal := cp_legal c \<and> length bs = 1, cp_phase := Data (hd bs)\<rparr>
      | Data cmd \<Rightarrow>
          if is_reg_write cmd
          then c\<lparr>cp_regs := (cp_regs c)(cmd AND 0x1F \<mapsto> bs),
                 cp_legal := cp_legal c \<and> (cmd AND 0x1F = CONFIG \<longrightarrow> \<not> cp_ce c)\<rparr>
          else if cmd = CMD_W_TX_PAYLOAD
          then c\<lparr>cp_payloads := cp_payloads c @ [bs]\<rparr>
          else c)"
| "chip_step c (Spi_receive n) =
     (case cp_phase c of Data _ \<Rightarrow> c | _ \<Rightarrow> c\<lparr>cp_legal := False\<rparr>)"
| "chip_step c (Spi_exchange bs) =
     c\<lparr>cp_legal := cp_legal c \<and> cp_phase c = Command \<and> length bs = 1, cp_phase := Data (hd bs)\<rparr>"
| "chip_step c Spi_unselect =
     c\<lparr>cp_legal := cp_legal c \<and> (case cp_phase c of Data _ \<Rightarrow> True | _ \<Rightarrow> False), cp_phase := Deselected\<rparr>"
| "chip_step c Ce_low = c\<lparr>cp_ce := False\<rparr>"
| "chip_step c Ce_high = c\<lparr>cp_ce := True\<rparr>"
| "chip_step c (Sleep_ms n) = c"
| "chip_step c (Blink_rf b) = c"

definition chip_of :: "chip \<Rightarrow> bus \<Rightarrow> chip" where
  "chip_of c0 tr = foldl chip_step c0 tr"

text \<open>The radio at power up: deselected, CE low (both pins' reset level in \<^verbatim>\<open>board.h\<close>).\<close>

definition chip_reset :: chip where
  "chip_reset = \<lparr>cp_phase = Deselected, cp_ce = False, cp_regs = (\<lambda>_. None), cp_payloads = [],
     cp_legal = True\<rparr>"

lemma chip_of_Nil [simp]: "chip_of c [] = c"
  by (simp add: chip_of_def)

lemma chip_of_append [simp]: "chip_of c (tr @ es) = foldl chip_step (chip_of c tr) es"
  by (simp add: chip_of_def)

section \<open>Effect of the driver's functions on the radio\<close>

text \<open>
  \<open>idle c\<close>: between transactions, no protocol violation so far. The lemmas give, for each
  driver function, the state of the radio after it in terms of the state before.
\<close>

definition idle :: "chip \<Rightarrow> bool" where
  "idle c \<longleftrightarrow> cp_phase c = Deselected \<and> cp_legal c"

lemmas bus_defs = spiSelect_def spiSend_def spiReceive_def spiExchange_def spiUnselect_def
  nrf_ce_l_def nrf_ce_h_def sleep_ms_def

named_theorems chip_simps \<open>the radio after each driver function\<close>

text \<open>Register numbers, for which the read and write commands are what they should be.\<close>

definition reg_addr :: "u8 \<Rightarrow> bool" where
  "reg_addr a \<longleftrightarrow> is_reg_write (CMD_W_REGISTER OR a) \<and> (CMD_W_REGISTER OR a) AND 0x1F = a
     \<and> \<not> is_reg_write (CMD_R_REGISTER OR a) \<and> CMD_R_REGISTER OR a \<noteq> CMD_W_TX_PAYLOAD"

lemma reg_addr_consts [simp]:
  "reg_addr CONFIG" "reg_addr SETUP_AW" "reg_addr TX_ADDR" "reg_addr SETUP_RETR"
  "reg_addr RX_ADDR_P0" "reg_addr EN_RXADDR" "reg_addr EN_AA" "reg_addr DYNPD"
  "reg_addr RX_PW_P0" "reg_addr RF_CH" "reg_addr RF_SETUP" "reg_addr STATUS"
  by (simp_all add: reg_addr_def is_reg_write_def nrf_regs)

lemma u8_le_5: "(p :: u8) \<le> 5 \<Longrightarrow> p = 0 \<or> p = 1 \<or> p = 2 \<or> p = 3 \<or> p = 4 \<or> p = 5"
proof -
  assume "p \<le> 5"
  then have "unat p \<le> 5" by (simp add: word_le_nat_alt)
  then have "unat p = 0 \<or> unat p = 1 \<or> unat p = 2 \<or> unat p = 3 \<or> unat p = 4 \<or> unat p = 5"
    by arith
  then show ?thesis by (simp add: word_unat_eq_iff)
qed

lemma reg_addr_pipe: "\<not> (pipe :: u8) > 5 \<Longrightarrow> reg_addr (RX_PW_P0 + pipe)"
  using u8_le_5 [of pipe]
  by (auto simp: not_less reg_addr_def is_reg_write_def nrf_regs)

lemma other_cmds [simp]:
  "\<not> is_reg_write CMD_R_RX_PAYLOAD" "CMD_R_RX_PAYLOAD \<noteq> CMD_W_TX_PAYLOAD"
  "\<not> is_reg_write CMD_W_TX_PAYLOAD"
  "\<not> is_reg_write CMD_FLUSH_TX" "\<not> is_reg_write CMD_FLUSH_RX" "\<not> is_reg_write CMD_NOP"
  by (simp_all add: is_reg_write_def nrf_regs)

lemma config_other [simp]:
  "SETUP_AW \<noteq> CONFIG" "TX_ADDR \<noteq> CONFIG" "SETUP_RETR \<noteq> CONFIG" "RX_ADDR_P0 \<noteq> CONFIG"
  "EN_RXADDR \<noteq> CONFIG" "EN_AA \<noteq> CONFIG" "DYNPD \<noteq> CONFIG" "RX_PW_P0 \<noteq> CONFIG"
  "RF_CH \<noteq> CONFIG" "RF_SETUP \<noteq> CONFIG" "STATUS \<noteq> CONFIG"
  by (simp_all add: nrf_regs)

lemma chip_same: "idle c \<Longrightarrow> c\<lparr>cp_legal := True, cp_phase := Deselected\<rparr> = c"
  by (cases c) (simp add: idle_def)

lemma chip_write_reg [chip_simps]:
  "idle (chip_of c tr) \<Longrightarrow> reg_addr a \<Longrightarrow> (a = CONFIG \<longrightarrow> \<not> cp_ce (chip_of c tr)) \<Longrightarrow>
   chip_of c (nrf_write_reg a v tr) =
     (chip_of c tr)\<lparr>cp_regs := (cp_regs (chip_of c tr))(a \<mapsto> [v])\<rparr>"
  by (cases "chip_of c tr") (simp add: nrf_write_reg_def bus_defs idle_def reg_addr_def)

lemma chip_write_addr [chip_simps]:
  "idle (chip_of c tr) \<Longrightarrow> reg_addr a \<Longrightarrow> a \<noteq> CONFIG \<Longrightarrow>
   chip_of c (nrf_write_addr a dat n tr) =
     (chip_of c tr)\<lparr>cp_regs := (cp_regs (chip_of c tr))(a \<mapsto> take n dat)\<rparr>"
  by (cases "chip_of c tr") (simp add: nrf_write_addr_def bus_defs idle_def reg_addr_def)

lemma chip_read_reg [chip_simps]:
  "idle (chip_of c tr) \<Longrightarrow> reg_addr a \<Longrightarrow>
   chip_of c (snd (nrf_read_reg miso a tr)) = chip_of c tr"
  by (cases "chip_of c tr") (simp add: nrf_read_reg_def bus_defs idle_def reg_addr_def Let_def)

lemma chip_read_payload [chip_simps]:
  "idle (chip_of c tr) \<Longrightarrow> chip_of c (snd (nrf_read_payload miso n tr)) = chip_of c tr"
  by (cases "chip_of c tr") (simp add: nrf_read_payload_def bus_defs idle_def Let_def)

lemma chip_write_payload [chip_simps]:
  "idle (chip_of c tr) \<Longrightarrow>
   chip_of c (nrf_write_payload buf n tr) =
     (chip_of c tr)\<lparr>cp_payloads := cp_payloads (chip_of c tr) @ [take n buf]\<rparr>"
  by (cases "chip_of c tr") (simp add: nrf_write_payload_def bus_defs idle_def)

lemma chip_flush [chip_simps]:
  "idle (chip_of c tr) \<Longrightarrow> chip_of c (nrf_flush_tx tr) = chip_of c tr"
  "idle (chip_of c tr) \<Longrightarrow> chip_of c (nrf_flush_rx tr) = chip_of c tr"
  by (cases "chip_of c tr"; simp add: nrf_flush_tx_def nrf_flush_rx_def bus_defs idle_def;
      simp add: nrf_regs)+

lemma chip_get_status [chip_simps]:
  "idle (chip_of c tr) \<Longrightarrow> chip_of c (snd (nrf_get_status miso tr)) = chip_of c tr"
  by (cases "chip_of c tr") (simp add: nrf_get_status_def bus_defs idle_def Let_def)

lemma chip_pins [chip_simps]:
  "chip_of c (nrf_ce_l tr) = (chip_of c tr)\<lparr>cp_ce := False\<rparr>"
  "chip_of c (nrf_ce_h tr) = (chip_of c tr)\<lparr>cp_ce := True\<rparr>"
  "chip_of c (sleep_ms n tr) = chip_of c tr"
  by (simp_all add: bus_defs)

lemma idle_update [simp]:
  "idle (c\<lparr>cp_ce := b\<rparr>) = idle c" "idle (c\<lparr>cp_regs := r\<rparr>) = idle c"
  "idle (c\<lparr>cp_payloads := p\<rparr>) = idle c"
  by (simp_all add: idle_def)

lemma chip_standby [chip_simps]:
  "idle (chip_of c tr) \<Longrightarrow>
   chip_of c (nrf_standby tr) = (chip_of c tr)\<lparr>cp_ce := False,
     cp_regs := (cp_regs (chip_of c tr))(CONFIG \<mapsto> [0x0E])\<rparr>"
  by (simp add: nrf_standby_def chip_simps) (simp add: NRF_CONFIG_def nrf_regs)

lemma chip_rx_mode [chip_simps]:
  "idle (chip_of c tr) \<Longrightarrow> \<not> cp_ce (chip_of c tr) \<Longrightarrow>
   chip_of c (nrf_rx_mode tr) = (chip_of c tr)\<lparr>cp_ce := True,
     cp_regs := (cp_regs (chip_of c tr))(CONFIG \<mapsto> [0x0F])\<rparr>"
  by (simp add: nrf_rx_mode_def chip_simps) (simp add: NRF_CONFIG_def nrf_regs)

lemma chip_powerdown [chip_simps]:
  "idle (chip_of c tr) \<Longrightarrow>
   chip_of c (nrf_powerdown tr) = (chip_of c tr)\<lparr>cp_ce := False,
     cp_regs := (cp_regs (chip_of c tr))(CONFIG \<mapsto> [0])\<rparr>"
  by (simp add: nrf_powerdown_def chip_simps)

lemma chip_tx [chip_simps]:
  "idle (chip_of c tr) \<Longrightarrow> \<not> cp_ce (chip_of c tr) \<Longrightarrow>
   chip_of c (nrf_tx dat n tr) = (chip_of c tr)\<lparr>cp_ce := True,
     cp_regs := (cp_regs (chip_of c tr))(CONFIG \<mapsto> [0x0E]),
     cp_payloads := cp_payloads (chip_of c tr) @ [take n dat]\<rparr>"
  by (simp add: nrf_tx_def chip_simps) (simp add: NRF_CONFIG_def nrf_regs)

lemma chip_rx [chip_simps]:
  assumes "idle (chip_of c tr)"
  shows "chip_of c (snd (snd (nrf_rx miso dat n tr))) = chip_of c tr"
  using assms chip_get_status [OF assms, of miso]
  by (auto simp: nrf_rx_def Let_def chip_simps reg_addr_pipe split: prod.splits
      dest!: arg_cong [of _ _ snd])

text \<open>The buffer after \<open>nrf_rx\<close>: a whole new payload, or untouched when the result is 0.\<close>

lemma nrf_rx_buffer:
  assumes "length dat = unat n"
  shows "length (fst (snd (nrf_rx miso dat n tr))) = unat n"
    and "fst (nrf_rx miso dat n tr) = 0 \<Longrightarrow> n \<noteq> 0 \<Longrightarrow> fst (snd (nrf_rx miso dat n tr)) = dat"
  using assms
  by (auto simp: nrf_rx_def Let_def nrf_read_payload_def bus_defs split: prod.splits)

end
