(* ===== verification/Mailbox.thy ===== *)
theory Mailbox
  imports Frames
begin

text \<open>
  ChibiOS mailboxes as the radio driver uses them. The kernel is not part of the repository,
  so its operations are a parameter of the driver's model (the record \<open>mbox_ops\<close>), and their
  documented behaviour, a bounded FIFO of messages, is the locale \<open>mailbox\<close>. A message is a
  pointer into the driver's buffer array, here its index.

  On top of the contract this theory proves the ring discipline the driver follows on both
  of its mailboxes: buffers are handed out round robin, so the queued pointers are always the
  last buffers before the next index. That makes the pair of mailbox and buffer array a FIFO
  of messages.
\<close>

definition MBSZ :: nat where
  "MBSZ = 10"

text \<open>
  \<open>mb_post\<close> gives \<open>None\<close> where \<open>chMBPost\<close> fails (\<open>TIME_IMMEDIATE\<close>) or blocks
  (\<open>TIME_INFINITE\<close>), and \<open>mb_fetch\<close> where there is nothing to fetch.
\<close>

record 'm mbox_ops =
  mb_init :: "nat \<Rightarrow> 'm"
  mb_free :: "'m \<Rightarrow> nat"
  mb_used :: "'m \<Rightarrow> nat"
  mb_post :: "'m \<Rightarrow> nat \<Rightarrow> 'm option"
  mb_fetch :: "'m \<Rightarrow> (nat \<times> 'm) option"

section \<open>Ring indices\<close>

text \<open>The \<open>n\<close> buffer indices handed out before the index \<open>idx\<close>, oldest first.\<close>

definition ring_list :: "nat \<Rightarrow> nat \<Rightarrow> nat list" where
  "ring_list idx n = map (\<lambda>k. (idx + (MBSZ - n) + k) mod MBSZ) [0..<n]"

lemma length_ring_list [simp]: "length (ring_list idx n) = n"
  by (simp add: ring_list_def)

lemma ring_list_0 [simp]: "ring_list idx 0 = []"
  by (simp add: ring_list_def)

lemma ring_list_bound: "x \<in> set (ring_list idx n) \<Longrightarrow> x < MBSZ"
  by (auto simp: ring_list_def MBSZ_def)

lemma nth_ring_list: "k < n \<Longrightarrow> ring_list idx n ! k = (idx + (MBSZ - n) + k) mod MBSZ"
  by (simp add: ring_list_def)

lemma ring_list_snoc:
  assumes "n < MBSZ" "idx < MBSZ"
  shows "ring_list idx n @ [idx] = ring_list ((idx + 1) mod MBSZ) (Suc n)"
proof (rule nth_equalityI)
  fix k assume "k < length (ring_list idx n @ [idx])"
  then have k: "k < Suc n" by simp
  have "((idx + 1) mod MBSZ + ((MBSZ - Suc n) + k)) mod MBSZ = (idx + 1 + ((MBSZ - Suc n) + k)) mod MBSZ"
    by (rule mod_add_left_eq)
  also have "idx + 1 + ((MBSZ - Suc n) + k) = idx + (MBSZ - n) + k"
    using assms by simp
  finally have r: "ring_list ((idx + 1) mod MBSZ) (Suc n) ! k = (idx + (MBSZ - n) + k) mod MBSZ"
    using k by (simp add: nth_ring_list add.assoc)
  show "(ring_list idx n @ [idx]) ! k = ring_list ((idx + 1) mod MBSZ) (Suc n) ! k"
  proof (cases "k < n")
    case True
    then show ?thesis using r by (simp add: nth_append nth_ring_list)
  next
    case False
    then have "k = n" using k by simp
    then show ?thesis using r assms by (simp add: nth_append add.assoc)
  qed
qed simp

lemma ring_list_Cons:
  assumes "Suc n \<le> MBSZ"
  shows "ring_list idx (Suc n) = (idx + (MBSZ - Suc n)) mod MBSZ # ring_list idx n"
proof (rule nth_equalityI)
  fix k assume k: "k < length (ring_list idx (Suc n))"
  show "ring_list idx (Suc n) ! k = ((idx + (MBSZ - Suc n)) mod MBSZ # ring_list idx n) ! k"
  proof (cases k)
    case 0
    then show ?thesis by (simp add: nth_ring_list)
  next
    case (Suc j)
    have "ring_list idx (Suc n) ! k = (idx + (MBSZ - Suc n) + Suc j) mod MBSZ"
      using k Suc by (simp add: nth_ring_list)
    also have "idx + (MBSZ - Suc n) + Suc j = idx + (MBSZ - n) + j"
      using assms by simp
    also have "(idx + (MBSZ - n) + j) mod MBSZ = ring_list idx n ! j"
      using k Suc by (simp add: nth_ring_list)
    finally show ?thesis using Suc by simp
  qed
qed simp

lemma ring_list_fresh:
  assumes "n < MBSZ" "idx < MBSZ"
  shows "idx \<notin> set (ring_list idx n)"
proof
  assume "idx \<in> set (ring_list idx n)"
  then obtain k where k: "k < n" "idx = (idx + (MBSZ - n) + k) mod MBSZ"
    by (auto simp: ring_list_def)
  define d where "d = MBSZ - n + k"
  have d: "0 < d" "d < MBSZ" "idx = (idx + d) mod MBSZ"
    using assms k by (simp_all add: d_def add.assoc)
  show False
  proof (cases "idx + d < MBSZ")
    case True
    then show ?thesis using d by simp
  next
    case False
    then have "(idx + d) mod MBSZ = idx + d - MBSZ"
      using d assms by (simp add: le_mod_geq)
    then show ?thesis using d False by simp
  qed
qed

section \<open>The contract of a mailbox\<close>

text \<open>
  For a mailbox whose queue is read off by \<open>view\<close> and whose well-formedness is \<open>mok\<close>: the ring
  discipline of the mailbox, its buffers and the next index, and the queued messages.
\<close>

definition ring_ok ::
    "('m \<Rightarrow> nat list) \<Rightarrow> ('m \<Rightarrow> bool) \<Rightarrow> 'm \<Rightarrow> bytes list \<Rightarrow> nat \<Rightarrow> bool" where
  "ring_ok view mok m bufs idx \<longleftrightarrow> mok m \<and> length bufs = MBSZ
     \<and> (\<forall>b\<in>set bufs. length b = PAYLOADSZ)
     \<and> idx < MBSZ \<and> view m = ring_list idx (length (view m))"

definition pending :: "('m \<Rightarrow> nat list) \<Rightarrow> 'm \<Rightarrow> bytes list \<Rightarrow> bytes list" where
  "pending view m bufs = map (\<lambda>i. bufs ! i) (view m)"

locale mailbox =
  fixes ops :: "'m mbox_ops"
    and view :: "'m \<Rightarrow> nat list"
    and mok :: "'m \<Rightarrow> bool"
  assumes init_ok: "mok (mb_init ops MBSZ)" and init_view: "view (mb_init ops MBSZ) = []"
    and view_bound: "mok m \<Longrightarrow> length (view m) \<le> MBSZ"
    and free_view: "mok m \<Longrightarrow> mb_free ops m = MBSZ - length (view m)"
    and used_view: "mok m \<Longrightarrow> mb_used ops m = length (view m)"
    and post_room: "mok m \<Longrightarrow> length (view m) < MBSZ \<Longrightarrow>
          \<exists>m'. mb_post ops m x = Some m' \<and> mok m' \<and> view m' = view m @ [x]"
    and post_full: "mok m \<Longrightarrow> length (view m) = MBSZ \<Longrightarrow> mb_post ops m x = None"
    and fetch_some: "mok m \<Longrightarrow> view m = x # xs \<Longrightarrow>
          \<exists>m'. mb_fetch ops m = Some (x, m') \<and> mok m' \<and> view m' = xs"
    and fetch_none: "mok m \<Longrightarrow> view m = [] \<Longrightarrow> mb_fetch ops m = None"
begin

lemma length_pending [simp]: "length (pending view m bufs) = length (view m)"
  by (simp add: pending_def)

lemma ring_ok_init:
  "length bufs = MBSZ \<Longrightarrow> (\<forall>b\<in>set bufs. length b = PAYLOADSZ) \<Longrightarrow>
   ring_ok view mok (mb_init ops MBSZ) bufs 0 \<and> pending view (mb_init ops MBSZ) bufs = []"
  by (simp add: ring_ok_def pending_def init_ok init_view) (simp add: MBSZ_def)

lemma ring_ok_bufD: "ring_ok view mok m bufs idx \<Longrightarrow> i < MBSZ \<Longrightarrow> length (bufs ! i) = PAYLOADSZ"
  by (simp add: ring_ok_def)

lemma ring_idx_free:
  assumes "ring_ok view mok m bufs idx" "length (view m) < MBSZ"
  shows "idx \<notin> set (view m)"
proof -
  have "idx \<notin> set (ring_list idx (length (view m)))"
    using assms by (intro ring_list_fresh) (simp_all add: ring_ok_def)
  then show ?thesis using assms(1) by (simp add: ring_ok_def)
qed

lemma ring_write:
  assumes "ring_ok view mok m bufs idx" "length (view m) < MBSZ" "length b = PAYLOADSZ"
  shows "ring_ok view mok m (bufs[idx := b]) idx" "pending view m (bufs[idx := b]) = pending view m bufs"
proof -
  show "ring_ok view mok m (bufs[idx := b]) idx"
    using assms set_update_subset_insert [of bufs idx b] by (auto simp: ring_ok_def)
  have "idx \<notin> set (view m)" using ring_idx_free assms by blast
  then show "pending view m (bufs[idx := b]) = pending view m bufs"
    by (auto simp: pending_def intro!: nth_list_update_neq)
qed

lemma ring_post:
  assumes "ring_ok view mok m bufs idx" "length (view m) < MBSZ"
  obtains m' where "mb_post ops m idx = Some m'" "ring_ok view mok m' bufs ((idx + 1) mod MBSZ)"
    "pending view m' bufs = pending view m bufs @ [bufs ! idx]"
proof -
  have "mok m" using assms by (simp add: ring_ok_def)
  then obtain m' where m': "mb_post ops m idx = Some m'" "mok m'" "view m' = view m @ [idx]"
    using post_room assms(2) by blast
  have "view m' = ring_list ((idx + 1) mod MBSZ) (length (view m'))"
    using assms m'(3) ring_list_snoc [of "length (view m)" idx]
    by (metis length_append_singleton ring_ok_def)
  then have "ring_ok view mok m' bufs ((idx + 1) mod MBSZ)"
    using assms m' by (simp add: ring_ok_def MBSZ_def)
  then show ?thesis
    using that m' by (simp add: pending_def)
qed

lemma ring_fetch:
  assumes "ring_ok view mok m bufs idx" "view m \<noteq> []"
  obtains i m' where "mb_fetch ops m = Some (i, m')" "i < MBSZ" "ring_ok view mok m' bufs idx"
    "pending view m bufs = bufs ! i # pending view m' bufs" "view m = i # view m'"
proof -
  have m: "mok m" "view m = ring_list idx (length (view m))"
    using assms by (simp_all add: ring_ok_def)
  obtain i xs where v: "view m = i # xs" using assms by (cases "view m") auto
  then obtain m' where m': "mb_fetch ops m = Some (i, m')" "mok m'" "view m' = xs"
    using fetch_some m by blast
  have "length (view m) \<le> MBSZ" using view_bound m by blast
  then have "i # xs = (idx + (MBSZ - length (view m))) mod MBSZ # ring_list idx (length xs)"
    using ring_list_Cons [of "length xs" idx] m v by simp
  then have xs: "xs = ring_list idx (length xs)" by simp
  have "i < MBSZ" using ring_list_bound [of i idx "length (view m)"] m v by (metis list.set_intros(1))
  moreover have "ring_ok view mok m' bufs idx" using assms m' xs by (simp add: ring_ok_def)
  ultimately show ?thesis using that m' v by (simp add: pending_def)
qed

lemma ring_fetch_empty: "ring_ok view mok m bufs idx \<Longrightarrow> view m = [] \<Longrightarrow> mb_fetch ops m = None"
  by (simp add: ring_ok_def fetch_none)

lemma ring_full: "ring_ok view mok m bufs idx \<Longrightarrow> mb_free ops m = 0 \<longleftrightarrow> length (view m) = MBSZ"
  using view_bound [of m] by (auto simp: ring_ok_def free_view)

lemma ring_used: "ring_ok view mok m bufs idx \<Longrightarrow> mb_used ops m = length (pending view m bufs)"
  by (simp add: ring_ok_def used_view)

end

section \<open>A mailbox that obeys the contract\<close>

text \<open>Capacity and queue; it shows that the laws can hold and carries the witnesses.\<close>

definition fifo_ops :: "(nat \<times> nat list) mbox_ops" where
  "fifo_ops =
     \<lparr>mb_init = (\<lambda>n. (n, [])),
      mb_free = (\<lambda>(n, q). n - length q),
      mb_used = (\<lambda>(n, q). length q),
      mb_post = (\<lambda>(n, q) x. if length q < n then Some (n, q @ [x]) else None),
      mb_fetch = (\<lambda>(n, q). case q of [] \<Rightarrow> None | x # xs \<Rightarrow> Some (x, (n, xs)))\<rparr>"

definition fifo_ok :: "nat \<times> nat list \<Rightarrow> bool" where
  "fifo_ok m \<longleftrightarrow> fst m = MBSZ \<and> length (snd m) \<le> MBSZ"

interpretation fifo: mailbox fifo_ops snd fifo_ok
  by unfold_locales (auto simp: fifo_ops_def fifo_ok_def MBSZ_def split: list.splits)

end
