(* ===== verification/Nrf_Queues.thy ===== *)
theory Nrf_Queues
  imports Nrf_Radio Mailbox "HOL-Library.Sublist"
begin

text \<open>
  The queues of \<^verbatim>\<open>firmware/nrf24l01p.c\<close> and the radio thread: \<open>nrf_recv\<close> and \<open>nrf_send\<close>, called
  by other threads, and the body of the radio thread's loop, \<open>nrf_irq\<close> followed by
  \<open>nrf_check_tx\<close>. Each handler is cut into the phases between which the kernel can run another
  thread (where the code sleeps, waits for the SPI transfer or leaves a critical section);
  the handler is their composition, and \<open>radio_step\<close> interleaves the phases with the other
  threads.
\<close>

section \<open>State\<close>

text \<open>
  \<open>struct nrf_entry\<close>, with the pending event flag of its thread and the trace of the bus. A
  queued message is a pointer to an element of the buffer array, here its index.
\<close>

record 'm nrf_entry =
  nr_rx :: 'm
  nr_rx_bufs :: "bytes list"
  nr_rx_idx :: nat
  nr_tx :: 'm
  nr_tx_bufs :: "bytes list"
  nr_tx_idx :: nat
  nr_evt :: bool
  nr_bus :: bus

definition nrf_kick_loop :: "'m nrf_entry \<Rightarrow> 'm nrf_entry" where
  "nrf_kick_loop s = s\<lparr>nr_evt := True\<rparr>"

definition nrf_init :: "'m mbox_ops \<Rightarrow> 'm nrf_entry \<Rightarrow> 'm nrf_entry" where
  "nrf_init ops s =
     s\<lparr>nr_rx_idx := 0, nr_rx := mb_init ops MBSZ, nr_tx_idx := 0, nr_tx := mb_init ops MBSZ\<rparr>"

section \<open>Calls from other threads\<close>

text \<open>\<open>None\<close>: the caller waits in \<open>chMBFetchS\<close>.\<close>

definition nrf_recv :: "'m mbox_ops \<Rightarrow> bytes \<Rightarrow> 'm nrf_entry \<Rightarrow> (bytes \<times> 'm nrf_entry) option" where
  "nrf_recv ops msg s =
     (case mb_fetch ops (nr_rx s) of
        None \<Rightarrow> None
      | Some (in_msg, rx) \<Rightarrow>
          Some (memcpy_bytes msg (nr_rx_bufs s ! in_msg) PAYLOADSZ, s\<lparr>nr_rx := rx\<rparr>))"

text \<open>
  \<open>nrf_send\<close> computes its buffer pointer before \<open>chMBPostS\<close>, which may wait for room; the rest
  of its critical section runs after it. \<open>None\<close>: the caller waits. The radio thread is woken after
  the section, which other threads can delay: \<open>radio_step\<close> has it as a step of its own, \<open>kick\<close>.
\<close>

definition nrf_send_begin :: "'m nrf_entry \<Rightarrow> nat" where
  "nrf_send_begin s = nr_tx_idx s"

definition nrf_send_end ::
    "'m mbox_ops \<Rightarrow> nat \<Rightarrow> bytes \<Rightarrow> 'm nrf_entry \<Rightarrow> 'm nrf_entry option" where
  "nrf_send_end ops out_msg msg s =
     (case mb_post ops (nr_tx s) out_msg of
        None \<Rightarrow> None
      | Some tx \<Rightarrow>
          Some (s\<lparr>nr_tx := tx,
            nr_tx_bufs := (nr_tx_bufs s)[out_msg :=
              memcpy_bytes (nr_tx_bufs s ! out_msg) msg PAYLOADSZ],
            nr_tx_idx := (nr_tx_idx s + 1) mod MBSZ\<rparr>))"

definition nrf_send :: "'m mbox_ops \<Rightarrow> bytes \<Rightarrow> 'm nrf_entry \<Rightarrow> 'm nrf_entry option" where
  "nrf_send ops msg s = map_option nrf_kick_loop (nrf_send_end ops (nrf_send_begin s) msg s)"

section \<open>The interrupt handler of the radio thread\<close>

definition irq_status :: "miso \<Rightarrow> 'm nrf_entry \<Rightarrow> u8 \<times> 'm nrf_entry" where
  "irq_status miso s =
     (let (status, tr) = nrf_get_status miso (nr_bus s) in (status, s\<lparr>nr_bus := tr\<rparr>))"

text \<open>RX data ready: blink, and drop the oldest message when the mailbox is full.\<close>

definition irq_rx_drop :: "'m mbox_ops \<Rightarrow> 'm nrf_entry \<Rightarrow> 'm nrf_entry" where
  "irq_rx_drop ops s =
     (let s = s\<lparr>nr_bus := nr_bus s @ [Blink_rf False]\<rparr>
      in if mb_free ops (nr_rx s) = 0
         then case mb_fetch ops (nr_rx s) of None \<Rightarrow> s | Some (_, rx) \<Rightarrow> s\<lparr>nr_rx := rx\<rparr>
         else s)"

text \<open>Fill the next element; the result of \<open>nrf_rx\<close> is not looked at.\<close>

definition irq_rx_fill :: "miso \<Rightarrow> 'm nrf_entry \<Rightarrow> 'm nrf_entry" where
  "irq_rx_fill miso s =
     (let (ret, buf, tr) = nrf_rx miso (nr_rx_bufs s ! nr_rx_idx s) (of_nat PAYLOADSZ) (nr_bus s)
      in s\<lparr>nr_rx_bufs := (nr_rx_bufs s)[nr_rx_idx s := buf], nr_bus := tr\<rparr>)"

definition irq_rx_post :: "'m mbox_ops \<Rightarrow> 'm nrf_entry \<Rightarrow> 'm nrf_entry" where
  "irq_rx_post ops s =
     (let s = (case mb_post ops (nr_rx s) (nr_rx_idx s) of
                 None \<Rightarrow> s | Some rx \<Rightarrow> s\<lparr>nr_rx := rx\<rparr>)
      in s\<lparr>nr_rx_idx := (nr_rx_idx s + 1) mod MBSZ\<rparr>)"

text \<open>TX data sent: blink, and back to reception if it was the last packet.\<close>

definition irq_tx_done :: "'m mbox_ops \<Rightarrow> 'm nrf_entry \<Rightarrow> 'm nrf_entry" where
  "irq_tx_done ops s =
     (let s = s\<lparr>nr_bus := nr_bus s @ [Blink_rf False]\<rparr>
      in if mb_used ops (nr_tx s) = 0
         then s\<lparr>nr_bus := nrf_rx_mode (nrf_standby (nr_bus s))\<rparr>
         else s)"

definition irq_ack :: "u8 \<Rightarrow> 'm nrf_entry \<Rightarrow> 'm nrf_entry" where
  "irq_ack status s = s\<lparr>nr_bus := nrf_write_reg STATUS status (nr_bus s)\<rparr>"

definition nrf_irq :: "'m mbox_ops \<Rightarrow> miso \<Rightarrow> 'm nrf_entry \<Rightarrow> 'm nrf_entry" where
  "nrf_irq ops miso s =
     (let (status, s) = irq_status miso s;
          s = (if status AND RX_DR \<noteq> 0
               then irq_rx_post ops (irq_rx_fill miso (irq_rx_drop ops s)) else s);
          s = (if status AND TX_DS \<noteq> 0 then irq_tx_done ops s else s)
      in irq_ack status s)"

section \<open>Transmission from the radio thread\<close>

definition check_tx_standby :: "'m nrf_entry \<Rightarrow> 'm nrf_entry" where
  "check_tx_standby s = s\<lparr>nr_bus := nrf_standby (nr_bus s)\<rparr>"

text \<open>\<open>None\<close>: nothing to fetch; the code would go on with an uninitialised pointer.\<close>

definition check_tx_fetch :: "'m mbox_ops \<Rightarrow> 'm nrf_entry \<Rightarrow> (nat \<times> 'm nrf_entry) option" where
  "check_tx_fetch ops s =
     (case mb_fetch ops (nr_tx s) of
        None \<Rightarrow> None | Some (msg, tx) \<Rightarrow> Some (msg, s\<lparr>nr_tx := tx\<rparr>))"

definition check_tx_write :: "nat \<Rightarrow> 'm nrf_entry \<Rightarrow> 'm nrf_entry" where
  "check_tx_write msg s = s\<lparr>nr_bus := nrf_tx (nr_tx_bufs s ! msg) PAYLOADSZ (nr_bus s)\<rparr>"

definition nrf_check_tx :: "'m mbox_ops \<Rightarrow> 'm nrf_entry \<Rightarrow> 'm nrf_entry option" where
  "nrf_check_tx ops s =
     (if mb_used ops (nr_tx s) \<noteq> 0
      then case check_tx_fetch ops (check_tx_standby s) of
             None \<Rightarrow> None | Some (msg, s') \<Rightarrow> Some (check_tx_write msg s')
      else Some s)"

text \<open>
  One turn of the loop of \<open>nrf_radio\<close> (\<open>chEvtWaitAny\<close> clears the flag); \<open>None\<close> where
  \<open>nrf_check_tx\<close> has no defined result. With no event pending the thread stays asleep.
\<close>

definition nrf_radio_turn :: "'m mbox_ops \<Rightarrow> miso \<Rightarrow> 'm nrf_entry \<Rightarrow> 'm nrf_entry option" where
  "nrf_radio_turn ops miso s =
     (if nr_evt s then nrf_check_tx ops (nrf_irq ops miso (s\<lparr>nr_evt := False\<rparr>)) else Some s)"

section \<open>Interleaving with the other threads\<close>

datatype radio_pc =
    Waiting | Rx_drop u8 | Rx_fill u8 | Rx_post u8 | Tx_done u8 | Ack u8
  | Check_tx | Tx_fetch | Tx_write nat

text \<open>
  \<open>rs_sender\<close> is the call of \<open>nrf_send\<close> in progress, with the buffer pointer it computed. The
  logs hold the messages \<open>nrf_send\<close> accepted, those posted by the interrupt handler and those
  \<open>nrf_recv\<close> returned, oldest first.
\<close>

record 'm radio_sys =
  rs_st :: "'m nrf_entry"
  rs_pc :: radio_pc
  rs_sender :: "(nat \<times> bytes) option"
  rs_sent :: "bytes list"
  rs_posted :: "bytes list"
  rs_received :: "bytes list"

text \<open>
  With \<open>locked\<close> the critical section of \<open>nrf_check_tx\<close> excludes the sender from the fetch until
  the payload is on the bus, as \<open>chSysLock\<close> is meant to; without it the sender may run
  whenever the thread sleeps inside the section (in \<open>chThdSleepMilliseconds\<close> and in the SPI
  calls).
\<close>

inductive radio_step :: "bool \<Rightarrow> 'm mbox_ops \<Rightarrow> 'm radio_sys \<Rightarrow> 'm radio_sys \<Rightarrow> bool"
  for locked :: bool and ops :: "'m mbox_ops" where
  wake: "rs_pc y = Waiting \<Longrightarrow> nr_evt (rs_st y) \<Longrightarrow>
     irq_status miso (rs_st y\<lparr>nr_evt := False\<rparr>) = (status, s) \<Longrightarrow>
     radio_step locked ops y (y\<lparr>rs_st := s, rs_pc := Rx_drop status\<rparr>)"
| rx_drop: "rs_pc y = Rx_drop status \<Longrightarrow> status AND RX_DR \<noteq> 0 \<Longrightarrow>
     radio_step locked ops y (y\<lparr>rs_st := irq_rx_drop ops (rs_st y), rs_pc := Rx_fill status\<rparr>)"
| rx_none: "rs_pc y = Rx_drop status \<Longrightarrow> status AND RX_DR = 0 \<Longrightarrow>
     radio_step locked ops y (y\<lparr>rs_pc := Tx_done status\<rparr>)"
| rx_fill: "rs_pc y = Rx_fill status \<Longrightarrow>
     radio_step locked ops y (y\<lparr>rs_st := irq_rx_fill miso (rs_st y), rs_pc := Rx_post status\<rparr>)"
| rx_post: "rs_pc y = Rx_post status \<Longrightarrow>
     radio_step locked ops y
       (y\<lparr>rs_st := irq_rx_post ops (rs_st y), rs_pc := Tx_done status,
          rs_posted := rs_posted y @ [nr_rx_bufs (rs_st y) ! nr_rx_idx (rs_st y)]\<rparr>)"
| tx_done: "rs_pc y = Tx_done status \<Longrightarrow>
     radio_step locked ops y
       (y\<lparr>rs_st := (if status AND TX_DS \<noteq> 0 then irq_tx_done ops (rs_st y) else rs_st y),
          rs_pc := Ack status\<rparr>)"
| ack: "rs_pc y = Ack status \<Longrightarrow>
     radio_step locked ops y (y\<lparr>rs_st := irq_ack status (rs_st y), rs_pc := Check_tx\<rparr>)"
| check_none: "rs_pc y = Check_tx \<Longrightarrow> mb_used ops (nr_tx (rs_st y)) = 0 \<Longrightarrow>
     radio_step locked ops y (y\<lparr>rs_pc := Waiting\<rparr>)"
| check: "rs_pc y = Check_tx \<Longrightarrow> mb_used ops (nr_tx (rs_st y)) \<noteq> 0 \<Longrightarrow>
     radio_step locked ops y (y\<lparr>rs_st := check_tx_standby (rs_st y), rs_pc := Tx_fetch\<rparr>)"
| tx_fetch: "rs_pc y = Tx_fetch \<Longrightarrow> check_tx_fetch ops (rs_st y) = Some (msg, s) \<Longrightarrow>
     radio_step locked ops y (y\<lparr>rs_st := s, rs_pc := Tx_write msg\<rparr>)"
| tx_write: "rs_pc y = Tx_write msg \<Longrightarrow>
     radio_step locked ops y (y\<lparr>rs_st := check_tx_write msg (rs_st y), rs_pc := Waiting\<rparr>)"
| kick: "radio_step locked ops y (y\<lparr>rs_st := nrf_kick_loop (rs_st y)\<rparr>)"
| recv: "length buf = PAYLOADSZ \<Longrightarrow> nrf_recv ops buf (rs_st y) = Some (m, s) \<Longrightarrow>
     radio_step locked ops y (y\<lparr>rs_st := s, rs_received := rs_received y @ [m]\<rparr>)"
| send_call: "rs_sender y = None \<Longrightarrow> wf_raw m \<Longrightarrow>
     radio_step locked ops y (y\<lparr>rs_sender := Some (nrf_send_begin (rs_st y), m)\<rparr>)"
| send_return: "rs_sender y = Some (out_msg, m) \<Longrightarrow>
     (\<not> locked \<or> (\<forall>i. rs_pc y \<noteq> Tx_write i)) \<Longrightarrow>
     nrf_send_end ops out_msg m (rs_st y) = Some s \<Longrightarrow>
     radio_step locked ops y
       (y\<lparr>rs_st := s, rs_sender := None, rs_sent := rs_sent y @ [m]\<rparr>)"

text \<open>After \<open>nrf_init\<close> and the configuration by the thread, before its loop.\<close>

definition radio_boot :: "'m mbox_ops \<Rightarrow> 'm nrf_entry \<Rightarrow> 'm radio_sys" where
  "radio_boot ops s =
     \<lparr>rs_st = (nrf_init ops s)\<lparr>nr_evt := False, nr_bus := nrf_radio_setup []\<rparr>,
      rs_pc = Waiting, rs_sender = None, rs_sent = [], rs_posted = [], rs_received = []\<rparr>"

inductive radio_reach :: "bool \<Rightarrow> 'm mbox_ops \<Rightarrow> 'm radio_sys \<Rightarrow> 'm radio_sys \<Rightarrow> bool"
  for locked ops y0 where
  start: "radio_reach locked ops y0 y0"
| step: "radio_reach locked ops y0 y \<Longrightarrow> radio_step locked ops y z \<Longrightarrow> radio_reach locked ops y0 z"

inductive_cases radio_stepE: "radio_step locked ops y z"

end
