(* ===== verification/Httpd.thy ===== *)
theory Httpd
  imports Data_Report Net_Stream Nrf_Queues
begin

text \<open>
  The web server of \<^verbatim>\<open>firmware/net/httpd.c\<close>: the handlers of its paths, the request parser of
  \<open>httpd_process\<close> and the accept loop. The received segment is a list of bytes and a pointer
  into it an offset; an access outside the segment is the value \<open>Out_of_buffer\<close>, since what
  such an access reads or overwrites is not determined by the program. Lengths are kept at
  their widths (\<open>uint16_t\<close> for \<open>len\<close>, 32-bit \<open>size_t\<close> in the loop bounds), so the wrap-around
  of the bounds is the code's.
\<close>

section \<open>State and results\<close>

datatype stop = Out_of_buffer nat | Wait_nrf_send

text \<open>What the server works on: its stream, the radio queues and the sensor table.\<close>

record 'm http_sys =
  hs_net :: net_seq_stream
  hs_nrf :: "'m nrf_entry"
  hs_tbl :: data_table

definition net_print :: "printf \<Rightarrow> 'm http_sys \<Rightarrow> string \<Rightarrow> parg list \<Rightarrow> 'm http_sys" where
  "net_print pf sys fmt args = sys\<lparr>hs_net := chprintf pf net_put (hs_net sys) fmt args\<rparr>"

definition crlf :: string where
  "crlf = [CHR 0x0D, CHR 0x0A]"

section \<open>Literals\<close>

definition HTTP_GET :: bytes where "HTTP_GET = str ''GET ''"
definition HTTP_POST :: bytes where "HTTP_POST = str ''POST ''"
definition HTTP_VER :: bytes where "HTTP_VER = str ('' HTTP/1.1'' @ crlf)"
definition HTTP_BREAK :: bytes where "HTTP_BREAK = str (crlf @ crlf)"

section \<open>C string comparison\<close>

text \<open>
  \<open>prefix_eq s mem p\<close> is the outcome of comparing the bytes \<open>s\<close> with memory from offset \<open>p\<close>,
  byte by byte until a difference: \<open>strncmp(s, mem + p, strlen(s)) == 0\<close>, and with the
  terminating NUL included in \<open>s\<close>, \<open>strcmp(s, mem + p) == 0\<close>.
\<close>

fun prefix_eq :: "bytes \<Rightarrow> bytes \<Rightarrow> nat \<Rightarrow> stop + bool" where
  "prefix_eq [] mem p = Inr True"
| "prefix_eq (c # cs) mem p =
     (if p < length mem
      then if mem ! p = c then prefix_eq cs mem (p + 1) else Inr False
      else Inl (Out_of_buffer p))"

section \<open>Hexadecimal digits\<close>

definition nibble_valid :: "u8 \<Rightarrow> bool" where
  "nibble_valid ch \<longleftrightarrow> (ch \<ge> 0x30 \<and> ch \<le> 0x39) \<or> (ch \<ge> 0x61 \<and> ch \<le> 0x66)
     \<or> (ch \<ge> 0x41 \<and> ch \<le> 0x46)"

definition get_nibble :: "u8 \<Rightarrow> u8" where
  "get_nibble ch =
     (if ch \<ge> 0x30 \<and> ch \<le> 0x39 then ch - 0x30
      else if ch \<ge> 0x61 \<and> ch \<le> 0x7A then ch - 0x61 + 10
      else if ch \<ge> 0x41 \<and> ch \<le> 0x5A then ch - 0x41 + 10
      else 0)"

section \<open>Paths\<close>

datatype handler = Path_root | Path_raw | Path_json | Path_sendraw

definition paths :: "(string \<times> handler) list" where
  "paths = [(''/'', Path_root), (''/raw'', Path_raw), (''/json'', Path_json), (''/sendraw'', Path_sendraw)]"

definition path_root :: "printf \<Rightarrow> 'm http_sys \<Rightarrow> 'm http_sys" where
  "path_root pf sys =
     (let sys = net_print pf sys (''HTTP/1.1 200 OK'' @ crlf @ ''Content-type: text/html'' @ crlf @ crlf) [];
          sys = net_print pf sys ''<html><head><title>Available paths</title></head><body>'' [];
          sys = foldl (\<lambda>sys (path, h).
                  net_print pf sys (''<a href='' @ quote ''%s'' @ ''>%s</a><br />'')
                    [PStr (str path), PStr (str path)]) sys paths
      in net_print pf sys ''<body></html>'' [])"

definition path_raw :: "printf \<Rightarrow> 'm http_sys \<Rightarrow> 'm http_sys" where
  "path_raw pf sys =
     (let sys = net_print pf sys (''HTTP/1.1 200 OK'' @ crlf @ ''Content-type: text/plain'' @ crlf @ crlf) []
      in sys\<lparr>hs_net := data_dump pf net_put (hs_tbl sys) (hs_net sys)\<rparr>)"

definition path_json :: "printf \<Rightarrow> u32 \<Rightarrow> 'm http_sys \<Rightarrow> 'm http_sys" where
  "path_json pf now sys =
     (let sys = net_print pf sys
            (''HTTP/1.1 200 OK'' @ crlf @ ''Content-type: application/json'' @ crlf @ crlf) []
      in sys\<lparr>hs_net := data_json pf net_put now (hs_tbl sys) (hs_net sys)\<rparr>)"

definition path_notfound :: "printf \<Rightarrow> 'm http_sys \<Rightarrow> 'm http_sys" where
  "path_notfound pf sys =
     (let sys = net_print pf sys (''HTTP/1.1 404 Not Found'' @ crlf @ crlf) []
      in net_print pf sys
           (''<html><head><title>404 - Not Found</title></head>''
            @ ''<body><h1>404 - Not Found</h1></body></html>'') [])"

text \<open>The decoding loop of \<open>path_sendraw\<close>; \<open>Inr None\<close> is the jump to \<open>out\<close>.\<close>

fun sendraw_loop :: "bytes \<Rightarrow> nat \<Rightarrow> bytes \<Rightarrow> nat \<Rightarrow> nat \<Rightarrow> stop + bytes option" where
  "sendraw_loop mem data msg i 0 = Inr (Some msg)"
| "sendraw_loop mem data msg i (Suc n) =
     (if data + i * 2 \<ge> length mem then Inl (Out_of_buffer (data + i * 2))
      else if \<not> nibble_valid (mem ! (data + i * 2)) then Inr None
      else if data + i * 2 + 1 \<ge> length mem then Inl (Out_of_buffer (data + i * 2 + 1))
      else if \<not> nibble_valid (mem ! (data + i * 2 + 1)) then Inr None
      else sendraw_loop mem data
        (msg[i := push_bit 4 (get_nibble (mem ! (data + i * 2))) OR get_nibble (mem ! (data + i * 2 + 1))])
        (i + 1) n)"

text \<open>\<open>msg\<close> is the uninitialised local array of the function.\<close>

definition path_sendraw ::
    "printf \<Rightarrow> 'm mbox_ops \<Rightarrow> bytes \<Rightarrow> bytes \<Rightarrow> nat \<Rightarrow> u32 \<Rightarrow> 'm http_sys \<Rightarrow> stop + 'm http_sys" where
  "path_sendraw pf ops msg mem data dlen sys =
     (let sys = net_print pf sys (''HTTP/1.1 200 OK'' @ crlf @ ''Content-type: text/plain'' @ crlf @ crlf) []
      in if dlen \<noteq> of_nat (PAYLOADSZ * 2) then Inr (net_print pf sys (''ERR'' @ crlf) [])
         else case sendraw_loop mem data msg 0 PAYLOADSZ of
           Inl f \<Rightarrow> Inl f
         | Inr None \<Rightarrow> Inr (net_print pf sys (''ERR'' @ crlf) [])
         | Inr (Some msg) \<Rightarrow>
             (case nrf_send ops msg (hs_nrf sys) of
                None \<Rightarrow> Inl Wait_nrf_send
              | Some nrf \<Rightarrow> Inr (net_print pf (sys\<lparr>hs_nrf := nrf\<rparr>) (''OK'' @ crlf) [])))"

section \<open>The request parser\<close>

text \<open>The method: offset of the URL and remaining length, or \<open>None\<close> for the jump to \<open>bailout\<close>.\<close>

definition cut_method :: "bytes \<Rightarrow> u16 \<Rightarrow> stop + (nat \<times> u16) option" where
  "cut_method buf len =
     (let post = (if unat len > length HTTP_POST
            then (case prefix_eq HTTP_POST buf 0 of
                    Inl f \<Rightarrow> Inl f
                  | Inr True \<Rightarrow> Inr (Some (length HTTP_POST, len - of_nat (length HTTP_POST)))
                  | Inr False \<Rightarrow> Inr None)
            else Inr None)
      in if unat len > length HTTP_GET
         then (case prefix_eq HTTP_GET buf 0 of
                 Inl f \<Rightarrow> Inl f
               | Inr True \<Rightarrow> Inr (Some (length HTTP_GET, len - of_nat (length HTTP_GET)))
               | Inr False \<Rightarrow> post)
         else post)"

text \<open>
  The loop that looks for the HTTP version: the final \<open>i\<close> and the memory with the URL
  terminated. The comparison of \<open>i\<close> is unsigned with 32 bits; \<open>bound\<close> is the value of
  \<open>len - strlen(HTTP_VER)\<close>.
\<close>

function find_ver :: "bytes \<Rightarrow> nat \<Rightarrow> u32 \<Rightarrow> nat \<Rightarrow> stop + (nat \<times> bytes) option" where
  "find_ver mem url bound i =
     (if i < unat bound then
        if url + i \<ge> length mem then Inl (Out_of_buffer (url + i))
        else if mem ! (url + i) < 0x20 \<or> mem ! (url + i) > 0x7E then Inr None
        else case prefix_eq HTTP_VER mem (url + i) of
          Inl f \<Rightarrow> Inl f
        | Inr True \<Rightarrow> Inr (Some (i, mem[url + i := 0]))
        | Inr False \<Rightarrow> find_ver mem url bound (i + 1)
      else Inr (Some (i, mem)))"
  by pat_completeness auto
termination by (relation "measure (\<lambda>(mem, url, bound, i). unat bound - i)") auto

text \<open>The loop that looks for the end of the headers.\<close>

function find_break :: "bytes \<Rightarrow> nat \<Rightarrow> u32 \<Rightarrow> nat \<Rightarrow> stop + (nat \<times> bytes) option" where
  "find_break mem hdr bound i =
     (if i < unat bound then
        if hdr + i \<ge> length mem then Inl (Out_of_buffer (hdr + i))
        else if (mem ! (hdr + i) < 0x20 \<or> mem ! (hdr + i) > 0x7E)
              \<and> mem ! (hdr + i) \<noteq> 0x0D \<and> mem ! (hdr + i) \<noteq> 0x0A then Inr None
        else case prefix_eq HTTP_BREAK mem (hdr + i) of
          Inl f \<Rightarrow> Inl f
        | Inr True \<Rightarrow> Inr (Some (i, mem[hdr + i := 0]))
        | Inr False \<Rightarrow> find_break mem hdr bound (i + 1)
      else Inr (Some (i, mem)))"
  by pat_completeness auto
termination by (relation "measure (\<lambda>(mem, hdr, bound, i). unat bound - i)") auto

declare find_ver.simps [simp del] find_break.simps [simp del]

text \<open>Lines 211 to 251: the URL, the memory with its NULs, the data pointer and its length.\<close>

definition parse_request :: "bytes \<Rightarrow> stop + (nat \<times> bytes \<times> nat \<times> u32) option" where
  "parse_request buf =
     (case cut_method buf (of_nat (length buf)) of
        Inl f \<Rightarrow> Inl f
      | Inr None \<Rightarrow> Inr None
      | Inr (Some (url, len)) \<Rightarrow>
          (case find_ver buf url (ucast len - of_nat (length HTTP_VER)) 0 of
             Inl f \<Rightarrow> Inl f
           | Inr None \<Rightarrow> Inr None
           | Inr (Some (i, mem)) \<Rightarrow>
               (let hdr = url + i + length HTTP_VER;
                    dlen = (ucast len - of_nat i - of_nat (length HTTP_VER) :: u32)
                in case find_break mem hdr (ucast len - of_nat (length HTTP_BREAK)) 0 of
                     Inl f \<Rightarrow> Inl f
                   | Inr None \<Rightarrow> Inr None
                   | Inr (Some (i, mem)) \<Rightarrow>
                       Inr (Some (url, mem, hdr + i + length HTTP_BREAK,
                                  dlen - of_nat i - of_nat (length HTTP_BREAK))))))"

text \<open>The search of the path table; \<open>Inr None\<close> is its end.\<close>

fun find_path :: "(string \<times> handler) list \<Rightarrow> bytes \<Rightarrow> nat \<Rightarrow> stop + handler option" where
  "find_path [] mem url = Inr None"
| "find_path ((p, h) # ps) mem url =
     (case prefix_eq (str p @ [0]) mem url of
        Inl f \<Rightarrow> Inl f
      | Inr True \<Rightarrow> Inr (Some h)
      | Inr False \<Rightarrow> find_path ps mem url)"

definition run_handler ::
    "printf \<Rightarrow> 'm mbox_ops \<Rightarrow> u32 \<Rightarrow> bytes \<Rightarrow> handler option \<Rightarrow> bytes \<Rightarrow> nat \<Rightarrow> u32 \<Rightarrow> 'm http_sys \<Rightarrow>
     stop + 'm http_sys" where
  "run_handler pf ops now msg h mem data dlen sys =
     (case h of
        Some Path_root \<Rightarrow> Inr (path_root pf sys)
      | Some Path_raw \<Rightarrow> Inr (path_raw pf sys)
      | Some Path_json \<Rightarrow> Inr (path_json pf now sys)
      | Some Path_sendraw \<Rightarrow> path_sendraw pf ops msg mem data dlen sys
      | None \<Rightarrow> Inr (path_notfound pf sys))"

section \<open>The server\<close>

definition sys_call :: "net_call \<Rightarrow> 'm http_sys \<Rightarrow> 'm http_sys" where
  "sys_call e sys = sys\<lparr>hs_net := net_call e (hs_net sys)\<rparr>"

definition http_bailout :: "netconn \<Rightarrow> 'm http_sys \<Rightarrow> 'm http_sys" where
  "http_bailout nc sys = sys_call Netbuf_delete (sys_call (Netconn_close nc) sys)"

text \<open>\<open>received\<close> is what \<open>netconn_recv\<close> and \<open>netbuf_data\<close> give: \<open>None\<close> on an error.\<close>

definition httpd_process ::
    "printf \<Rightarrow> 'm mbox_ops \<Rightarrow> u32 \<Rightarrow> bytes \<Rightarrow> netconn \<Rightarrow> bytes option \<Rightarrow> 'm http_sys \<Rightarrow> stop + 'm http_sys" where
  "httpd_process pf ops now msg nc received sys =
     (case received of
        None \<Rightarrow> Inr (http_bailout nc sys)
      | Some buf \<Rightarrow>
          (case parse_request buf of
             Inl f \<Rightarrow> Inl f
           | Inr None \<Rightarrow> Inr (http_bailout nc sys)
           | Inr (Some (url, mem, data, dlen)) \<Rightarrow>
               (let sys = sys_call Blink_red sys
                in case find_path paths mem url of
                     Inl f \<Rightarrow> Inl f
                   | Inr h \<Rightarrow>
                       (case run_handler pf ops now msg h mem data dlen
                               (sys\<lparr>hs_net := net_open nc (hs_net sys)\<rparr>) of
                          Inl f \<Rightarrow> Inl f
                        | Inr sys \<Rightarrow>
                            (let sys = sys_call Netbuf_delete sys;
                                 sys = sys\<lparr>hs_net := net_finalize (hs_net sys)\<rparr>
                             in Inr (sys_call (Netconn_close nc) sys))))))"

text \<open>One turn of the loop of \<open>httpd_loop\<close>; \<open>accepted\<close> is \<open>None\<close> when \<open>netconn_accept\<close> fails.\<close>

definition httpd_turn ::
    "printf \<Rightarrow> 'm mbox_ops \<Rightarrow> u32 \<Rightarrow> bytes \<Rightarrow> (netconn \<times> bytes option) option \<Rightarrow> 'm http_sys \<Rightarrow>
     stop + 'm http_sys" where
  "httpd_turn pf ops now msg accepted sys =
     (case accepted of
        None \<Rightarrow> Inr sys
      | Some (nc, received) \<Rightarrow>
          (case httpd_process pf ops now msg nc received (sys_call (Netconn_accepted nc) sys) of
             Inl f \<Rightarrow> Inl f
           | Inr sys \<Rightarrow> Inr (sys_call (Netconn_delete nc) sys)))"

text \<open>
  The thread \<open>httpd_loop\<close>. Its loop has no exit; the model runs it over the turns of a finite
  history. Before each turn the other threads may have changed the sensor table and the
  radio, so a turn carries both, with the time, the old contents of the message buffer and what
  \<open>netconn_accept\<close> gave.
\<close>

record 'm http_turn =
  ht_now :: u32
  ht_msg :: bytes
  ht_tbl :: data_table
  ht_nrf :: "'m nrf_entry"
  ht_accepted :: "(netconn \<times> bytes option) option"

fun httpd_serve ::
    "printf \<Rightarrow> 'm mbox_ops \<Rightarrow> 'm http_turn list \<Rightarrow> 'm http_sys \<Rightarrow> stop + 'm http_sys" where
  "httpd_serve pf ops [] sys = Inr sys"
| "httpd_serve pf ops (t # ts) sys =
     (case httpd_turn pf ops (ht_now t) (ht_msg t) (ht_accepted t)
             (sys\<lparr>hs_tbl := ht_tbl t, hs_nrf := ht_nrf t\<rparr>) of
        Inl f \<Rightarrow> Inl f
      | Inr sys \<Rightarrow> httpd_serve pf ops ts sys)"

definition HTTPD_PORT :: nat where
  "HTTPD_PORT = 80"

text \<open>
  \<open>new\<close> is the result of \<open>netconn_new\<close>. The first component is the value returned, \<open>None\<close> while the
  loop runs.
\<close>

definition httpd_loop ::
    "printf \<Rightarrow> 'm mbox_ops \<Rightarrow> netconn option \<Rightarrow> 'm http_turn list \<Rightarrow> 'm http_sys \<Rightarrow>
     stop + nat option \<times> 'm http_sys" where
  "httpd_loop pf ops new ts sys =
     (case new of
        None \<Rightarrow> Inr (Some 1, sys)
      | Some nc \<Rightarrow>
          (let sys = sys_call (Netconn_new nc) sys;
               sys = sys_call (Netconn_bind nc HTTPD_PORT) sys;
               sys = sys_call (Netconn_listen nc) sys
           in case httpd_serve pf ops ts sys of
                Inl f \<Rightarrow> Inl f
              | Inr sys \<Rightarrow> Inr (None, sys)))"

end
