(* ===== verification/Httpd_Parse.thy ===== *)
theory Httpd_Parse
  imports Httpd
begin

text \<open>
  The request parser of \<^verbatim>\<open>firmware/net/httpd.c\<close> against a grammar of requests: it accepts
  exactly the segments of the grammar, with the offsets the grammar gives, and what happens
  outside of it.
\<close>

section \<open>Both loops are one scan\<close>

definition match_at :: "bytes \<Rightarrow> bytes \<Rightarrow> nat \<Rightarrow> bool" where
  "match_at pat mem p \<longleftrightarrow> take (length pat) (drop p mem) = pat"

lemma match_at_bound: "match_at pat mem p \<Longrightarrow> pat \<noteq> [] \<Longrightarrow> p + length pat \<le> length mem"
  unfolding match_at_def by (drule arg_cong [where f = length]) (cases pat; simp add: min_def split: if_splits)

lemma match_at_Cons:
  "match_at (c # cs) mem p \<longleftrightarrow> p < length mem \<and> mem ! p = c \<and> match_at cs mem (Suc p)"
proof (cases "p < length mem")
  case True
  then have "drop p mem = mem ! p # drop (Suc p) mem" by (simp add: Cons_nth_drop_Suc)
  then show ?thesis using True by (simp add: match_at_def)
qed (simp add: match_at_def)

lemma match_at_Nil [simp]: "match_at [] mem p"
  by (simp add: match_at_def)

lemma match_at_append [simp]: "match_at pat (pre @ pat @ post) (length pre)"
  by (simp add: match_at_def)

lemma prefix_eq_True: "prefix_eq s mem p = Inr True \<longleftrightarrow> match_at s mem p"
  by (induction s arbitrary: p) (auto simp: match_at_Cons)

lemma prefix_eq_False: "prefix_eq s mem p = Inr False \<Longrightarrow> \<not> match_at s mem p"
  using prefix_eq_True [of s mem p] by auto

lemma prefix_eq_total: "p + length s \<le> length mem \<Longrightarrow> prefix_eq s mem p = Inr (match_at s mem p)"
  by (induction s arbitrary: p) (auto simp: match_at_Cons)

lemma prefix_eq_other:
  "p < length mem \<Longrightarrow> mem ! p \<noteq> c \<Longrightarrow> prefix_eq (c # cs) mem p = Inr False"
  by simp

function scan :: "(u8 \<Rightarrow> bool) \<Rightarrow> bytes \<Rightarrow> bytes \<Rightarrow> nat \<Rightarrow> nat \<Rightarrow> nat \<Rightarrow> stop + (nat \<times> bytes) option" where
  "scan ok pat mem base n i =
     (if i < n then
        if base + i \<ge> length mem then Inl (Out_of_buffer (base + i))
        else if \<not> ok (mem ! (base + i)) then Inr None
        else case prefix_eq pat mem (base + i) of
          Inl f \<Rightarrow> Inl f
        | Inr True \<Rightarrow> Inr (Some (i, mem[base + i := 0]))
        | Inr False \<Rightarrow> scan ok pat mem base n (i + 1)
      else Inr (Some (i, mem)))"
  by pat_completeness auto
termination by (relation "measure (\<lambda>(ok, pat, mem, base, n, i). n - i)") auto

declare scan.simps [simp del]

definition url_char :: "u8 \<Rightarrow> bool" where
  "url_char c \<longleftrightarrow> 0x20 \<le> c \<and> c \<le> 0x7E"

definition hdr_char :: "u8 \<Rightarrow> bool" where
  "hdr_char c \<longleftrightarrow> url_char c \<or> c = 0x0D \<or> c = 0x0A"

lemma not_url_char: "c < 0x20 \<or> c > 0x7E \<longleftrightarrow> \<not> url_char c"
  by (auto simp: url_char_def)

lemma not_hdr_char: "\<not> url_char c \<and> c \<noteq> 0x0D \<and> c \<noteq> 0x0A \<longleftrightarrow> \<not> hdr_char c"
  by (auto simp: hdr_char_def)

lemma find_ver_scan: "find_ver mem url bound i = scan url_char HTTP_VER mem url (unat bound) i"
proof (induction "unat bound - i" arbitrary: i)
  case 0
  then show ?case by (subst find_ver.simps, subst scan.simps) simp
next
  case (Suc d)
  then have "find_ver mem url bound (i + 1) = scan url_char HTTP_VER mem url (unat bound) (i + 1)" by simp
  then show ?case by (subst find_ver.simps, subst scan.simps) (simp only: not_url_char)
qed

lemma find_break_scan: "find_break mem hdr bound i = scan hdr_char HTTP_BREAK mem hdr (unat bound) i"
proof (induction "unat bound - i" arbitrary: i)
  case 0
  then show ?case by (subst find_break.simps, subst scan.simps) simp
next
  case (Suc d)
  then have "find_break mem hdr bound (i + 1) = scan hdr_char HTTP_BREAK mem hdr (unat bound) (i + 1)" by simp
  then show ?case by (subst find_break.simps, subst scan.simps) (simp only: not_url_char not_hdr_char)
qed

section \<open>The scan\<close>

lemma scan_found:
  assumes "k < n" "match_at pat mem (base + k)" "pat \<noteq> []" "ok (mem ! (base + k))"
    and "\<forall>j<k. ok (mem ! (base + j)) \<and> \<not> match_at pat mem (base + j)"
    and "i \<le> k"
  shows "scan ok pat mem base n i = Inr (Some (k, mem[base + k := 0]))"
  using assms(6)
proof (induction "k - i" arbitrary: i)
  case 0
  have "base + k < length mem" using match_at_bound [OF assms(2,3)] assms(3) by (cases pat) auto
  then show ?case using 0 assms by (subst scan.simps) (simp add: prefix_eq_True [THEN iffD2])
next
  case (Suc d)
  then have lt: "i < k" by simp
  have "base + i + length pat \<le> length mem"
    using match_at_bound [OF assms(2,3)] lt by simp
  moreover from this have "base + i < length mem" using assms(3) by (cases pat) auto
  ultimately show ?case
    using Suc.hyps(1) [of "i + 1"] Suc.hyps(2) lt assms(1,5)
    by (subst scan.simps) (simp add: prefix_eq_total)
qed

lemma scan_result:
  assumes "scan ok pat mem base n i = Inr (Some (k, mem'))"
  shows "i \<le> k \<and> (\<forall>j. i \<le> j \<and> j < k \<longrightarrow>
      base + j < length mem \<and> ok (mem ! (base + j)) \<and> \<not> match_at pat mem (base + j))
    \<and> (k < n \<and> ok (mem ! (base + k)) \<and> match_at pat mem (base + k) \<and> mem' = mem[base + k := 0]
       \<or> n \<le> k \<and> mem' = mem)"
  using assms
proof (induction "n - i" arbitrary: i)
  case 0
  then show ?case by (subst (asm) scan.simps) auto
next
  case (Suc d)
  then have lt: "i < n" by simp
  show ?case
  proof (cases "base + i < length mem \<and> ok (mem ! (base + i)) \<and> prefix_eq pat mem (base + i) = Inr False")
    case True
    have "scan ok pat mem base n (Suc i) = Inr (Some (k, mem'))"
      using Suc.prems lt True by (subst (asm) scan.simps) simp
    then have IH: "Suc i \<le> k \<and> (\<forall>j. Suc i \<le> j \<and> j < k \<longrightarrow>
        base + j < length mem \<and> ok (mem ! (base + j)) \<and> \<not> match_at pat mem (base + j))
      \<and> (k < n \<and> ok (mem ! (base + k)) \<and> match_at pat mem (base + k) \<and> mem' = mem[base + k := 0]
         \<or> n \<le> k \<and> mem' = mem)"
      by (rule Suc.hyps(1) [rotated]) (use Suc.hyps(2) in simp)
    moreover have "base + j < length mem \<and> ok (mem ! (base + j)) \<and> \<not> match_at pat mem (base + j)"
      if "i \<le> j \<and> j < k" for j
      using IH True that prefix_eq_False by (cases "j = i") auto
    ultimately show ?thesis by (metis Suc_leD)
  next
    case False
    then show ?thesis
      using Suc.prems lt
      by (subst (asm) scan.simps) (auto simp: prefix_eq_True split: if_splits sum.splits bool.splits)
  qed
qed

text \<open>Nothing to find: the scan leaves the buffer when its bound allows it.\<close>

lemma prefix_eq_fault:
  "prefix_eq pat mem p = Inl f \<Longrightarrow> p \<le> length mem \<Longrightarrow> f = Out_of_buffer (length mem)"
  by (induction pat arbitrary: p) (auto split: if_splits)

lemma scan_overrun:
  assumes "\<forall>j. i \<le> j \<and> base + j < length mem \<longrightarrow> ok (mem ! (base + j)) \<and> \<not> match_at pat mem (base + j)"
    and "length mem < base + n" "base + i \<le> length mem"
  shows "scan ok pat mem base n i = Inl (Out_of_buffer (length mem))"
  using assms(1,3)
proof (induction "length mem - (base + i)" arbitrary: i)
  case 0
  then show ?case using assms(2) by (subst scan.simps) simp
next
  case (Suc d)
  then have lt: "base + i < length mem" "i < n" using assms(2) by simp_all
  have "ok (mem ! (base + i)) \<and> \<not> match_at pat mem (base + i)" using Suc.prems lt(1) by simp
  moreover have "scan ok pat mem base n (i + 1) = Inl (Out_of_buffer (length mem))"
    by (rule Suc.hyps(1)) (use Suc.hyps(2) Suc.prems lt in auto)
  ultimately show ?case
    using lt prefix_eq_True [of pat mem "base + i"] prefix_eq_fault [of pat mem "base + i"]
    by (subst scan.simps) (auto split: sum.split bool.split)
qed

section \<open>The grammar of requests\<close>

text \<open>
  A request segment: a method, a URL of printable characters up to the first HTTP version
  mark, headers of printable characters and line ends up to the first empty line, a body.
\<close>

definition url_ok :: "bytes \<Rightarrow> bool" where
  "url_ok u \<longleftrightarrow> list_all url_char u \<and> (\<forall>i<length u. \<not> match_at HTTP_VER (u @ HTTP_VER) i)"

definition hdr_ok :: "bytes \<Rightarrow> bool" where
  "hdr_ok h \<longleftrightarrow> list_all hdr_char h \<and> (\<forall>i<length h. \<not> match_at HTTP_BREAK (h @ HTTP_BREAK) i)"

definition wf_parts :: "bytes \<Rightarrow> bytes \<Rightarrow> bytes \<Rightarrow> bool" where
  "wf_parts m u h \<longleftrightarrow> (m = HTTP_GET \<or> m = HTTP_POST) \<and> url_ok u \<and> hdr_ok h"

definition segment :: "bytes \<Rightarrow> bytes \<Rightarrow> bytes \<Rightarrow> bytes \<Rightarrow> bytes" where
  "segment m u h b = m @ u @ HTTP_VER @ h @ HTTP_BREAK @ b"

text \<open>The segment after the parser has put its two NULs.\<close>

definition cut_segment :: "bytes \<Rightarrow> bytes \<Rightarrow> bytes \<Rightarrow> bytes \<Rightarrow> bytes" where
  "cut_segment m u h b = m @ u @ 0 # tl HTTP_VER @ h @ 0 # tl HTTP_BREAK @ b"

lemma lit_lengths [simp]:
  "length HTTP_GET = 4" "length HTTP_POST = 5" "length HTTP_VER = 11" "length HTTP_BREAK = 4"
  by (simp_all add: HTTP_GET_def HTTP_POST_def HTTP_VER_def HTTP_BREAK_def crlf_def)

lemma lit_nonempty [simp]: "HTTP_VER \<noteq> []" "HTTP_BREAK \<noteq> []"
  using lit_lengths by (metis list.size(3) zero_neq_numeral)+

lemma lit_heads: "url_char (HTTP_VER ! 0)" "hdr_char (HTTP_BREAK ! 0)"
  by (simp_all add: HTTP_VER_def HTTP_BREAK_def str_def crlf_def url_char_def hdr_char_def)

lemma match_at_local: "i + length pat \<le> length x \<Longrightarrow> match_at pat (x @ y) i \<longleftrightarrow> match_at pat x i"
  by (simp add: match_at_def)

lemma match_at_shift [simp]: "match_at pat (x @ y) (length x + i) \<longleftrightarrow> match_at pat y i"
  by (simp add: match_at_def)

lemma match_at_split:
  assumes "match_at pat mem p" "pat \<noteq> []"
  shows "mem = take p mem @ pat @ drop (p + length pat) mem" "length (take p mem) = p"
proof -
  have "drop p mem = take (length pat) (drop p mem) @ drop (length pat) (drop p mem)"
    by (rule append_take_drop_id [symmetric])
  then show "mem = take p mem @ pat @ drop (p + length pat) mem"
    using assms(1) by (metis append_take_drop_id drop_drop add.commute match_at_def)
  show "length (take p mem) = p" using match_at_bound [OF assms] by simp
qed

text \<open>Texts without blanks, and headers of one line, are in the grammar.\<close>

lemma ver_start: "match_at HTTP_VER x i \<Longrightarrow> i < length x \<and> x ! i = 0x20"
  by (simp add: HTTP_VER_def str_def match_at_Cons)

lemma break_start: "match_at HTTP_BREAK x i \<Longrightarrow> i < length x \<and> x ! i = 0x0D"
  by (simp add: HTTP_BREAK_def str_def crlf_def match_at_Cons)

lemma url_ok_plain: "list_all (\<lambda>c. url_char c \<and> c \<noteq> 0x20) u \<Longrightarrow> url_ok u"
  by (auto simp: url_ok_def list_all_length nth_append dest!: ver_start)

lemma hdr_ok_plain: "list_all url_char h \<Longrightarrow> hdr_ok h"
  by (auto simp: hdr_ok_def list_all_length nth_append hdr_char_def url_char_def dest!: break_start)

text \<open>The two scans on a text \<open>t @ pat @ r\<close>.\<close>

lemma scan_text:
  assumes "list_all ok t" "\<forall>i<length t. \<not> match_at pat (t @ pat) i" "pat \<noteq> []" "ok (pat ! 0)"
    and "length t < n"
  shows "scan ok pat (pre @ t @ pat @ r) (length pre) n 0
    = Inr (Some (length t, pre @ t @ 0 # tl pat @ r))"
proof -
  let ?mem = "pre @ t @ pat @ r"
  have "\<not> match_at pat ?mem (length pre + j) \<and> ok (?mem ! (length pre + j))" if "j < length t" for j
  proof -
    have "match_at pat ((t @ pat) @ r) j \<longleftrightarrow> match_at pat (t @ pat) j"
      using that by (intro match_at_local) simp
    then show ?thesis using assms(1,2) that by (simp add: nth_append list_all_length)
  qed
  moreover have "match_at pat ?mem (length pre + length t)" by (simp add: match_at_def)
  moreover have "ok (?mem ! (length pre + length t))" using assms(3,4) by (simp add: nth_append)
  ultimately have "scan ok pat ?mem (length pre) n 0
      = Inr (Some (length t, ?mem[length pre + length t := 0]))"
    using assms(3,5) by (intro scan_found) auto
  also have "?mem[length pre + length t := 0] = pre @ t @ 0 # tl pat @ r"
    using assms(3) by (cases pat) (simp_all add: list_update_append)
  finally show ?thesis .
qed

section \<open>Lengths\<close>

lemma len_minus: "k \<le> n \<Longrightarrow> (of_nat n - of_nat k :: 'a::len word) = of_nat (n - k)"
  by (simp add: of_nat_diff)

lemma unat_len: "n < 65536 \<Longrightarrow> unat (of_nat n :: u16) = n" "n < 65536 \<Longrightarrow> unat (of_nat n :: u32) = n"
  by (simp_all add: unat_of_nat)

lemma ucast_len: "n < 65536 \<Longrightarrow> (ucast (of_nat n :: u16) :: u32) = of_nat n"
  by (metis of_nat_unat unat_len(1))

lemma cut_method_ok:
  assumes "m = HTTP_GET \<or> m = HTTP_POST" "x \<noteq> []" "length (m @ x) < 65536"
  shows "cut_method (m @ x) (of_nat (length (m @ x))) = Inr (Some (length m, of_nat (length x)))"
proof -
  have a: "prefix_eq m (m @ x) 0 = Inr True"
    using prefix_eq_total [of 0 m "m @ x"] match_at_append [of m "[]" x] by simp
  have b: "prefix_eq HTTP_GET (HTTP_POST @ x) 0 = Inr False"
    by (simp add: HTTP_GET_def HTTP_POST_def str_def)
  have "(of_nat (length (m @ x)) - of_nat (length m) :: u16) = of_nat (length x)"
    by simp
  then show ?thesis
    using assms a b unat_len(1) [of "length (m @ x)"] by (auto simp: cut_method_def Let_def)
qed

section \<open>The parser accepts the grammar\<close>

lemma len_minus_u32: "k \<le> n \<Longrightarrow> n < 65536 \<Longrightarrow> unat (of_nat n - of_nat k :: u32) = n - k"
  by (subst len_minus) (simp_all add: unat_len del: of_nat_diff)

lemma ver_scan_ok:
  assumes "wf_parts m u h" "length (segment m u h b) < 65536"
  shows "find_ver (segment m u h b) (length m)
      (of_nat (length (segment m u h b) - length m) - of_nat (length HTTP_VER)) 0
    = Inr (Some (length u, m @ u @ 0 # tl HTTP_VER @ h @ HTTP_BREAK @ b))"
proof -
  let ?n = "length (segment m u h b) - length m"
  have n: "unat (of_nat ?n - of_nat (length HTTP_VER) :: u32) = ?n - length HTTP_VER"
    using assms(2) by (intro len_minus_u32) (simp_all add: segment_def)
  show ?thesis
    unfolding find_ver_scan n unfolding segment_def
    by (rule scan_text) (use assms(1) lit_heads in \<open>simp_all add: wf_parts_def url_ok_def\<close>)
qed

lemma break_scan_ok:
  assumes "wf_parts m u h" "length (segment m u h b) < 65536"
  shows "find_break (m @ u @ 0 # tl HTTP_VER @ h @ HTTP_BREAK @ b) (length m + length u + length HTTP_VER)
      (of_nat (length (segment m u h b) - length m) - of_nat (length HTTP_BREAK)) 0
    = Inr (Some (length h, cut_segment m u h b))"
proof -
  let ?n = "length (segment m u h b) - length m" and ?pre = "m @ u @ 0 # tl HTTP_VER"
  have n: "unat (of_nat ?n - of_nat (length HTTP_BREAK) :: u32) = ?n - length HTTP_BREAK"
    using assms(2) by (intro len_minus_u32) (simp_all add: segment_def)
  have l: "length m + length u + length HTTP_VER = length ?pre" by simp
  have "scan hdr_char HTTP_BREAK (?pre @ h @ HTTP_BREAK @ b) (length ?pre) (?n - length HTTP_BREAK) 0
    = Inr (Some (length h, ?pre @ h @ 0 # tl HTTP_BREAK @ b))"
    by (rule scan_text) (use assms(1) lit_heads in \<open>simp_all add: wf_parts_def hdr_ok_def segment_def\<close>)
  then show ?thesis unfolding find_break_scan n l cut_segment_def by simp
qed

lemma parse_complete:
  assumes "wf_parts m u h" "length (segment m u h b) < 65536"
  shows "parse_request (segment m u h b) = Inr (Some (length m, cut_segment m u h b,
      length (segment m u h b) - length b, of_nat (length b)))"
proof -
  let ?x = "u @ HTTP_VER @ h @ HTTP_BREAK @ b"
  have seg: "segment m u h b = m @ ?x" by (simp add: segment_def)
  have cut: "cut_method (segment m u h b) (of_nat (length (segment m u h b)))
      = Inr (Some (length m, of_nat (length ?x)))"
    unfolding seg using assms by (intro cut_method_ok) (auto simp: wf_parts_def seg)
  have l: "length (segment m u h b) - length m = length ?x" by (simp add: seg)
  have c: "(ucast (of_nat (length ?x) :: u16) :: u32) = of_nat (length ?x)"
    using assms(2) by (intro ucast_len) (simp add: seg)
  have d: "(of_nat (length ?x) - of_nat (length u) - of_nat (length HTTP_VER)
      - of_nat (length h) - of_nat (length HTTP_BREAK) :: u32) = of_nat (length b)"
    by simp
  note V = ver_scan_ok [OF assms, unfolded l] and B = break_scan_ok [OF assms, unfolded l]
  show ?thesis
    by (simp only: parse_request_def cut c V B d Let_def sum.case option.case prod.case)
      (simp add: segment_def)
qed

section \<open>The parser accepts nothing else\<close>

lemma cut_method_result:
  assumes "cut_method buf (of_nat (length buf)) = Inr (Some (url, len))" "length buf < 65536"
  obtains (result) m x where "buf = m @ x" "m = HTTP_GET \<or> m = HTTP_POST" "x \<noteq> []"
    "url = length m" "len = of_nat (length x)"
proof -
  have split: thesis if "prefix_eq m buf 0 = Inr True" "length buf > length m"
      "m = HTTP_GET \<or> m = HTTP_POST" "url = length m" "len = of_nat (length buf) - of_nat (length m)" for m
  proof -
    have "match_at m buf 0" using that(1) by (simp add: prefix_eq_True)
    then have "buf = m @ drop (length m) buf"
      unfolding match_at_def by (metis append_take_drop_id drop0)
    moreover have "drop (length m) buf \<noteq> []" using that(2) by simp
    moreover have "len = of_nat (length (drop (length m) buf))"
      using that(2,5) by (simp add: of_nat_diff)
    ultimately show thesis by (rule result [OF _ that(3) _ that(4)])
  qed
  show thesis
    using assms split [of HTTP_GET] split [of HTTP_POST]
    by (auto simp: cut_method_def Let_def unat_len split: if_splits sum.splits bool.splits)
qed

text \<open>Reading a text back from a successful scan.\<close>

lemma scan_split:
  assumes "scan ok pat (pre @ x) (length pre) n 0 = Inr (Some (k, mem'))" "k < n" "pat \<noteq> []"
  obtains t r where "x = t @ pat @ r" "length t = k" "list_all ok t"
    "\<forall>i<length t. \<not> match_at pat (t @ pat) i" "mem' = pre @ t @ 0 # tl pat @ r"
proof -
  have r: "\<forall>j<k. j < length x \<and> ok (x ! j) \<and> \<not> match_at pat x j" "match_at pat x k"
      "mem' = (pre @ x)[length pre + k := 0]"
    using scan_result [OF assms(1)] assms(2) by (auto simp: nth_append)
  let ?t = "take k x" and ?r = "drop (k + length pat) x"
  have x: "x = ?t @ pat @ ?r" "length ?t = k" using match_at_split [OF r(2) assms(3)] by auto
  have "list_all ok ?t" using r(1) x(2) by (simp add: list_all_length)
  moreover have "\<not> match_at pat (?t @ pat) i" if "i < length ?t" for i
  proof -
    have "match_at pat ((?t @ pat) @ ?r) i \<longleftrightarrow> match_at pat (?t @ pat) i"
      using that x(2) by (intro match_at_local) simp
    then show ?thesis using r(1) that x by simp
  qed
  moreover have "mem' = pre @ ?t @ 0 # tl pat @ ?r"
  proof -
    have "pat = hd pat # tl pat" using assms(3) by simp
    then have "(?t @ pat @ ?r)[length ?t := 0] = ?t @ 0 # tl pat @ ?r"
      by (metis append_Cons list_update_length)
    then have "x[k := 0] = ?t @ 0 # tl pat @ ?r" using x by simp
    then show ?thesis using r(3) by (simp add: list_update_append)
  qed
  ultimately show ?thesis using that [of ?t ?r] x by blast
qed

text \<open>A scan that finds nothing has walked over as many bytes as its bound.\<close>

lemma scan_unfound:
  assumes "scan ok pat (pre @ x) (length pre) n 0 = Inr (Some (k, mem'))" "\<not> k < n"
  shows "n \<le> length x \<and> k \<le> length x \<and> mem' = pre @ x"
proof -
  have r: "\<forall>j<k. j < length x" "n \<le> k" "mem' = pre @ x"
    using scan_result [OF assms(1)] assms(2) by auto
  then have "k \<le> length x" by (cases k) auto
  then show ?thesis using r by simp
qed

lemma unat_wrap: "k < c \<Longrightarrow> c \<le> 16 \<Longrightarrow> unat (of_nat k - of_nat c :: u32) \<ge> 65536"
proof -
  assume "k < c" "c \<le> 16"
  have "(of_nat k - of_nat c :: u32) = of_nat (2 ^ 32 + k) - of_nat c" by simp
  also have "\<dots> = of_nat (2 ^ 32 + k - c)"
    using \<open>c \<le> 16\<close> by (intro len_minus) simp
  finally show ?thesis using \<open>k < c\<close> \<open>c \<le> 16\<close> by (simp add: unat_of_nat del: of_nat_diff)
qed

lemma parse_sound:
  assumes "parse_request buf = Inr (Some (url, mem, data, dlen))" "length buf < 65536"
  obtains m u h b where "wf_parts m u h" "buf = segment m u h b"
proof -
  obtain url1 len where cut: "cut_method buf (of_nat (length buf)) = Inr (Some (url1, len))"
    using assms(1) by (auto simp: parse_request_def split: sum.splits option.splits)
  obtain m x where m: "buf = m @ x" "m = HTTP_GET \<or> m = HTTP_POST" "x \<noteq> []"
      "url1 = length m" "len = of_nat (length x)"
    by (rule cut_method_result [OF cut assms(2)])
  have lx: "length x < 65536" using m(1) assms(2) by simp
  let ?n = "of_nat (length x) - of_nat (length HTTP_VER) :: u32"
  let ?n2 = "of_nat (length x) - of_nat (length HTTP_BREAK) :: u32"
  obtain i mem1 where v: "scan url_char HTTP_VER (m @ x) (length m) (unat ?n) 0 = Inr (Some (i, mem1))"
      and br: "\<exists>k. scan hdr_char HTTP_BREAK mem1 (length m + i + length HTTP_VER) (unat ?n2) 0
          = Inr (Some (k, mem))"
    using assms(1) cut m(4,5) unfolding m(1)
    by (auto simp: parse_request_def find_ver_scan find_break_scan ucast_len [OF lx] Let_def
        split: sum.splits option.splits)
  obtain k where b: "scan hdr_char HTTP_BREAK mem1 (length m + i + length HTTP_VER) (unat ?n2) 0
      = Inr (Some (k, mem))" using br by blast
  have "i < unat ?n"
  proof (rule ccontr)
    assume nf: "\<not> i < unat ?n"
    from scan_unfound [OF v this] have u: "unat ?n \<le> length x" "mem1 = m @ x" by simp_all
    have big: "length HTTP_VER \<le> length x"
      using unat_wrap [of "length x" "length HTTP_VER"] u(1) lx by (cases "length x < 11") simp_all
    then have n: "unat ?n = length x - length HTTP_VER" "unat ?n2 = length x - length HTTP_BREAK"
      using lx by (auto intro!: len_minus_u32 simp del: lit_lengths) (simp add: le_trans [of 4 11])
    have "length (m @ x) \<le> length m + i + length HTTP_VER" using nf n(1) by simp
    then show False
      using scan_result [OF b] n(2) big match_at_bound [of HTTP_BREAK mem1 "length m + i + length HTTP_VER + k"]
      unfolding u(2) by fastforce
  qed
  then obtain u r where u: "x = u @ HTTP_VER @ r" "length u = i" "list_all url_char u"
      "\<forall>i<length u. \<not> match_at HTTP_VER (u @ HTTP_VER) i" "mem1 = m @ u @ 0 # tl HTTP_VER @ r"
    by (rule scan_split [OF v]) auto
  let ?pre = "m @ u @ 0 # tl HTTP_VER"
  have pre: "mem1 = ?pre @ r" "length m + i + length HTTP_VER = length ?pre"
    using u(2,5) by simp_all
  have "k < unat ?n2"
  proof (rule ccontr)
    assume "\<not> k < unat ?n2"
    then have "unat ?n2 \<le> length r" using scan_unfound [of _ _ ?pre r] b unfolding pre by blast
    moreover have "unat ?n2 = length x - length HTTP_BREAK"
      using lx u(1) by (intro len_minus_u32) simp_all
    ultimately show False using u(1) by simp
  qed
  then obtain h b where "r = h @ HTTP_BREAK @ b" "list_all hdr_char h"
      "\<forall>i<length h. \<not> match_at HTTP_BREAK (h @ HTTP_BREAK) i"
    by (rule scan_split [OF b [unfolded pre]]) auto
  then show ?thesis
    using that [of m u h b] m u by (simp add: wf_parts_def url_ok_def hdr_ok_def segment_def)
qed

text \<open>
  C11. The request parser accepts exactly the grammar of requests, for every segment lwIP can
  deliver (a 16-bit length): it succeeds iff the segment is a method, a URL, the version
  mark, headers, an empty line and a body; it then has terminated the URL and the headers in
  place, and the data pointer and length are those of the body, so no handler is ever given
  a pointer outside the segment.
\<close>

theorem parse_request_grammar:
  assumes "length buf < 65536"
  shows "parse_request buf = Inr (Some r) \<longleftrightarrow>
    (\<exists>m u h b. wf_parts m u h \<and> buf = segment m u h b
      \<and> r = (length m, cut_segment m u h b, length buf - length b, of_nat (length b)))"
proof
  assume p: "parse_request buf = Inr (Some r)"
  obtain url mem data dlen where r: "r = (url, mem, data, dlen)" by (cases r)
  obtain m u h b where "wf_parts m u h" "buf = segment m u h b"
    by (rule parse_sound [OF p [unfolded r] assms])
  then show "\<exists>m u h b. wf_parts m u h \<and> buf = segment m u h b
      \<and> r = (length m, cut_segment m u h b, length buf - length b, of_nat (length b))"
    using parse_complete [of m u h b] p assms by auto
next
  assume "\<exists>m u h b. wf_parts m u h \<and> buf = segment m u h b
      \<and> r = (length m, cut_segment m u h b, length buf - length b, of_nat (length b))"
  then show "parse_request buf = Inr (Some r)"
    using parse_complete assms by auto
qed

theorem parse_request_grammar_witness:
  "parse_request (segment HTTP_GET (str ''/raw'') (str ''Host: x'') (str ''body''))
    = Inr (Some (4, cut_segment HTTP_GET (str ''/raw'') (str ''Host: x'') (str ''body''), 30, 4))"
proof (rule parse_request_grammar [THEN iffD2])
  have "url_ok (str ''/raw'')" "hdr_ok (str ''Host: x'')"
    by (rule url_ok_plain hdr_ok_plain, simp add: str_def url_char_def)+
  then show "\<exists>m u h b. wf_parts m u h
      \<and> segment HTTP_GET (str ''/raw'') (str ''Host: x'') (str ''body'') = segment m u h b
      \<and> (4, cut_segment HTTP_GET (str ''/raw'') (str ''Host: x'') (str ''body''), 30, 4)
        = (length m, cut_segment m u h b,
           length (segment HTTP_GET (str ''/raw'') (str ''Host: x'') (str ''body'')) - length b,
           of_nat (length b))"
    by (intro exI [of _ HTTP_GET] exI [of _ "str ''/raw''"] exI [of _ "str ''Host: x''"]
        exI [of _ "str ''body''"]) (simp add: wf_parts_def segment_def)
qed (simp add: segment_def)

section \<open>Outside the grammar\<close>

lemma scan_none:
  assumes "\<forall>j<n. ok (mem ! (base + j)) \<and> \<not> match_at pat mem (base + j)"
    and "base + n + length pat \<le> length mem" "pat \<noteq> []" "i \<le> n"
  shows "scan ok pat mem base n i = Inr (Some (n, mem))"
  using assms(4)
proof (induction "n - i" arbitrary: i)
  case 0
  then show ?case by (subst scan.simps) simp
next
  case (Suc d)
  then have b: "base + i + length pat \<le> length mem" "i < n" using assms(2) by simp_all
  then have "base + i < length mem" using assms(3) by (cases pat) auto
  then show ?case
    using b Suc.hyps assms(1,3) by (subst scan.simps) (simp add: prefix_eq_total)
qed

lemma parse_scans:
  assumes "m = HTTP_GET \<or> m = HTTP_POST" "x \<noteq> []" "length (m @ x) < 65536"
  shows "parse_request (m @ x) =
    (case scan url_char HTTP_VER (m @ x) (length m)
        (unat (of_nat (length x) - of_nat (length HTTP_VER) :: u32)) 0 of
       Inl f \<Rightarrow> Inl f
     | Inr None \<Rightarrow> Inr None
     | Inr (Some (i, mem)) \<Rightarrow>
         (let hdr = length m + i + length HTTP_VER;
              dlen = of_nat (length x) - of_nat i - of_nat (length HTTP_VER)
          in case scan hdr_char HTTP_BREAK mem hdr
              (unat (of_nat (length x) - of_nat (length HTTP_BREAK) :: u32)) 0 of
               Inl f \<Rightarrow> Inl f
             | Inr None \<Rightarrow> Inr None
             | Inr (Some (i, mem)) \<Rightarrow> Inr (Some (length m, mem, hdr + i + length HTTP_BREAK,
                 dlen - of_nat i - of_nat (length HTTP_BREAK)))))"
proof -
  have c: "(ucast (of_nat (length x) :: u16) :: u32) = of_nat (length x)"
    using assms(3) by (intro ucast_len) simp
  show ?thesis
    by (simp only: parse_request_def cut_method_ok [OF assms] find_ver_scan find_break_scan c
        sum.case option.case prod.case)
qed

text \<open>Once the first loop is over: a header text without an empty line.\<close>

lemma overrun_after:
  assumes "m = HTTP_GET \<or> m = HTTP_POST" "x \<noteq> []" "length (m @ x) < 65536"
    and "scan url_char HTTP_VER (m @ x) (length m)
      (unat (of_nat (length x) - of_nat (length HTTP_VER) :: u32)) 0 = Inr (Some (i, mem))"
    and "length mem = length (m @ x)" "length m + i + length HTTP_VER \<le> length mem"
    and "\<And>j. length m + i + length HTTP_VER \<le> j \<Longrightarrow> j < length mem \<Longrightarrow>
      hdr_char (mem ! j) \<and> \<not> match_at HTTP_BREAK mem j"
  shows "parse_request (m @ x) = Inl (Out_of_buffer (length (m @ x)))"
proof -
  have lx: "length x < 65536" using assms(3) by simp
  have n2: "unat (of_nat (length x) - of_nat (length HTTP_BREAK) :: u32) = length x - length HTTP_BREAK"
    using lx assms(5,6) by (intro len_minus_u32) simp_all
  have "scan hdr_char HTTP_BREAK mem (length m + i + length HTTP_VER)
      (unat (of_nat (length x) - of_nat (length HTTP_BREAK) :: u32)) 0 = Inl (Out_of_buffer (length mem))"
    unfolding n2 using assms(5-7) by (intro scan_overrun) auto
  then show ?thesis
    unfolding parse_scans [OF assms(1-3)] assms(4) using assms(5) by (simp add: Let_def)
qed

text \<open>
  C33. Two classes of requests outside the grammar for which the bounds of the two loops let them leave the segment (others
  are rejected). After a method, printable
  text without the version mark (an HTTP/1.0 request, a request cut short) is read past its
  end, since the bound \<open>len - strlen(HTTP_VER)\<close> wraps for short texts and otherwise ends the
  first loop with the header pointer behind the segment; and so are headers
  without an empty line, among them the request with no header at all, as the
  bound of the second loop is the length from the URL on. The first bad access is always the
  byte just behind the segment.
\<close>

theorem parse_request_overrun:
  assumes "m = HTTP_GET \<or> m = HTTP_POST" and "x \<noteq> []" and "length (m @ x) < 65536"
    and "list_all url_char x \<and> (\<forall>i. \<not> match_at HTTP_VER x i)
      \<or> (\<exists>u h. x = u @ HTTP_VER @ h \<and> url_ok u \<and> list_all hdr_char h \<and> (\<forall>i. \<not> match_at HTTP_BREAK h i))"
  shows "parse_request (m @ x) = Inl (Out_of_buffer (length (m @ x)))"
proof -
  have lx: "length x < 65536" using assms(3) by simp
  let ?n = "of_nat (length x) - of_nat (length HTTP_VER) :: u32"
  consider (short) "list_all url_char x" "\<forall>i. \<not> match_at HTTP_VER x i" "length x < length HTTP_VER"
    | (bare) "list_all url_char x" "\<forall>i. \<not> match_at HTTP_VER x i" "length HTTP_VER \<le> length x"
    | (ver) u h where "x = u @ HTTP_VER @ h" "url_ok u" "list_all hdr_char h"
        "\<forall>i. \<not> match_at HTTP_BREAK h i"
    using assms(4) linorder_not_less by blast
  then show ?thesis
  proof cases
    case short
    then have "unat ?n \<ge> 65536" using unat_wrap [of "length x" "length HTTP_VER"] by simp
    then have "scan url_char HTTP_VER (m @ x) (length m) (unat ?n) 0 = Inl (Out_of_buffer (length (m @ x)))"
      using short lx by (intro scan_overrun) (auto simp: nth_append list_all_length)
    then show ?thesis unfolding parse_scans [OF assms(1-3)] by simp
  next
    case bare
    then have n: "unat ?n = length x - length HTTP_VER" using lx by (intro len_minus_u32) simp_all
    have "scan url_char HTTP_VER (m @ x) (length m) (unat ?n) 0 = Inr (Some (unat ?n, m @ x))"
      using bare n by (intro scan_none) (auto simp: nth_append list_all_length)
    from overrun_after [OF assms(1-3) this] show ?thesis using bare(3) n by simp
  next
    case ver
    have n: "unat ?n = length u + length h"
      using lx ver(1) len_minus_u32 [of "length HTTP_VER" "length x"] by simp
    let ?mem = "m @ u @ 0 # tl HTTP_VER @ h"
    have u: "list_all url_char u" "\<forall>i<length u. \<not> match_at HTTP_VER (u @ HTTP_VER) i"
      using ver(2) by (simp_all add: url_ok_def)
    show ?thesis
    proof (cases "h = []")
      case True
      have "scan url_char HTTP_VER (m @ x) (length m) (unat ?n) 0 = Inr (Some (unat ?n, m @ x))"
        using ver(1) True u n by (intro scan_none) (auto simp: nth_append list_all_length)
      from overrun_after [OF assms(1-3) this] show ?thesis using ver(1) True n by simp
    next
      case False
      have v: "scan url_char HTTP_VER (m @ x) (length m) (unat ?n) 0 = Inr (Some (length u, ?mem))"
        unfolding ver(1) by (rule scan_text) (use u n False lit_heads ver(1) in simp_all)
      have shift: "match_at HTTP_BREAK ?mem (length m + length u + 11 + j) \<longleftrightarrow> match_at HTTP_BREAK h j" for j
        using match_at_shift [of HTTP_BREAK "m @ u @ 0 # tl HTTP_VER" h j] by (simp add: add.assoc)
      have "hdr_char (?mem ! j) \<and> \<not> match_at HTTP_BREAK ?mem j"
        if "length m + length u + length HTTP_VER \<le> j" "j < length ?mem" for j
      proof -
        obtain k where k: "j = length m + length u + 11 + k" using \<open>_ \<le> j\<close> le_Suc_ex by auto
        have "?mem ! j = h ! k" unfolding k by (simp add: nth_append add.assoc nth_Cons')
        then show ?thesis using shift [of k] ver(3,4) that(2) by (simp add: k list_all_length)
      qed
      with overrun_after [OF assms(1-3) v] show ?thesis using ver(1) by simp
    qed
  qed
qed

theorem parse_request_overrun_witness:
  "parse_request (str ''GET /index.html'') = Inl (Out_of_buffer 15)"
proof -
  have "list_all url_char (str ''/index.html'') \<and> (\<forall>i. \<not> match_at HTTP_VER (str ''/index.html'') i)"
    by (auto simp: str_def url_char_def nth_Cons' dest!: ver_start split: if_splits)
  then show ?thesis
    using parse_request_overrun [of HTTP_GET "str ''/index.html''"] by (simp add: HTTP_GET_def str_def)
qed

end
