(* ===== verification/Httpd_Props.thy ===== *)
theory Httpd_Props
  imports Httpd_Parse
begin

text \<open>
  What the server answers. \<open>http_reply\<close> is the response to a request as text, and
  \<open>hex_decode\<close> the message a raw transmission asks for; \<open>httpd_process\<close> writes exactly that
  response to its connection, hands exactly that message to the radio, and closes the
  connection once.
\<close>

section \<open>Hexadecimal text\<close>

definition hex_byte :: "u8 \<Rightarrow> u8 \<Rightarrow> u8" where
  "hex_byte hi lo = 16 * get_nibble hi + get_nibble lo"

definition hex_decode :: "bytes \<Rightarrow> bytes option" where
  "hex_decode b =
     (if length b = 2 * PAYLOADSZ \<and> list_all nibble_valid b
      then Some (map (\<lambda>i. hex_byte (b ! (2 * i)) (b ! (2 * i + 1))) [0..<PAYLOADSZ]) else None)"

definition hex_digit :: "u8 \<Rightarrow> u8" where
  "hex_digit n = (if n < 10 then 0x30 + n else 0x61 + (n - 10))"

definition hex_encode :: "bytes \<Rightarrow> bytes" where
  "hex_encode m = concat (map (\<lambda>c. [hex_digit (c div 16), hex_digit (c mod 16)]) m)"

lemma get_nibble_bound: "nibble_valid c \<Longrightarrow> get_nibble c < 16"
  unfolding nibble_valid_def get_nibble_def by (auto; unat_arith)

lemma nibble_or: "(a :: u8) < 16 \<Longrightarrow> b < 16 \<Longrightarrow> push_bit 4 a OR b = 16 * a + b"
proof -
  assume b: "b < 16"
  have "push_bit 4 a AND b = 0"
  proof (rule bit_word_eqI)
    fix n assume "n < LENGTH(8)"
    have "take_bit 4 b = b"
      using b by (simp add: take_bit_eq_mod word_mod_less_divisor word_less_nat_alt mod_less word_unat_eq_iff unat_mod)
    then have "bit b n \<Longrightarrow> n < 4" by (metis bit_take_bit_iff)
    then show "bit (push_bit 4 a AND b) n = bit (0 :: u8) n"
      by (auto simp: bit_and_iff bit_push_bit_iff)
  qed
  then have "push_bit 4 a OR b = push_bit 4 a + b"
    by (rule disjunctive_add_eq_or [symmetric])
  then show ?thesis by (simp add: push_bit_eq_mult)
qed

lemma nibble_cases:
  fixes n :: u8
  assumes "n < 16"
  shows "n \<in> {0, 1, 2, 3, 4, 5, 6, 7, 8, 9, 10, 11, 12, 13, 14, 15}"
proof -
  have "unat n < 16" using assms by (simp add: word_less_nat_alt)
  then have "unat n \<in> set [0..<16]" by simp
  then have "n \<in> of_nat ` set [0..<16]" by (metis imageI of_nat_unat ucast_id)
  then show ?thesis by (simp add: upt_rec)
qed

lemma hex_digit_back:
  fixes n :: u8
  assumes "n < 16"
  shows "nibble_valid (hex_digit n) \<and> get_nibble (hex_digit n) = n"
  using nibble_cases [OF assms]
  by (elim insertE emptyE) (simp_all add: nibble_valid_def hex_digit_def get_nibble_def)

lemma hex_byte_back: "hex_byte (hex_digit (c div 16)) (hex_digit (c mod 16)) = c"
proof -
  have "unat c < 2 ^ LENGTH(8)" by (rule unsigned_less)
  then have "c div 16 < 16" "c mod 16 < 16"
    by (simp_all add: word_less_nat_alt unat_div unat_mod)
  moreover have "16 * (c div 16) + c mod 16 = c" by (rule mult_div_mod_eq)
  ultimately show ?thesis by (simp add: hex_byte_def hex_digit_back)
qed

text \<open>The decoding loop computes \<open>hex_decode\<close>, whatever the array held before.\<close>

lemma pair_at: "2 * i + 1 < length b \<Longrightarrow> drop (2 * i) b = b ! (2 * i) # b ! (2 * i + 1) # drop (2 * Suc i) b"
  by (simp add: Cons_nth_drop_Suc)

lemma sendraw_loop_spec:
  assumes "length msg = i + n" "length b = 2 * (i + n)"
  shows "sendraw_loop (pre @ b) (length pre) msg i n =
    Inr (if list_all nibble_valid (drop (2 * i) b)
         then Some (take i msg @ map (\<lambda>k. hex_byte (b ! (2 * k)) (b ! (2 * k + 1))) [i..<i + n]) else None)"
  using assms
proof (induction n arbitrary: i msg)
  case 0
  then show ?case by simp
next
  case (Suc n)
  let ?hi = "b ! (2 * i)" and ?lo = "b ! (2 * i + 1)"
  let ?msg = "msg[i := push_bit 4 (get_nibble ?hi) OR get_nibble ?lo]"
  have d: "drop (2 * i) b = ?hi # ?lo # drop (2 * Suc i) b"
    using Suc.prems(2) by (intro pair_at) simp
  have m: "(pre @ b) ! (length pre + i * 2) = ?hi" "(pre @ b) ! (length pre + i * 2 + 1) = ?lo"
    by (simp_all add: nth_append mult.commute)
  have IH: "sendraw_loop (pre @ b) (length pre) ?msg (Suc i) n =
    Inr (if list_all nibble_valid (drop (2 * Suc i) b)
         then Some (take (Suc i) ?msg @ map (\<lambda>k. hex_byte (b ! (2 * k)) (b ! (2 * k + 1))) [Suc i..<Suc i + n])
         else None)"
    by (rule Suc.IH) (use Suc.prems in simp_all)
  have t: "nibble_valid ?hi \<Longrightarrow> nibble_valid ?lo \<Longrightarrow> take (Suc i) ?msg = take i msg @ [hex_byte ?hi ?lo]"
    using Suc.prems(1) by (simp add: take_update_snoc nibble_or get_nibble_bound hex_byte_def)
  have u: "[i..<i + Suc n] = i # [Suc i..<Suc i + n]" by (simp add: upt_conv_Cons)
  have step: "sendraw_loop (pre @ b) (length pre) msg i (Suc n) =
    (if \<not> nibble_valid ?hi then Inr None else if \<not> nibble_valid ?lo then Inr None
     else sendraw_loop (pre @ b) (length pre) ?msg (Suc i) n)"
    using Suc.prems(2) unfolding sendraw_loop.simps m by simp
  show ?case
    unfolding step IH u d using t by simp
qed

lemma sendraw_decode:
  assumes "length msg = PAYLOADSZ" "length b = 2 * PAYLOADSZ"
  shows "sendraw_loop (pre @ b) (length pre) msg 0 PAYLOADSZ = Inr (hex_decode b)"
  using sendraw_loop_spec [of msg 0 PAYLOADSZ b pre] assms by (simp add: hex_decode_def)

section \<open>The path table\<close>

lemma strcmp_eq:
  "0 \<notin> set s \<Longrightarrow> 0 \<notin> set u \<Longrightarrow> prefix_eq (s @ [0]) (pre @ u @ 0 # r) (length pre) = Inr (s = u)"
proof (induction s arbitrary: u pre)
  case Nil
  then show ?case by (cases u) simp_all
next
  case (Cons a s)
  show ?case
  proof (cases u)
    case Nil
    then show ?thesis using Cons.prems by simp
  next
    case (Cons c v)
    then show ?thesis
      using Cons.IH [of v "pre @ [c]"] Cons.prems by (cases "c = a") auto
  qed
qed

lemma find_path_lookup:
  "0 \<notin> set u \<Longrightarrow> \<forall>p\<in>set ps. 0 \<notin> set (str (fst p)) \<Longrightarrow>
   find_path ps (pre @ u @ 0 # r) (length pre) = Inr (map_of (map (\<lambda>(p, h). (str p, h)) ps) u)"
  by (induction ps) (auto simp: strcmp_eq simp del: append_Cons)

definition route :: "bytes \<Rightarrow> handler option" where
  "route u = map_of (map (\<lambda>(p, h). (str p, h)) paths) u"

lemma find_path_route:
  "0 \<notin> set u \<Longrightarrow> find_path paths (pre @ u @ 0 # r) (length pre) = Inr (route u)"
  unfolding route_def by (rule find_path_lookup) (simp_all add: paths_def str_def)

section \<open>The response\<close>

definition http_head :: "string \<Rightarrow> bytes" where
  "http_head ctype = str (''HTTP/1.1 200 OK'' @ crlf @ ''Content-type: '' @ ctype @ crlf @ crlf)"

definition root_page :: bytes where
  "root_page = str (''<html><head><title>Available paths</title></head><body>''
     @ concat (map (\<lambda>(p, h). ''<a href='' @ quote p @ ''>'' @ p @ ''</a><br />'') paths)
     @ ''<body></html>'')"

definition error_page :: bytes where
  "error_page = str (''HTTP/1.1 404 Not Found'' @ crlf @ crlf
     @ ''<html><head><title>404 - Not Found</title></head><body><h1>404 - Not Found</h1></body></html>'')"

definition http_reply :: "printf \<Rightarrow> u32 \<Rightarrow> data_table \<Rightarrow> bytes \<Rightarrow> bytes \<Rightarrow> bytes" where
  "http_reply pf now tbl u b =
     (case route u of
        Some Path_root \<Rightarrow> http_head ''text/html'' @ root_page
      | Some Path_raw \<Rightarrow> http_head ''text/plain'' @ data_dump pf text_put tbl []
      | Some Path_json \<Rightarrow> http_head ''application/json'' @ json_text (table_json (sint now) tbl)
      | Some Path_sendraw \<Rightarrow> http_head ''text/plain''
          @ str ((if hex_decode b = None then ''ERR'' else ''OK'') @ crlf)
      | None \<Rightarrow> error_page)"

text \<open>The message a request hands to the radio.\<close>

definition http_sends :: "bytes \<Rightarrow> bytes \<Rightarrow> bytes option" where
  "http_sends u b = (if route u = Some Path_sendraw then hex_decode b else None)"

definition sys_puts :: "bytes \<Rightarrow> 'm http_sys \<Rightarrow> 'm http_sys" where
  "sys_puts t sys = sys\<lparr>hs_net := foldl net_put (hs_net sys) t\<rparr>"

lemma sys_puts_puts [simp]: "sys_puts t (sys_puts t' sys) = sys_puts (t' @ t) sys"
  by (simp add: sys_puts_def)

lemma sys_puts_fields [simp]:
  "hs_nrf (sys_puts t sys) = hs_nrf sys" "hs_tbl (sys_puts t sys) = hs_tbl sys"
  "sys_puts t (sys\<lparr>hs_nrf := n\<rparr>) = (sys_puts t sys)\<lparr>hs_nrf := n\<rparr>"
  by (simp_all add: sys_puts_def)

lemma sys_nrf_same [simp]: "(sys_puts t sys)\<lparr>hs_nrf := hs_nrf sys\<rparr> = sys_puts t sys"
  "sys\<lparr>hs_nrf := hs_nrf sys\<rparr> = sys"
  by (cases sys; simp add: sys_puts_def)+

context printf_laws
begin

lemma net_print_text: "fmt_text fmt args = Some t \<Longrightarrow> net_print pf sys fmt args = sys_puts t sys"
  by (simp add: net_print_def sys_puts_def chprintf_def pf_text)

lemma json_report: "data_json pf text_put now tbl [] = json_text (table_json (sint now) tbl)"
proof -
  have "json_printer text_put (\<lambda>t. t) (\<lambda>t. True) pf"
    by (intro json_printer.intro rendered.seq_stream_axioms printf_laws_axioms)
  from json_printer.data_json_contents [OF this, where s = "[]"] show ?thesis by simp
qed

lemma path_root_text: "path_root pf sys = sys_puts (http_head ''text/html'' @ root_page) sys"
proof -
  have link: "net_print pf sys (''<a href='' @ quote ''%s'' @ ''>%s</a><br />'') [PStr (str p), PStr (str p)]
      = sys_puts (str (''<a href='' @ quote p @ ''>'' @ p @ ''</a><br />'')) sys" for p and sys :: "'m http_sys"
    by (rule net_print_text) (simp add: quote_def str_def)
  have head: "net_print pf sys (''HTTP/1.1 200 OK'' @ crlf @ ''Content-type: text/html'' @ crlf @ crlf) []
      = sys_puts (http_head ''text/html'') sys" for sys :: "'m http_sys"
    by (rule net_print_text) (simp add: http_head_def str_def crlf_def)
  have title: "net_print pf sys ''<html><head><title>Available paths</title></head><body>'' []
      = sys_puts (str ''<html><head><title>Available paths</title></head><body>'') sys"
    for sys :: "'m http_sys"
    by (rule net_print_text) (simp add: str_def)
  have foot: "net_print pf sys ''<body></html>'' [] = sys_puts (str ''<body></html>'') sys"
    for sys :: "'m http_sys"
    by (rule net_print_text) (simp add: str_def)
  show ?thesis
    unfolding path_root_def Let_def head title link foot root_page_def paths_def
    by (simp add: link str_def)
qed

lemma path_raw_text:
  "path_raw pf sys = sys_puts (http_head ''text/plain'' @ data_dump pf text_put (hs_tbl sys) []) sys"
proof -
  have "net_print pf sys (''HTTP/1.1 200 OK'' @ crlf @ ''Content-type: text/plain'' @ crlf @ crlf) []
      = sys_puts (http_head ''text/plain'') sys"
    by (rule net_print_text) (simp add: http_head_def str_def crlf_def)
  then show ?thesis
    unfolding path_raw_def Let_def data_dump_text [of pf net_put] by (simp add: sys_puts_def)
qed

lemma path_json_text:
  "path_json pf now sys =
     sys_puts (http_head ''application/json'' @ json_text (table_json (sint now) (hs_tbl sys))) sys"
proof -
  have "net_print pf sys (''HTTP/1.1 200 OK'' @ crlf @ ''Content-type: application/json'' @ crlf @ crlf) []
      = sys_puts (http_head ''application/json'') sys"
    by (rule net_print_text) (simp add: http_head_def str_def crlf_def)
  then show ?thesis
    unfolding path_json_def Let_def data_json_text [of pf net_put] json_report by (simp add: sys_puts_def)
qed

lemma path_notfound_text: "path_notfound pf sys = sys_puts error_page sys"
proof -
  have head: "net_print pf sys (''HTTP/1.1 404 Not Found'' @ crlf @ crlf) []
      = sys_puts (str (''HTTP/1.1 404 Not Found'' @ crlf @ crlf)) sys" for sys :: "'m http_sys"
    by (rule net_print_text) (simp add: str_def crlf_def)
  have page: "net_print pf sys (''<html><head><title>404 - Not Found</title></head>''
         @ ''<body><h1>404 - Not Found</h1></body></html>'') []
      = sys_puts (str (''<html><head><title>404 - Not Found</title></head>''
         @ ''<body><h1>404 - Not Found</h1></body></html>'')) sys" for sys :: "'m http_sys"
    by (rule net_print_text) (simp add: str_def)
  show ?thesis
    unfolding path_notfound_def Let_def error_page_def head page by (simp add: str_def)
qed

lemma path_sendraw_text:
  assumes "length msg = PAYLOADSZ" "length b < 65536"
    and "case hex_decode b of None \<Rightarrow> nrf = hs_nrf sys | Some d \<Rightarrow> nrf_send ops d (hs_nrf sys) = Some nrf"
  shows "path_sendraw pf ops msg (pre @ b) (length pre) (of_nat (length b)) sys =
    Inr (sys_puts (http_head ''text/plain'' @ str ((if hex_decode b = None then ''ERR'' else ''OK'') @ crlf))
      (sys\<lparr>hs_nrf := nrf\<rparr>))"
proof -
  have print: "net_print pf sys (''HTTP/1.1 200 OK'' @ crlf @ ''Content-type: text/plain'' @ crlf @ crlf) []
      = sys_puts (http_head ''text/plain'') sys"
      "net_print pf sys (''ERR'' @ crlf) [] = sys_puts (str (''ERR'' @ crlf)) sys"
      "net_print pf sys (''OK'' @ crlf) [] = sys_puts (str (''OK'' @ crlf)) sys" for sys :: "'m http_sys"
    by (rule net_print_text, simp add: http_head_def str_def crlf_def)+
  have dlen: "of_nat (length b) = (of_nat (PAYLOADSZ * 2) :: u32) \<longleftrightarrow> length b = 2 * PAYLOADSZ"
    using unat_len(2) [OF assms(2)] unat_len(2) [of "PAYLOADSZ * 2"] by (auto simp: PAYLOADSZ_def)
  show ?thesis
  proof (cases "length b = 2 * PAYLOADSZ")
    case True
    show ?thesis
      using assms(3) sendraw_decode [OF assms(1) True, of pre]
      unfolding path_sendraw_def Let_def print dlen 
    by (cases "hex_decode b") (simp_all add: True str_def)
  next
    case False
    then have "hex_decode b = None" by (simp add: hex_decode_def)
    then show ?thesis
      using assms(3) False unfolding path_sendraw_def Let_def print dlen by (simp add: str_def)
  qed
qed

text \<open>Every handler puts its reply and nothing else; only \<open>path_sendraw\<close> touches the radio.\<close>

lemma run_handler_text:
  assumes "length msg = PAYLOADSZ" "length b < 65536"
    and "case http_sends u b of None \<Rightarrow> nrf = hs_nrf sys | Some d \<Rightarrow> nrf_send ops d (hs_nrf sys) = Some nrf"
  shows "run_handler pf ops now msg (route u) (pre @ b) (length pre) (of_nat (length b)) sys =
    Inr (sys_puts (http_reply pf now (hs_tbl sys) u b) (sys\<lparr>hs_nrf := nrf\<rparr>))"
  using assms
  by (auto simp: run_handler_def http_reply_def http_sends_def path_root_text path_raw_text path_json_text
      path_notfound_text path_sendraw_text split: option.split handler.split)

end

interpretation netjson: json_printer net_put net_contents net_ok plain_printf ..

section \<open>The whole request\<close>

lemma cut_segment_url: "cut_segment m u h b = m @ u @ 0 # tl HTTP_VER @ h @ 0 # tl HTTP_BREAK @ b"
  by (simp add: cut_segment_def)

lemma cut_segment_body: "\<exists>pre. cut_segment m u h b = pre @ b \<and> length pre = length (segment m u h b) - length b"
  by (intro exI [of _ "m @ u @ 0 # tl HTTP_VER @ h @ 0 # tl HTTP_BREAK"]) (simp add: cut_segment_def segment_def)

lemma url_no_nul: "url_ok u \<Longrightarrow> 0 \<notin> set u"
  by (auto simp: url_ok_def list_all_iff url_char_def)

text \<open>From the handler's output to the calls on the connection.\<close>

definition http_closing :: "netconn \<Rightarrow> 'm http_sys \<Rightarrow> 'm http_sys" where
  "http_closing nc sys =
     (let sys = sys_call Netbuf_delete sys; sys = sys\<lparr>hs_net := net_finalize (hs_net sys)\<rparr>
      in sys_call (Netconn_close nc) sys)"

definition http_opened :: "netconn \<Rightarrow> 'm http_sys \<Rightarrow> 'm http_sys" where
  "http_opened nc sys = (let sys = sys_call Blink_red sys in sys\<lparr>hs_net := net_open nc (hs_net sys)\<rparr>)"

lemma http_opened_simps [simp]:
  "hs_nrf (http_opened nc sys) = hs_nrf sys" "hs_tbl (http_opened nc sys) = hs_tbl sys"
  "hs_nrf (http_closing nc sys) = hs_nrf sys" "hs_tbl (http_closing nc sys) = hs_tbl sys"
  "ns_log (hs_net (http_opened nc sys)) = ns_log (hs_net sys) @ [Blink_red]"
  by (simp_all add: http_opened_def http_closing_def sys_call_def Let_def net_open_def net_call_def)

lemma exchange_log:
  assumes "length (ns_buf (hs_net sys)) = NET_BUF_SIZE"
    and "hs_net sys' = foldl net_put (hs_net (http_opened nc sys)) t"
  obtains ws last where
    "ns_log (hs_net (http_closing nc sys')) = ns_log (hs_net sys) @ [Blink_red]
       @ map (Netconn_write nc) ws @ [Netbuf_delete] @ map (Netconn_write nc) last @ [Netconn_close nc]"
    "concat (ws @ last) = t" "length last \<le> 1"
    "\<forall>w\<in>set (ws @ last). w \<noteq> [] \<and> length w \<le> NET_BUF_SIZE"
proof -
  let ?start = "hs_net (http_opened nc sys)" and ?n = "hs_net sys'"
  have ok0: "net_ok ?start" "ns_nc ?start = nc" "net_contents ?start = net_sent (hs_net sys)"
    using assms(1)
    by (simp_all add: http_opened_def sys_call_def net_open_def net_call_def net_ok_def Let_def
        NET_BUF_SIZE_def net_contents_def net_sent_def)
  then have ok: "net_ok ?n" unfolding assms(2) by (simp add: net.puts_ok)
  obtain ws where ws: "ns_log ?n = ns_log ?start @ map (Netconn_write nc) ws"
      "\<forall>w\<in>set ws. length w = NET_BUF_SIZE" "ns_nc ?n = nc"
    using puts_writes [OF ok0(1), of t] ok0(2) unfolding assms(2) by auto
  let ?m = "net_call Netbuf_delete ?n"
  have okm: "net_ok ?m" using ok by (simp add: net_ok_def net_call_def)
  obtain last where l: "ns_log (net_finalize ?m) = ns_log ?m @ map (Netconn_write (ns_nc ?m)) last"
      "concat last = take (ns_count ?m) (ns_buf ?m)" "length last \<le> 1"
      "\<forall>w\<in>set last. w \<noteq> [] \<and> length w < NET_BUF_SIZE"
    by (rule finalize_writes [OF okm])
  have "net_contents ?n = net_sent (hs_net sys) @ t"
    unfolding assms(2) using ok0 by (simp add: net.puts_contents)
  then have "concat (ws @ last) = t"
    using ws(1) l(2) written_writes [of nc ws]
    by (simp add: net_contents_def net_sent_def comp_def net_call_def)
  moreover have "ns_log (hs_net (http_closing nc sys')) = ns_log (hs_net sys) @ [Blink_red]
       @ map (Netconn_write nc) ws @ [Netbuf_delete] @ map (Netconn_write nc) last @ [Netconn_close nc]"
    using l(1) ws(1,3) by (simp add: http_closing_def sys_call_def Let_def net_call_def)
  moreover have "\<forall>w\<in>set (ws @ last). w \<noteq> [] \<and> length w \<le> NET_BUF_SIZE"
    using ws(2) l(4) by (auto simp: NET_BUF_SIZE_def)
  ultimately show ?thesis using that l(3) by blast
qed

lemma process_accepted:
  assumes "wf_parts m u h" "length (segment m u h b) < 65536"
  shows "\<exists>pre. httpd_process pf ops now msg nc (Some (segment m u h b)) sys =
    (case run_handler pf ops now msg (route u) (pre @ b) (length pre) (of_nat (length b)) (http_opened nc sys) of
       Inl f \<Rightarrow> Inl f | Inr sys' \<Rightarrow> Inr (http_closing nc sys'))"
proof -
  obtain pre where pre: "cut_segment m u h b = pre @ b" "length pre = length (segment m u h b) - length b"
    using cut_segment_body by blast
  have route: "find_path paths (pre @ b) (length m) = Inr (route u)"
    using find_path_route [of u m] url_no_nul assms(1) unfolding pre(1) [symmetric] cut_segment_url
    by (simp add: wf_parts_def)
  show ?thesis
    by (rule exI [of _ pre])
      (simp add: httpd_process_def parse_complete [OF assms] pre route http_opened_def http_closing_def Let_def
        split: sum.split)
qed

lemma serve_run:
  assumes "printf_laws pf" and "wf_parts m u h" and "length (segment m u h b) < 65536"
    and "length (ns_buf (hs_net sys)) = 512" and "length msg = PAYLOADSZ"
    and "case http_sends u b of None \<Rightarrow> nrf = hs_nrf sys | Some d \<Rightarrow> nrf_send ops d (hs_nrf sys) = Some nrf"
  shows "\<exists>sys' ws last.
    httpd_process pf ops now msg nc (Some (segment m u h b)) sys = Inr sys'
    \<and> ns_log (hs_net sys') = ns_log (hs_net sys) @ [Blink_red] @ map (Netconn_write nc) ws
        @ [Netbuf_delete] @ map (Netconn_write nc) last @ [Netconn_close nc]
    \<and> concat (ws @ last) = http_reply pf now (hs_tbl sys) u b
    \<and> length last \<le> 1 \<and> list_all (\<lambda>w. w \<noteq> [] \<and> length w \<le> 512) (ws @ last)
    \<and> hs_nrf sys' = nrf \<and> hs_tbl sys' = hs_tbl sys"
proof -
  let ?t = "http_reply pf now (hs_tbl sys) u b"
  let ?out = "sys_puts ?t (http_opened nc sys\<lparr>hs_nrf := nrf\<rparr>)"
  obtain pre where p: "httpd_process pf ops now msg nc (Some (segment m u h b)) sys =
    (case run_handler pf ops now msg (route u) (pre @ b) (length pre) (of_nat (length b)) (http_opened nc sys) of
       Inl f \<Rightarrow> Inl f | Inr sys' \<Rightarrow> Inr (http_closing nc sys'))"
    using process_accepted [OF assms(2,3)] by blast
  have b: "length b < 65536" using assms(3) by (simp add: segment_def)
  have "run_handler pf ops now msg (route u) (pre @ b) (length pre) (of_nat (length b)) (http_opened nc sys)
      = Inr ?out"
    using printf_laws.run_handler_text [OF assms(1,5) b, where u = u and nrf = nrf
        and sys = "http_opened nc sys" and ops = ops and now = now and pre = pre] assms(6)
    by (cases "http_sends u b") simp_all
  then have r: "httpd_process pf ops now msg nc (Some (segment m u h b)) sys = Inr (http_closing nc ?out)"
    unfolding p by simp
  have out: "hs_net ?out = foldl net_put (hs_net (http_opened nc sys)) ?t" by (simp add: sys_puts_def)
  have buf: "length (ns_buf (hs_net sys)) = NET_BUF_SIZE" using assms(4) by (simp add: NET_BUF_SIZE_def)
  obtain ws last where "ns_log (hs_net (http_closing nc ?out)) = ns_log (hs_net sys) @ [Blink_red]
       @ map (Netconn_write nc) ws @ [Netbuf_delete] @ map (Netconn_write nc) last @ [Netconn_close nc]"
    "concat (ws @ last) = ?t" "length last \<le> 1" "\<forall>w\<in>set (ws @ last). w \<noteq> [] \<and> length w \<le> NET_BUF_SIZE"
    by (rule exchange_log [OF buf out])
  then show ?thesis
    using r by (intro exI [of _ "http_closing nc ?out"] exI [of _ ws] exI [of _ last])
      (simp add: list_all_iff NET_BUF_SIZE_def)
qed

text \<open>
  C2. The server answers every well-formed request with the response of its path: what is
  written to the connection is exactly \<open>http_reply\<close>, in writes of at most 512 bytes, then the
  connection is closed, the receive buffer being freed before the last write; the radio is
  handed the decoded message of a raw transmission, and nothing otherwise; the sensor table
  is not changed.
\<close>

theorem httpd_serves:
  assumes "printf_laws pf" and "wf_parts m u h" and "length (segment m u h b) < 65536"
    and "length (ns_buf (hs_net sys)) = 512" and "length msg = PAYLOADSZ"
    and "case http_sends u b of None \<Rightarrow> nrf = hs_nrf sys | Some d \<Rightarrow> nrf_send ops d (hs_nrf sys) = Some nrf"
  shows "\<exists>sys' ws last.
    httpd_process pf ops now msg nc (Some (segment m u h b)) sys = Inr sys'
    \<and> ns_log (hs_net sys') = ns_log (hs_net sys) @ [Blink_red] @ map (Netconn_write nc) ws
        @ [Netbuf_delete] @ map (Netconn_write nc) last @ [Netconn_close nc]
    \<and> concat (ws @ last) = http_reply pf now (hs_tbl sys) u b
    \<and> length last \<le> 1 \<and> list_all (\<lambda>w. w \<noteq> [] \<and> length w \<le> 512) (ws @ last)
    \<and> hs_nrf sys' = nrf \<and> hs_tbl sys' = hs_tbl sys"
  by (rule serve_run [OF assms])

text \<open>A request for \<^verbatim>\<open>/json\<close> on an idle system.\<close>

definition demo_sys :: "(nat \<times> nat list) http_sys" where
  "demo_sys = \<lparr>hs_net = net_zero,
     hs_nrf = nrf_init fifo_ops
       \<lparr>nr_rx = (0, []), nr_rx_bufs = [], nr_rx_idx = 0, nr_tx = (0, []), nr_tx_bufs = [],
        nr_tx_idx = 0, nr_evt = False, nr_bus = []\<rparr>,
     hs_tbl = boot_table\<rparr>"

theorem httpd_serves_witness:
  "\<exists>sys' ws last. httpd_process plain_printf fifo_ops 1000 (replicate 16 0) 5
      (Some (segment HTTP_GET (str ''/json'') (str ''Host: x'') [])) demo_sys = Inr sys'
    \<and> ns_log (hs_net sys') = [Blink_red] @ map (Netconn_write 5) ws @ [Netbuf_delete]
        @ map (Netconn_write 5) last @ [Netconn_close 5]
    \<and> concat (ws @ last) = http_head ''application/json'' @ json_text (table_json 1000 boot_table)"
proof -
  have w: "wf_parts HTTP_GET (str ''/json'') (str ''Host: x'')"
    unfolding wf_parts_def
    by (intro conjI url_ok_plain hdr_ok_plain) (simp_all add: str_def url_char_def)
  have r: "route (str ''/json'') = Some Path_json"
    by (simp add: route_def paths_def str_def)
  have s: "http_sends (str ''/json'') [] = None" by (simp add: http_sends_def r)
  have l: "ns_log (hs_net demo_sys) = []" "hs_tbl demo_sys = boot_table"
    "length (ns_buf (hs_net demo_sys)) = 512"
    by (simp_all add: demo_sys_def net_zero_def NET_BUF_SIZE_def)
  have n: "sint (1000 :: u32) = 1000" by simp
  have "length (segment HTTP_GET (str ''/json'') (str ''Host: x'') []) < 65536"
    by (simp add: segment_def)
  from httpd_serves [OF plain.printf_laws_axioms w this l(3), of "replicate 16 0" "hs_nrf demo_sys" fifo_ops 1000 5]
  show ?thesis
    by (auto simp: s l http_reply_def r n PAYLOADSZ_def)
qed

section \<open>Raw transmission\<close>

lemma hex_encode_nth:
  "k < length m \<Longrightarrow> hex_encode m ! (2 * k) = hex_digit (m ! k div 16)
     \<and> hex_encode m ! (2 * k + 1) = hex_digit (m ! k mod 16)"
proof (induction m arbitrary: k)
  case Nil
  then show ?case by simp
next
  case (Cons c m)
  show ?case
  proof (cases k)
    case 0
    then show ?thesis by (simp add: hex_encode_def)
  next
    case (Suc j)
    then show ?thesis using Cons.IH [of j] Cons.prems by (simp add: hex_encode_def)
  qed
qed

lemma length_hex_encode [simp]: "length (hex_encode m) = 2 * length m"
  by (induction m) (simp_all add: hex_encode_def)

lemma hex_encode_valid: "list_all nibble_valid (hex_encode m)"
proof (induction m)
  case (Cons c m)
  have "unat c < 2 ^ LENGTH(8)" by (rule unsigned_less)
  then have "c div 16 < 16" "c mod 16 < 16"
    by (simp_all add: word_less_nat_alt unat_div unat_mod)
  then show ?case using Cons by (simp add: hex_encode_def hex_digit_back)
qed (simp add: hex_encode_def)

lemma hex_decode_encode: "wf_raw m \<Longrightarrow> hex_decode (hex_encode m) = Some m"
  by (auto simp: hex_decode_def wf_raw_def hex_encode_valid hex_encode_nth [simplified] hex_byte_back
      intro!: nth_equalityI)

text \<open>
  C38. Any 16-byte message can be sent through \<^verbatim>\<open>/sendraw\<close>: posting its hexadecimal text makes
  \<open>path_sendraw\<close> pass exactly that message to \<open>nrf_send\<close> and answer OK, whatever the local
  array held.
\<close>

theorem sendraw_roundtrip:
  assumes "wf_raw m" and "length msg = PAYLOADSZ" and "nrf_send ops m (hs_nrf sys) = Some nrf"
  shows "path_sendraw pf ops msg (pre @ hex_encode m) (length pre) (of_nat (length (hex_encode m))) sys =
    Inr (net_print pf
      ((net_print pf sys (''HTTP/1.1 200 OK'' @ crlf @ ''Content-type: text/plain'' @ crlf @ crlf) [])
        \<lparr>hs_nrf := nrf\<rparr>) (''OK'' @ crlf) [])"
proof -
  have l: "length (hex_encode m) = 2 * PAYLOADSZ" using assms(1) by (simp add: wf_raw_def)
  from sendraw_decode [OF assms(2) this, of pre] show ?thesis
    using assms l by (simp add: path_sendraw_def hex_decode_encode Let_def net_print_def mult.commute)
qed

text \<open>The queue is empty and the message is the bytes 0 to 15.\<close>

definition count_up :: bytes where
  "count_up = map of_nat [0..<16]"

theorem sendraw_roundtrip_witness:
  "\<exists>nrf. path_sendraw plain_printf fifo_ops (replicate 16 0) (hex_encode count_up) 0 32 demo_sys =
    Inr (net_print plain_printf
      ((net_print plain_printf demo_sys (''HTTP/1.1 200 OK'' @ crlf @ ''Content-type: text/plain'' @ crlf @ crlf) [])
        \<lparr>hs_nrf := nrf\<rparr>) (''OK'' @ crlf) [])
    \<and> nrf_send fifo_ops count_up (hs_nrf demo_sys) = Some nrf"
proof -
  have "nrf_send fifo_ops count_up (hs_nrf demo_sys) \<noteq> None"
    by (simp add: nrf_send_def nrf_send_end_def nrf_send_begin_def demo_sys_def nrf_init_def fifo_ops_def
        MBSZ_def)
  then obtain nrf where n: "nrf_send fifo_ops count_up (hs_nrf demo_sys) = Some nrf" by blast
  have "wf_raw count_up" "length (replicate 16 (0 :: u8)) = PAYLOADSZ"
    by (simp_all add: wf_raw_def count_up_def PAYLOADSZ_def)
  from sendraw_roundtrip [OF this n, of plain_printf "[]"] show ?thesis
    using n by (simp add: count_up_def)
qed

section \<open>Connection discipline\<close>

lemma net_print_puts: "\<exists>t. hs_net (net_print pf sys fmt args) = foldl net_put (hs_net sys) t"
  by (intro exI [of _ "pf fmt args"]) (simp add: net_print_def chprintf_def)

definition puts_only :: "'m http_sys \<Rightarrow> 'm http_sys \<Rightarrow> bool" where
  "puts_only sys sys' \<longleftrightarrow> (\<exists>t. hs_net sys' = foldl net_put (hs_net sys) t)"

lemma puts_only_refl [intro]: "puts_only sys sys"
  unfolding puts_only_def by (rule exI [of _ "[]"]) simp

lemma puts_only_trans: "puts_only x y \<Longrightarrow> puts_only y z \<Longrightarrow> puts_only x z"
  unfolding puts_only_def by (metis foldl_append)

lemma puts_only_print: "puts_only x y \<Longrightarrow> puts_only x (net_print pf y fmt args)"
  using puts_only_trans net_print_puts unfolding puts_only_def by metis

lemma puts_only_nrf: "puts_only x y \<Longrightarrow> puts_only x (y\<lparr>hs_nrf := n\<rparr>)"
  by (simp add: puts_only_def)

lemma puts_only_report:
  "puts_only x y \<Longrightarrow> puts_only x (y\<lparr>hs_net := data_json pf net_put now tbl (hs_net y)\<rparr>)"
  "puts_only x y \<Longrightarrow> puts_only x (y\<lparr>hs_net := data_dump pf net_put tbl (hs_net y)\<rparr>)"
  by (rule puts_only_trans, assumption,
      simp add: puts_only_def data_json_text [of pf net_put] data_dump_text [of pf net_put], blast)+

lemma path_root_puts: "puts_only sys (path_root pf sys)"
  by (auto simp: path_root_def Let_def paths_def intro!: puts_only_print)

lemma handler_puts:
  assumes "run_handler pf ops now msg h mem data dlen sys = Inr sys'"
  shows "puts_only sys sys'"
  using assms path_root_puts [of sys pf]
  by (auto simp: run_handler_def path_raw_def path_json_def path_notfound_def path_sendraw_def Let_def
      intro!: puts_only_print puts_only_report puts_only_nrf
      split: option.splits handler.splits if_splits sum.splits)

lemma puts_buffer: "length (ns_buf (foldl net_put net t)) = length (ns_buf net)"
  by (induction t arbitrary: net) (simp_all add: net_defs)

lemma closing_buffer: "length (ns_buf (hs_net (http_closing nc sys))) = length (ns_buf (hs_net sys))"
  by (simp add: http_closing_def sys_call_def net_defs)

lemma opened_buffer: "length (ns_buf (hs_net (http_opened nc sys))) = length (ns_buf (hs_net sys))"
  by (simp add: http_opened_def sys_call_def net_open_def net_call_def)

text \<open>The calls of \<open>httpd_process\<close>, whatever it was sent.\<close>

lemma process_calls:
  assumes "httpd_process pf ops now msg nc received sys = Inr sys'"
    and "length (ns_buf (hs_net sys)) = NET_BUF_SIZE"
  obtains
    "received = None \<or> (\<exists>buf. received = Some buf \<and> parse_request buf = Inr None)"
    "ns_log (hs_net sys') = ns_log (hs_net sys) @ [Netconn_close nc, Netbuf_delete]"
    "length (ns_buf (hs_net sys')) = NET_BUF_SIZE"
  | ws last where
    "ns_log (hs_net sys') = ns_log (hs_net sys) @ [Blink_red] @ map (Netconn_write nc) ws
       @ [Netbuf_delete] @ map (Netconn_write nc) last @ [Netconn_close nc]"
    "\<forall>w\<in>set (ws @ last). w \<noteq> [] \<and> length w \<le> NET_BUF_SIZE"
    "length (ns_buf (hs_net sys')) = NET_BUF_SIZE"
proof -
  consider "sys' = http_bailout nc sys" "received = None \<or> (\<exists>buf. received = Some buf \<and> parse_request buf = Inr None)"
    | sys1 where "puts_only (http_opened nc sys) sys1" "sys' = http_closing nc sys1"
    using assms(1) handler_puts
    by (fastforce simp: httpd_process_def http_opened_def http_closing_def Let_def
        split: option.splits sum.splits prod.splits)
  then show thesis
  proof cases
    case 1
    then show thesis using assms(2) that(1) by (simp add: http_bailout_def sys_call_def net_call_def)
  next
    case 2
    then obtain t where t: "hs_net sys1 = foldl net_put (hs_net (http_opened nc sys)) t"
      unfolding puts_only_def by blast
    have "length (ns_buf (hs_net sys')) = NET_BUF_SIZE"
      using 2(2) t assms(2) by (simp add: closing_buffer opened_buffer puts_buffer)
    then show thesis using exchange_log [OF assms(2) t] that(2) 2(2) by metis
  qed
qed

lemma call_filters:
  "filter ((=) (Netconn_close nc)) (map (Netconn_write nc) vs) = []"
  "filter ((=) Netbuf_delete) (map (Netconn_write nc) vs) = []"
  "dropWhile ((\<noteq>) (Netconn_close nc)) (map (Netconn_write nc) vs @ r) = dropWhile ((\<noteq>) (Netconn_close nc)) r"
  by (induction vs) simp_all

text \<open>
  Whenever \<open>httpd_process\<close> returns, on any input, it has closed its connection exactly once and freed
  the receive buffer exactly once, has written to no other connection and nothing after the
  close, and every write carries between 1 and 512 bytes.
\<close>

theorem httpd_closes_once:
  assumes "httpd_process pf ops now msg nc received sys = Inr sys'"
    and "length (ns_buf (hs_net sys)) = 512"
  shows "\<exists>calls. ns_log (hs_net sys') = ns_log (hs_net sys) @ calls
    \<and> length (filter ((=) (Netconn_close nc)) calls) = 1 \<and> length (filter ((=) Netbuf_delete) calls) = 1
    \<and> dropWhile ((\<noteq>) (Netconn_close nc)) calls \<in> {[Netconn_close nc], [Netconn_close nc, Netbuf_delete]}
    \<and> (\<forall>e\<in>set calls. e \<in> {Blink_red, Netbuf_delete, Netconn_close nc}
        \<or> (\<exists>w. e = Netconn_write nc w \<and> w \<noteq> [] \<and> length w \<le> 512))"
proof -
  have "length (ns_buf (hs_net sys)) = NET_BUF_SIZE" using assms(2) by (simp add: NET_BUF_SIZE_def)
  from assms(1) this show ?thesis
  proof (cases rule: process_calls)
    case 1
    then show ?thesis by (intro exI [of _ "[Netconn_close nc, Netbuf_delete]"]) simp
  next
    case (2 ws last)
    then show ?thesis
      by (intro exI [of _ "[Blink_red] @ map (Netconn_write nc) ws @ [Netbuf_delete]
            @ map (Netconn_write nc) last @ [Netconn_close nc]"]) (auto simp: call_filters NET_BUF_SIZE_def)
  qed
qed

theorem httpd_closes_once_witness:
  "\<exists>calls. ns_log (hs_net (http_bailout 9 demo_sys)) = calls
    \<and> length (filter ((=) (Netconn_close 9)) calls) = 1 \<and> length (filter ((=) Netbuf_delete) calls) = 1"
proof -
  have "httpd_process plain_printf fifo_ops 0 [] 9 (Some (str ''HELO'')) demo_sys = Inr (http_bailout 9 demo_sys)"
    by (simp add: httpd_process_def parse_request_def cut_method_def Let_def unat_len)
  from httpd_closes_once [OF this] show ?thesis
    by (simp add: demo_sys_def net_zero_def NET_BUF_SIZE_def)
qed

end
