(* ===== verification/Nrf_Queue_Props.thy ===== *)
theory Nrf_Queue_Props
  imports Nrf_Queues
begin

text \<open>
  Correctness of the radio queues, for every mailbox that obeys the contract \<open>mailbox\<close> and
  every behaviour of the radio: what each handler does to the queued messages, and the
  invariants of the interleaved system.
\<close>

section \<open>Well-formed driver state\<close>

definition entry_ok :: "('m \<Rightarrow> nat list) \<Rightarrow> ('m \<Rightarrow> bool) \<Rightarrow> 'm nrf_entry \<Rightarrow> bool" where
  "entry_ok view mok s \<longleftrightarrow>
     ring_ok view mok (nr_rx s) (nr_rx_bufs s) (nr_rx_idx s)
     \<and> ring_ok view mok (nr_tx s) (nr_tx_bufs s) (nr_tx_idx s)"

definition rx_pending :: "('m \<Rightarrow> nat list) \<Rightarrow> 'm nrf_entry \<Rightarrow> bytes list" where
  "rx_pending view s = pending view (nr_rx s) (nr_rx_bufs s)"

definition tx_pending :: "('m \<Rightarrow> nat list) \<Rightarrow> 'm nrf_entry \<Rightarrow> bytes list" where
  "tx_pending view s = pending view (nr_tx s) (nr_tx_bufs s)"

lemmas queue_defs = entry_ok_def rx_pending_def tx_pending_def

text \<open>The payload \<open>irq_rx_fill\<close> leaves in the element it fills.\<close>

definition rx_filled :: "miso \<Rightarrow> 'm nrf_entry \<Rightarrow> bytes" where
  "rx_filled miso s =
     fst (snd (nrf_rx miso (nr_rx_bufs s ! nr_rx_idx s) (of_nat PAYLOADSZ) (nr_bus s)))"

context mailbox
begin

lemma rx_drop_effect:
  assumes "entry_ok view mok s"
  obtains m where
    "irq_rx_drop ops s = s\<lparr>nr_bus := nr_bus s @ [Blink_rf False], nr_rx := m\<rparr>"
    "ring_ok view mok m (nr_rx_bufs s) (nr_rx_idx s)" "length (view m) < MBSZ"
    "pending view m (nr_rx_bufs s) =
       (if length (rx_pending view s) = MBSZ then tl (rx_pending view s) else rx_pending view s)"
proof -
  have r: "ring_ok view mok (nr_rx s) (nr_rx_bufs s) (nr_rx_idx s)"
    using assms by (simp add: entry_ok_def)
  then have b: "length (view (nr_rx s)) \<le> MBSZ" by (simp add: ring_ok_def view_bound)
  show ?thesis
  proof (cases "length (view (nr_rx s)) = MBSZ")
    case True
    then have "view (nr_rx s) \<noteq> []" by (auto simp: MBSZ_def)
    with r obtain i m where f: "mb_fetch ops (nr_rx s) = Some (i, m)"
      "ring_ok view mok m (nr_rx_bufs s) (nr_rx_idx s)"
      "pending view (nr_rx s) (nr_rx_bufs s) = nr_rx_bufs s ! i # pending view m (nr_rx_bufs s)"
      "view (nr_rx s) = i # view m"
      by (rule ring_fetch)
    then show ?thesis
      using True ring_full [OF r] b
      by (intro that [of m]) (simp_all add: irq_rx_drop_def Let_def rx_pending_def)
  next
    case False
    then show ?thesis
      using r b ring_full [OF r]
      by (intro that [of "nr_rx s"]) (simp_all add: irq_rx_drop_def Let_def rx_pending_def)
  qed
qed

lemma rx_fill_effect:
  assumes "entry_ok view mok s" "length (view (nr_rx s)) < MBSZ"
  obtains tr where
    "irq_rx_fill miso s =
       s\<lparr>nr_rx_bufs := (nr_rx_bufs s)[nr_rx_idx s := rx_filled miso s], nr_bus := tr\<rparr>"
    "tr = snd (snd (nrf_rx miso (nr_rx_bufs s ! nr_rx_idx s) (of_nat PAYLOADSZ) (nr_bus s)))"
    "length (rx_filled miso s) = PAYLOADSZ"
    "entry_ok view mok (irq_rx_fill miso s)"
    "rx_pending view (irq_rx_fill miso s) = rx_pending view s"
    "nr_rx_bufs (irq_rx_fill miso s) ! nr_rx_idx s = rx_filled miso s"
proof -
  have r: "ring_ok view mok (nr_rx s) (nr_rx_bufs s) (nr_rx_idx s)"
    using assms by (simp add: entry_ok_def)
  then have i: "nr_rx_idx s < MBSZ" "length (nr_rx_bufs s) = MBSZ" by (simp_all add: ring_ok_def)
  have l: "length (rx_filled miso s) = PAYLOADSZ"
    unfolding rx_filled_def
    using nrf_rx_buffer(1) [of "nr_rx_bufs s ! nr_rx_idx s" "of_nat PAYLOADSZ" miso "nr_bus s"]
      ring_ok_bufD [OF r i(1)] by (simp add: PAYLOADSZ_def)
  have eq: "irq_rx_fill miso s =
       s\<lparr>nr_rx_bufs := (nr_rx_bufs s)[nr_rx_idx s := rx_filled miso s],
         nr_bus := snd (snd (nrf_rx miso (nr_rx_bufs s ! nr_rx_idx s) (of_nat PAYLOADSZ) (nr_bus s)))\<rparr>"
    by (simp add: irq_rx_fill_def rx_filled_def split_beta)
  show ?thesis
    using that [OF eq refl l] ring_write [OF r assms(2) l] assms(1) i
    by (simp add: eq queue_defs)
qed

lemma rx_post_effect:
  assumes "entry_ok view mok s" "length (view (nr_rx s)) < MBSZ"
  obtains m where
    "irq_rx_post ops s = s\<lparr>nr_rx := m, nr_rx_idx := (nr_rx_idx s + 1) mod MBSZ\<rparr>"
    "ring_ok view mok m (nr_rx_bufs s) ((nr_rx_idx s + 1) mod MBSZ)"
    "pending view m (nr_rx_bufs s) = rx_pending view s @ [nr_rx_bufs s ! nr_rx_idx s]"
proof -
  have r: "ring_ok view mok (nr_rx s) (nr_rx_bufs s) (nr_rx_idx s)"
    using assms by (simp add: entry_ok_def)
  from r assms(2) obtain m where "mb_post ops (nr_rx s) (nr_rx_idx s) = Some m"
    "ring_ok view mok m (nr_rx_bufs s) ((nr_rx_idx s + 1) mod MBSZ)"
    "pending view m (nr_rx_bufs s) = pending view (nr_rx s) (nr_rx_bufs s) @ [nr_rx_bufs s ! nr_rx_idx s]"
    by (rule ring_post)
  then show ?thesis
    by (intro that [of m]) (simp_all add: irq_rx_post_def Let_def rx_pending_def)
qed

lemma recv_effect:
  assumes "entry_ok view mok s" "length buf = PAYLOADSZ"
  shows "case rx_pending view s of
      [] \<Rightarrow> nrf_recv ops buf s = None
    | m # ms \<Rightarrow> \<exists>rx. nrf_recv ops buf s = Some (m, s\<lparr>nr_rx := rx\<rparr>)
        \<and> ring_ok view mok rx (nr_rx_bufs s) (nr_rx_idx s)
        \<and> pending view rx (nr_rx_bufs s) = ms \<and> length (view rx) \<le> length (view (nr_rx s))"
proof -
  have r: "ring_ok view mok (nr_rx s) (nr_rx_bufs s) (nr_rx_idx s)"
    using assms by (simp add: entry_ok_def)
  show ?thesis
  proof (cases "view (nr_rx s) = []")
    case True
    then show ?thesis
      using ring_fetch_empty [OF r] by (simp add: nrf_recv_def rx_pending_def pending_def)
  next
    case False
    with r obtain i m where f: "mb_fetch ops (nr_rx s) = Some (i, m)" "i < MBSZ"
      "ring_ok view mok m (nr_rx_bufs s) (nr_rx_idx s)"
      "pending view (nr_rx s) (nr_rx_bufs s) = nr_rx_bufs s ! i # pending view m (nr_rx_bufs s)"
      "view (nr_rx s) = i # view m"
      by (rule ring_fetch)
    then show ?thesis
      using ring_ok_bufD [OF r f(2)] assms(2)
      by (simp add: nrf_recv_def rx_pending_def) (rule exI [of _ m], simp)
  qed
qed

lemma send_effect:
  assumes "entry_ok view mok s" "wf_raw msg"
  shows "if length (tx_pending view s) = MBSZ then nrf_send_end ops (nr_tx_idx s) msg s = None
    else \<exists>tx. nrf_send_end ops (nr_tx_idx s) msg s = Some (s\<lparr>nr_tx := tx,
            nr_tx_bufs := (nr_tx_bufs s)[nr_tx_idx s := msg],
            nr_tx_idx := (nr_tx_idx s + 1) mod MBSZ\<rparr>)
          \<and> ring_ok view mok tx ((nr_tx_bufs s)[nr_tx_idx s := msg]) ((nr_tx_idx s + 1) mod MBSZ)
          \<and> pending view tx ((nr_tx_bufs s)[nr_tx_idx s := msg]) = tx_pending view s @ [msg]"
proof -
  have r: "ring_ok view mok (nr_tx s) (nr_tx_bufs s) (nr_tx_idx s)"
    using assms by (simp add: entry_ok_def)
  then have i: "nr_tx_idx s < MBSZ" "length (nr_tx_bufs s) = MBSZ" "mok (nr_tx s)"
    by (simp_all add: ring_ok_def)
  show ?thesis
  proof (cases "length (view (nr_tx s)) = MBSZ")
    case True
    then show ?thesis using post_full i by (simp add: nrf_send_end_def tx_pending_def)
  next
    case False
    then have lt: "length (view (nr_tx s)) < MBSZ"
      using view_bound i by (simp add: le_neq_implies_less)
    have l: "length msg = PAYLOADSZ" using assms(2) by (simp add: wf_raw_def)
    have c: "memcpy_bytes (nr_tx_bufs s ! nr_tx_idx s) msg PAYLOADSZ = msg"
      using l ring_ok_bufD [OF r i(1)] by simp
    let ?b = "(nr_tx_bufs s)[nr_tx_idx s := msg]"
    note w = ring_write [OF r lt l]
    from w(1) lt obtain tx where "mb_post ops (nr_tx s) (nr_tx_idx s) = Some tx"
      "ring_ok view mok tx ?b ((nr_tx_idx s + 1) mod MBSZ)"
      "pending view tx ?b = pending view (nr_tx s) ?b @ [?b ! nr_tx_idx s]"
      by (rule ring_post)
    then show ?thesis
      using False w(2) c i
      by (simp add: nrf_send_end_def tx_pending_def) (rule exI [of _ tx], simp)
  qed
qed

lemma tx_fetch_effect:
  assumes "entry_ok view mok s" "view (nr_tx s) \<noteq> []"
  obtains i tx where
    "check_tx_fetch ops s = Some (i, s\<lparr>nr_tx := tx\<rparr>)" "i < MBSZ"
    "ring_ok view mok tx (nr_tx_bufs s) (nr_tx_idx s)"
    "tx_pending view s = nr_tx_bufs s ! i # pending view tx (nr_tx_bufs s)"
proof -
  have r: "ring_ok view mok (nr_tx s) (nr_tx_bufs s) (nr_tx_idx s)"
    using assms by (simp add: entry_ok_def)
  from r assms(2) obtain i m where "mb_fetch ops (nr_tx s) = Some (i, m)" "i < MBSZ"
      "ring_ok view mok m (nr_tx_bufs s) (nr_tx_idx s)"
      "pending view (nr_tx s) (nr_tx_bufs s) = nr_tx_bufs s ! i # pending view m (nr_tx_bufs s)"
    by (rule ring_fetch)
  then show ?thesis
    by (intro that [of i m]) (simp_all add: check_tx_fetch_def tx_pending_def)
qed

lemma tx_used: "entry_ok view mok s \<Longrightarrow> mb_used ops (nr_tx s) = length (tx_pending view s)"
  using ring_used [of "nr_tx s" "nr_tx_bufs s" "nr_tx_idx s"] by (simp add: queue_defs)

end

section \<open>Invariants of the interleaved system\<close>

text \<open>
  \<open>queue_inv\<close>: both rings are in order at every point; while the interrupt handler fills an
  element the mailbox has room for it; the pointer a waiting sender computed is still the
  next one; when the thread is about to fetch there is something to fetch.
\<close>

definition queue_inv :: "('m \<Rightarrow> nat list) \<Rightarrow> ('m \<Rightarrow> bool) \<Rightarrow> 'm radio_sys \<Rightarrow> bool" where
  "queue_inv view mok y \<longleftrightarrow> entry_ok view mok (rs_st y)
     \<and> ((\<exists>st. rs_pc y = Rx_fill st \<or> rs_pc y = Rx_post st) \<longrightarrow> length (view (nr_rx (rs_st y))) < MBSZ)
     \<and> (rs_pc y = Tx_fetch \<longrightarrow> view (nr_tx (rs_st y)) \<noteq> [])
     \<and> (\<forall>i. rs_pc y = Tx_write i \<longrightarrow> i < MBSZ)
     \<and> (\<forall>p m. rs_sender y = Some (p, m) \<longrightarrow> p = nr_tx_idx (rs_st y) \<and> wf_raw m)"

text \<open>
  \<open>rx_order\<close>: what was received and what is queued is, in order, a selection of what the
  interrupt handler posted.
\<close>

definition rx_order :: "('m \<Rightarrow> nat list) \<Rightarrow> 'm radio_sys \<Rightarrow> bool" where
  "rx_order view y \<longleftrightarrow> subseq (rs_received y @ rx_pending view (rs_st y)) (rs_posted y)"

definition rx_newest :: "('m \<Rightarrow> nat list) \<Rightarrow> 'm radio_sys \<Rightarrow> bool" where
  "rx_newest view y \<longleftrightarrow>
     (let rs = rs_received y @ rx_pending view (rs_st y)
      in if rs_posted y = [] then rs = [] else rs \<noteq> [] \<and> last rs = last (rs_posted y))"

text \<open>The message fetched but not yet written to the radio.\<close>

definition in_flight :: "'m radio_sys \<Rightarrow> bytes list" where
  "in_flight y = (case rs_pc y of Tx_write i \<Rightarrow> [nr_tx_bufs (rs_st y) ! i] | _ \<Rightarrow> [])"

definition radio_chip :: "'m radio_sys \<Rightarrow> chip" where
  "radio_chip y = chip_of chip_reset (nr_bus (rs_st y))"

text \<open>\<open>tx_order\<close>: what \<open>nrf_send\<close> accepted is what the radio was given, then what is in flight,
  then what is queued.\<close>

definition tx_order :: "('m \<Rightarrow> nat list) \<Rightarrow> 'm radio_sys \<Rightarrow> bool" where
  "tx_order view y \<longleftrightarrow>
     rs_sent y = cp_payloads (radio_chip y) @ in_flight y @ tx_pending view (rs_st y)"

text \<open>
  \<open>chip_inv\<close>: the bus protocol is respected; CE is low exactly between the standby and the
  payload write of a transmission; otherwise the radio is powered up, as receiver or as
  transmitter.
\<close>

definition chip_inv :: "'m radio_sys \<Rightarrow> bool" where
  "chip_inv y \<longleftrightarrow> idle (radio_chip y)
     \<and> (cp_ce (radio_chip y) \<longleftrightarrow> \<not> (rs_pc y = Tx_fetch \<or> (\<exists>i. rs_pc y = Tx_write i)))
     \<and> (cp_regs (radio_chip y) CONFIG = Some [0x0E] \<or> cp_regs (radio_chip y) CONFIG = Some [0x0F])"

lemma blink_chip [simp]: "chip_of c (tr @ [Blink_rf b]) = chip_of c tr"
  by simp

lemma chip_irq_status:
  "irq_status miso s = (status, s') \<Longrightarrow> idle (chip_of c (nr_bus s)) \<Longrightarrow>
   chip_of c (nr_bus s') = chip_of c (nr_bus s) \<and> (\<exists>tr. s' = s\<lparr>nr_bus := tr\<rparr>)"
  using chip_get_status [of c "nr_bus s" miso]
  by (auto simp: irq_status_def split_beta)

lemma chip_check_tx_standby:
  "idle (chip_of c (nr_bus s)) \<Longrightarrow>
   chip_of c (nr_bus (check_tx_standby s)) = (chip_of c (nr_bus s))\<lparr>cp_ce := False,
     cp_regs := (cp_regs (chip_of c (nr_bus s)))(CONFIG \<mapsto> [0x0E])\<rparr>"
  by (simp add: check_tx_standby_def chip_standby)

lemma chip_irq_tx_done:
  "idle (chip_of c (nr_bus s)) \<Longrightarrow>
   chip_of c (nr_bus (irq_tx_done ops s)) =
     (if mb_used ops (nr_tx s) = 0
      then (chip_of c (nr_bus s))\<lparr>cp_ce := True,
             cp_regs := (cp_regs (chip_of c (nr_bus s)))(CONFIG \<mapsto> [0x0F])\<rparr>
      else chip_of c (nr_bus s))"
  by (simp add: irq_tx_done_def Let_def chip_rx_mode chip_standby del: chip_of_append)

lemma irq_tx_done_state: "\<exists>tr. irq_tx_done ops s = s\<lparr>nr_bus := tr\<rparr>"
  by (auto simp: irq_tx_done_def Let_def)

lemma chip_irq_ack:
  "idle (chip_of c (nr_bus s)) \<Longrightarrow>
   chip_of c (nr_bus (irq_ack status s)) =
     (chip_of c (nr_bus s))\<lparr>cp_regs := (cp_regs (chip_of c (nr_bus s)))(STATUS \<mapsto> [status])\<rparr>"
  by (simp add: irq_ack_def chip_write_reg)

lemma subseq_drop_first: "subseq (as @ bs) cs \<Longrightarrow> subseq (as @ tl bs) cs"
proof -
  assume "subseq (as @ bs) cs"
  moreover have "subseq (tl bs) bs" by (cases bs) auto
  then have "subseq (as @ tl bs) (as @ bs)"
    by (intro list_emb_append_mono) auto
  ultimately show ?thesis by (rule subseq_order.trans [rotated])
qed

context mailbox
begin

lemma queue_inv_step:
  assumes "radio_step locked ops y z" "queue_inv view mok y"
  shows "queue_inv view mok z"
  using assms
proof (induction rule: radio_step.induct)
  case (wake y miso status s)
  then obtain tr where "s = rs_st y\<lparr>nr_evt := False, nr_bus := tr\<rparr>"
    by (auto simp: irq_status_def split_beta)
  with wake show ?case by (simp add: queue_inv_def entry_ok_def)
next
  case (rx_drop y status)
  then have ok: "entry_ok view mok (rs_st y)" by (simp add: queue_inv_def)
  show ?case
    by (rule rx_drop_effect [OF ok]) (use rx_drop in \<open>auto simp: queue_inv_def entry_ok_def\<close>)
next
  case (rx_fill y status miso)
  then have ok: "entry_ok view mok (rs_st y)" "length (view (nr_rx (rs_st y))) < MBSZ"
    by (auto simp: queue_inv_def)
  show ?case
    by (rule rx_fill_effect [OF ok, of miso]) (use rx_fill in \<open>auto simp: queue_inv_def\<close>)
next
  case (rx_post y status)
  then have ok: "entry_ok view mok (rs_st y)" "length (view (nr_rx (rs_st y))) < MBSZ"
    by (auto simp: queue_inv_def)
  show ?case
    by (rule rx_post_effect [OF ok]) (use rx_post in \<open>auto simp: queue_inv_def entry_ok_def\<close>)
next
  case (tx_done y status)
  moreover obtain tr where "irq_tx_done ops (rs_st y) = rs_st y\<lparr>nr_bus := tr\<rparr>"
    using irq_tx_done_state by blast
  ultimately show ?case by (auto simp: queue_inv_def entry_ok_def)
next
  case (check y)
  then have ok: "entry_ok view mok (rs_st y)" by (simp add: queue_inv_def)
  then have "view (nr_tx (rs_st y)) \<noteq> []"
    using check tx_used [OF ok] by (auto simp: tx_pending_def pending_def)
  with check show ?case by (simp add: queue_inv_def entry_ok_def check_tx_standby_def)
next
  case (tx_fetch y msg s)
  then have ok: "entry_ok view mok (rs_st y)" "view (nr_tx (rs_st y)) \<noteq> []"
    by (auto simp: queue_inv_def)
  show ?case
    by (rule tx_fetch_effect [OF ok]) (use tx_fetch in \<open>auto simp: queue_inv_def entry_ok_def\<close>)
next
  case (recv buf y m s)
  then have ok: "entry_ok view mok (rs_st y)" "length buf = PAYLOADSZ"
    by (auto simp: queue_inv_def)
  show ?case
    using recv_effect [OF ok] recv
    by (auto simp: queue_inv_def entry_ok_def split: list.splits)
next
  case (send_call y m)
  then show ?case by (simp add: queue_inv_def nrf_send_begin_def)
next
  case (send_return y out_msg m s)
  then have ok: "entry_ok view mok (rs_st y)" "wf_raw m" "out_msg = nr_tx_idx (rs_st y)"
    by (auto simp: queue_inv_def)
  show ?case
    using send_effect [OF ok(1,2)] send_return ok
    by (auto simp: queue_inv_def entry_ok_def pending_def split: if_splits)
qed (auto simp: queue_inv_def entry_ok_def irq_ack_def check_tx_write_def nrf_kick_loop_def)

text \<open>
  What a step does to the receive side: nothing, drop the oldest of several queued messages, post
  one, or take the oldest.
\<close>

lemma rx_step_view:
  assumes "radio_step locked ops y z" "queue_inv view mok y"
  shows "(rs_received z = rs_received y \<and> rs_posted z = rs_posted y
        \<and> (rx_pending view (rs_st z) = rx_pending view (rs_st y)
           \<or> rx_pending view (rs_st z) = tl (rx_pending view (rs_st y)) \<and> tl (rx_pending view (rs_st y)) \<noteq> []))
    \<or> (rs_received z = rs_received y
        \<and> (\<exists>m. rs_posted z = rs_posted y @ [m] \<and> rx_pending view (rs_st z) = rx_pending view (rs_st y) @ [m]))
    \<or> (rs_posted z = rs_posted y
        \<and> (\<exists>m. rs_received z = rs_received y @ [m] \<and> rx_pending view (rs_st y) = m # rx_pending view (rs_st z)))"
  using assms
proof (induction rule: radio_step.induct)
  case (wake y miso status s)
  then obtain tr where "s = rs_st y\<lparr>nr_evt := False, nr_bus := tr\<rparr>"
    by (auto simp: irq_status_def split_beta)
  with wake show ?case by (simp add: rx_pending_def)
next
  case (rx_drop y status)
  then have ok: "entry_ok view mok (rs_st y)" by (simp add: queue_inv_def)
  have "tl (rx_pending view (rs_st y)) \<noteq> []" if "length (rx_pending view (rs_st y)) = MBSZ"
    using that by (cases "rx_pending view (rs_st y)") (auto simp: MBSZ_def)
  moreover obtain m where "irq_rx_drop ops (rs_st y) = rs_st y\<lparr>nr_bus := nr_bus (rs_st y) @ [Blink_rf False], nr_rx := m\<rparr>"
    "pending view m (nr_rx_bufs (rs_st y)) =
       (if length (rx_pending view (rs_st y)) = MBSZ then tl (rx_pending view (rs_st y)) else rx_pending view (rs_st y))"
    by (rule rx_drop_effect [OF ok])
  ultimately show ?case by (simp add: rx_pending_def)
next
  case (rx_fill y status miso)
  then have ok: "entry_ok view mok (rs_st y)" "length (view (nr_rx (rs_st y))) < MBSZ"
    by (auto simp: queue_inv_def)
  show ?case
    by (rule rx_fill_effect [OF ok, of miso]) (use rx_fill in simp)
next
  case (rx_post y status)
  then have ok: "entry_ok view mok (rs_st y)" "length (view (nr_rx (rs_st y))) < MBSZ"
    by (auto simp: queue_inv_def)
  show ?case
    by (rule rx_post_effect [OF ok]) (simp add: rx_pending_def)
next
  case (tx_done y status)
  moreover obtain tr where "irq_tx_done ops (rs_st y) = rs_st y\<lparr>nr_bus := tr\<rparr>"
    using irq_tx_done_state by blast
  ultimately show ?case by (simp add: rx_pending_def)
next
  case (tx_fetch y msg s)
  then show ?case
    by (auto simp: check_tx_fetch_def rx_pending_def split: option.splits)
next
  case (recv buf y m s)
  then have ok: "entry_ok view mok (rs_st y)" "length buf = PAYLOADSZ"
    by (auto simp: queue_inv_def)
  show ?case
    using recv_effect [OF ok] recv
    by (auto simp: rx_pending_def split: list.splits)
next
  case (send_return y out_msg m s)
  then show ?case
    by (auto simp: nrf_send_end_def rx_pending_def split: option.splits)
qed (auto simp: rx_pending_def irq_ack_def check_tx_write_def check_tx_standby_def nrf_kick_loop_def)

lemma rx_order_step:
  assumes "radio_step locked ops y z" "queue_inv view mok y" "rx_order view y"
  shows "rx_order view z"
  using rx_step_view [OF assms(1,2)] assms(3) unfolding rx_order_def
proof (elim disjE conjE exE)
  assume "rs_received z = rs_received y" "rs_posted z = rs_posted y"
    "rx_pending view (rs_st z) = tl (rx_pending view (rs_st y))"
  then show "subseq (rs_received z @ rx_pending view (rs_st z)) (rs_posted z)"
    using assms(3) subseq_drop_first by (simp add: rx_order_def)
next
  fix m
  assume "rs_received z = rs_received y" "rs_posted z = rs_posted y @ [m]"
    "rx_pending view (rs_st z) = rx_pending view (rs_st y) @ [m]"
  then show "subseq (rs_received z @ rx_pending view (rs_st z)) (rs_posted z)"
    using list_emb_append_mono [of "(=)" "rs_received y @ rx_pending view (rs_st y)" "rs_posted y" "[m]" "[m]"] assms(3)
    by (simp add: rx_order_def)
qed simp_all

text \<open>The newest message is never the one dropped: it is queued or was the last one received.\<close>

lemma rx_newest_step:
  assumes "radio_step locked ops y z" "queue_inv view mok y" "rx_newest view y"
  shows "rx_newest view z"
  using rx_step_view [OF assms(1,2)]
proof (elim disjE conjE exE)
  assume z: "rs_received z = rs_received y" "rs_posted z = rs_posted y"
    "rx_pending view (rs_st z) = tl (rx_pending view (rs_st y))" and ne: "tl (rx_pending view (rs_st y)) \<noteq> []"
  then have "last (tl (rx_pending view (rs_st y))) = last (rx_pending view (rs_st y))" "rx_pending view (rs_st y) \<noteq> []"
    by (auto simp: last_tl)
  then show ?thesis using assms(3) z ne by (simp add: rx_newest_def Let_def split: if_splits)
next
  fix m
  assume "rs_posted z = rs_posted y" "rs_received z = rs_received y @ [m]"
    "rx_pending view (rs_st y) = m # rx_pending view (rs_st z)"
  then show ?thesis using assms(3) by (simp add: rx_newest_def Let_def split: if_splits)
qed (use assms(3) in \<open>simp_all add: rx_newest_def Let_def split: if_splits\<close>)

end

lemma chip_inv_step:
  assumes "radio_step locked ops y z" "chip_inv y"
  shows "chip_inv z"
  using assms
proof (induction rule: radio_step.induct)
  case (wake y miso status s)
  then show ?case
    using chip_irq_status [of miso "rs_st y\<lparr>nr_evt := False\<rparr>" status s chip_reset]
    by (simp add: chip_inv_def radio_chip_def)
next
  case (rx_drop y status)
  then show ?case
    by (simp add: chip_inv_def radio_chip_def irq_rx_drop_def Let_def split: option.split)
next
  case (rx_fill y status miso)
  then show ?case
    by (simp add: chip_inv_def radio_chip_def irq_rx_fill_def split_beta chip_rx)
next
  case (rx_post y status)
  then show ?case
    by (simp add: chip_inv_def radio_chip_def irq_rx_post_def Let_def split: option.split)
next
  case (tx_done y status)
  then show ?case
    by (simp add: chip_inv_def radio_chip_def chip_irq_tx_done)
next
  case (ack y status)
  then show ?case
    by (simp add: chip_inv_def radio_chip_def chip_irq_ack config_other [symmetric])
next
  case (check y)
  then show ?case by (simp add: chip_inv_def radio_chip_def chip_check_tx_standby)
next
  case (tx_fetch y msg s)
  then show ?case
    by (auto simp: chip_inv_def radio_chip_def check_tx_fetch_def split: option.splits)
next
  case (tx_write y msg)
  then show ?case by (simp add: chip_inv_def radio_chip_def check_tx_write_def chip_tx)
next
  case (recv buf y m s)
  then show ?case
    by (auto simp: chip_inv_def radio_chip_def nrf_recv_def split: option.splits)
next
  case (send_return y out_msg m s)
  then show ?case
    by (auto simp: chip_inv_def radio_chip_def nrf_send_end_def nrf_kick_loop_def split: option.splits)
qed (auto simp: chip_inv_def radio_chip_def nrf_kick_loop_def)

lemma chip_payloads_const:
  assumes "idle (radio_chip y)" "radio_step locked ops y z" "\<forall>i. rs_pc y \<noteq> Tx_write i"
  shows "cp_payloads (radio_chip z) = cp_payloads (radio_chip y)"
  using assms(2,1,3)
proof (induction rule: radio_step.induct)
  case (wake y miso status s)
  then show ?case
    using chip_irq_status [of miso "rs_st y\<lparr>nr_evt := False\<rparr>" status s chip_reset]
    by (simp add: radio_chip_def)
qed (auto simp: radio_chip_def irq_rx_drop_def irq_rx_fill_def irq_rx_post_def chip_irq_tx_done
    chip_irq_ack chip_check_tx_standby check_tx_fetch_def nrf_recv_def nrf_send_end_def
    nrf_kick_loop_def split_beta chip_rx Let_def split: option.splits simp del: chip_of_append)

context mailbox
begin

lemma tx_order_step:
  assumes "radio_step True ops y z" "queue_inv view mok y" "chip_inv y" "tx_order view y"
  shows "tx_order view z"
proof -
  have idle: "idle (radio_chip y)" using assms(3) by (simp add: chip_inv_def)
  have ok: "entry_ok view mok (rs_st y)" using assms(2) by (simp add: queue_inv_def)
  show ?thesis
    using assms(1) idle ok assms(2-4) chip_payloads_const [OF idle assms(1)]
  proof (induction rule: radio_step.induct)
    case (wake y miso status s)
    then obtain tr where "s = rs_st y\<lparr>nr_evt := False, nr_bus := tr\<rparr>"
      by (auto simp: irq_status_def split_beta)
    with wake show ?case by (simp add: tx_order_def in_flight_def tx_pending_def)
  next
    case (tx_done y status)
    moreover obtain tr where "irq_tx_done ops (rs_st y) = rs_st y\<lparr>nr_bus := tr\<rparr>"
      using irq_tx_done_state by blast
    ultimately show ?case by (simp add: tx_order_def in_flight_def tx_pending_def)
  next
    case (tx_fetch y msg s)
    then have ne: "view (nr_tx (rs_st y)) \<noteq> []" by (simp add: queue_inv_def)
    show ?case
      by (rule tx_fetch_effect [OF tx_fetch(4) ne])
        (use tx_fetch in \<open>auto simp: tx_order_def in_flight_def tx_pending_def\<close>)
  next
    case (tx_write y msg)
    then have i: "msg < MBSZ" "\<not> cp_ce (radio_chip y)"
      by (auto simp: queue_inv_def chip_inv_def)
    then have "length (nr_tx_bufs (rs_st y) ! msg) = PAYLOADSZ"
      using tx_write by (auto simp: entry_ok_def ring_ok_bufD)
    then have "cp_payloads (radio_chip (y\<lparr>rs_st := check_tx_write msg (rs_st y), rs_pc := Waiting\<rparr>))
        = cp_payloads (radio_chip y) @ [nr_tx_bufs (rs_st y) ! msg]"
      using tx_write i by (simp add: radio_chip_def check_tx_write_def chip_tx)
    then show ?case
      using tx_write by (simp add: tx_order_def in_flight_def tx_pending_def check_tx_write_def)
  next
    case (send_return y out_msg m s)
    then have s: "wf_raw m" "out_msg = nr_tx_idx (rs_st y)" "\<forall>i. rs_pc y \<noteq> Tx_write i"
      by (auto simp: queue_inv_def)
    then have "in_flight y = []" by (auto simp: in_flight_def split: radio_pc.splits)
    moreover have "in_flight (y\<lparr>rs_st := s, rs_sender := None, rs_sent := rs_sent y @ [m]\<rparr>) = []"
      using s by (auto simp: in_flight_def split: radio_pc.splits)
    ultimately show ?case
      using send_effect [OF send_return(5) s(1)] send_return s
      by (auto simp: tx_order_def tx_pending_def split: if_splits)
  qed (auto simp: tx_order_def in_flight_def tx_pending_def irq_rx_drop_def irq_rx_fill_def
      irq_rx_post_def irq_ack_def check_tx_standby_def nrf_recv_def nrf_kick_loop_def split_beta
      Let_def radio_chip_def split: option.splits radio_pc.splits)
qed

end

end
