(* ===== verification/Radio_System.thy ===== *)
theory Radio_System
  imports Nrf_Queue_Props
begin

text \<open>
  The properties of the radio driver as a whole: the configuration it makes, one turn of its
  thread, and every reachable state of the thread interleaved with the callers of \<open>nrf_recv\<close>
  and \<open>nrf_send\<close> and with the external interrupt.
\<close>

section \<open>Boot\<close>

text \<open>The buffers have their sizes; nothing else is assumed of the memory before \<open>nrf_init\<close>.\<close>

definition bufs_ok :: "'m nrf_entry \<Rightarrow> bool" where
  "bufs_ok s \<longleftrightarrow> length (nr_rx_bufs s) = MBSZ \<and> length (nr_tx_bufs s) = MBSZ
     \<and> (\<forall>b\<in>set (nr_rx_bufs s). length b = PAYLOADSZ) \<and> (\<forall>b\<in>set (nr_tx_bufs s). length b = PAYLOADSZ)"

definition zero_nrf :: "(nat \<times> nat list) nrf_entry" where
  "zero_nrf = \<lparr>nr_rx = (0, []), nr_rx_bufs = replicate MBSZ (replicate PAYLOADSZ 0), nr_rx_idx = 0,
     nr_tx = (0, []), nr_tx_bufs = replicate MBSZ (replicate PAYLOADSZ 0), nr_tx_idx = 0,
     nr_evt = False, nr_bus = []\<rparr>"

lemma zero_nrf_ok [simp]: "bufs_ok zero_nrf"
  by (simp add: bufs_ok_def zero_nrf_def)

text \<open>The radio along the configuration: only CE and the registers change.\<close>

definition configured :: "chip \<Rightarrow> chip \<Rightarrow> bus \<Rightarrow> bool \<Rightarrow> (u8 \<Rightarrow> bytes option) \<Rightarrow> bool" where
  "configured c k tr ce regs \<longleftrightarrow> idle k \<and> chip_of c tr = k\<lparr>cp_ce := ce, cp_regs := regs\<rparr>"

lemma configured_steps:
  "configured c k tr ce R \<Longrightarrow> reg_addr a \<Longrightarrow> a \<noteq> CONFIG \<Longrightarrow>
     configured c k (nrf_write_reg a v tr) ce (R(a \<mapsto> [v]))"
  "configured c k tr ce R \<Longrightarrow> reg_addr a \<Longrightarrow> a \<noteq> CONFIG \<Longrightarrow>
     configured c k (nrf_write_addr a dat n tr) ce (R(a \<mapsto> take n dat))"
  "configured c k tr ce R \<Longrightarrow> configured c k (nrf_flush_tx tr) ce R"
  "configured c k tr ce R \<Longrightarrow> configured c k (nrf_flush_rx tr) ce R"
  "configured c k tr ce R \<Longrightarrow> configured c k (nrf_powerdown tr) False (R(CONFIG \<mapsto> [0]))"
  "configured c k tr ce R \<Longrightarrow> configured c k (nrf_standby tr) False (R(CONFIG \<mapsto> [0x0E]))"
  "configured c k tr False R \<Longrightarrow> configured c k (nrf_rx_mode tr) True (R(CONFIG \<mapsto> [0x0F]))"
  by (simp_all add: configured_def chip_simps)

lemma setup_configured:
  assumes "configured c k tr ce R"
  shows "configured c k (nrf_radio_setup tr) True
    (R(CONFIG \<mapsto> [0], SETUP_AW \<mapsto> [ADDR_AW], TX_ADDR \<mapsto> take (length broadcast) broadcast,
       SETUP_RETR \<mapsto> [push_bit ARD_SHIFT 0x0 OR push_bit ARC_SHIFT 0x0],
       RX_ADDR_P0 \<mapsto> take (length broadcast) broadcast, EN_RXADDR \<mapsto> [ERX_P0], EN_AA \<mapsto> [0],
       DYNPD \<mapsto> [0], RX_PW_P0 \<mapsto> [of_nat PAYLOADSZ], RF_CH \<mapsto> [CHANNEL],
       RF_SETUP \<mapsto> [RF_DR_1M OR RF_PWR_3], STATUS \<mapsto> [RX_DR OR TX_DS OR MAX_RT],
       CONFIG \<mapsto> [0x0E], CONFIG \<mapsto> [0x0F]))"
  unfolding nrf_radio_setup_def Let_def
  by (rule configured_steps assms reg_addr_consts config_other)+

lemma setup_chip:
  assumes "idle (chip_of c tr)"
  shows "chip_of c (nrf_radio_setup tr) = (chip_of c tr)\<lparr>cp_ce := True,
    cp_regs := (cp_regs (chip_of c tr))
      (CONFIG \<mapsto> [0], SETUP_AW \<mapsto> [1], TX_ADDR \<mapsto> broadcast, SETUP_RETR \<mapsto> [0], RX_ADDR_P0 \<mapsto> broadcast,
       EN_RXADDR \<mapsto> [1], EN_AA \<mapsto> [0], DYNPD \<mapsto> [0], RX_PW_P0 \<mapsto> [16], RF_CH \<mapsto> [24],
       RF_SETUP \<mapsto> [6], STATUS \<mapsto> [0x70], CONFIG \<mapsto> [0x0F])\<rparr>"
proof -
  have "configured c (chip_of c tr) tr (cp_ce (chip_of c tr)) (cp_regs (chip_of c tr))"
    using assms by (simp add: configured_def)
  from setup_configured [OF this] show ?thesis
    by (simp add: configured_def PAYLOADSZ_def CHANNEL_def ADDR_AW_def nrf_regs)
qed

text \<open>
  C26. The configuration sequence of the radio thread respects the bus protocol from any idle
  state and leaves the radio receiving: powered up with 16-bit CRC as primary receiver, CE
  high, channel 24, 1 Mbps at full power, 3-byte addresses, pipe 0 alone enabled with 16-byte
  payloads on the very address used for transmission, no acknowledgements and no
  retransmission.
\<close>

theorem radio_configuration:
  assumes "idle (chip_of c tr)"
  shows "let c' = chip_of c (nrf_radio_setup tr); reg = cp_regs c'
    in idle c' \<and> cp_ce c' \<and> cp_payloads c' = cp_payloads (chip_of c tr)
       \<and> reg CONFIG = Some [EN_CRC OR CRCO OR PWR_UP OR PRIM_RX]
       \<and> reg RX_PW_P0 = Some [of_nat PAYLOADSZ] \<and> reg RF_CH = Some [24]
       \<and> reg TX_ADDR = reg RX_ADDR_P0 \<and> reg RX_ADDR_P0 = Some [0x10, 0xAB, 0x0F]
       \<and> reg SETUP_AW = Some [of_nat (length broadcast - 2)]
       \<and> reg EN_RXADDR = Some [ERX_P0] \<and> reg EN_AA = Some [0] \<and> reg SETUP_RETR = Some [0]
       \<and> reg DYNPD = Some [0] \<and> reg RF_SETUP = Some [0x06]"
  unfolding setup_chip [OF assms] Let_def
  by (simp add: assms nrf_regs broadcast_def PAYLOADSZ_def)

theorem radio_configuration_witness:
  "cp_regs (chip_of chip_reset (nrf_radio_setup [])) RF_CH = Some [24]"
  using radio_configuration [of chip_reset "[]"] by (simp add: chip_reset_def idle_def Let_def)

context mailbox
begin

lemma boot_invs:
  assumes "bufs_ok s"
  shows "queue_inv view mok (radio_boot ops s)" "chip_inv (radio_boot ops s)"
    "rx_order view (radio_boot ops s)" "tx_order view (radio_boot ops s)"
proof -
  have r: "ring_ok view mok (mb_init ops MBSZ) (nr_rx_bufs s) 0"
      "ring_ok view mok (mb_init ops MBSZ) (nr_tx_bufs s) 0"
    using ring_ok_init assms by (auto simp: bufs_ok_def)
  then show "queue_inv view mok (radio_boot ops s)"
    by (simp add: queue_inv_def entry_ok_def radio_boot_def nrf_init_def)
  have i: "idle (chip_of chip_reset [])" by (simp add: chip_reset_def idle_def)
  then show "chip_inv (radio_boot ops s)"
    by (simp add: chip_inv_def radio_chip_def radio_boot_def setup_chip)
  show "rx_order view (radio_boot ops s)"
    by (simp add: rx_order_def radio_boot_def nrf_init_def rx_pending_def pending_def init_view)
  show "tx_order view (radio_boot ops s)"
    using i by (simp add: tx_order_def radio_boot_def nrf_init_def tx_pending_def pending_def init_view
        in_flight_def radio_chip_def setup_chip) (simp add: chip_reset_def)
qed

lemma reach_queue: "radio_reach locked ops y0 y \<Longrightarrow> queue_inv view mok y0 \<Longrightarrow> queue_inv view mok y"
  by (induction rule: radio_reach.induct) (auto intro: queue_inv_step)

lemma reach_chip: "radio_reach locked ops y0 y \<Longrightarrow> chip_inv y0 \<Longrightarrow> chip_inv y"
  by (induction rule: radio_reach.induct) (auto intro: chip_inv_step)

lemma reach_rx_order:
  "radio_reach locked ops y0 y \<Longrightarrow> queue_inv view mok y0 \<Longrightarrow> rx_order view y0 \<Longrightarrow> rx_order view y"
  by (induction rule: radio_reach.induct) (auto intro: rx_order_step reach_queue)

lemma reach_rx_newest:
  assumes "radio_reach locked ops (radio_boot ops s) y" "bufs_ok s"
  shows "rx_newest view y"
  using assms
proof (induction rule: radio_reach.induct)
  case start
  then show ?case
    by (simp add: rx_newest_def radio_boot_def nrf_init_def rx_pending_def pending_def init_view)
next
  case (step y z)
  then show ?case using rx_newest_step reach_queue boot_invs(1) by blast
qed

lemma reach_tx_order:
  "radio_reach True ops y0 y \<Longrightarrow> queue_inv view mok y0 \<Longrightarrow> chip_inv y0 \<Longrightarrow> tx_order view y0 \<Longrightarrow>
   tx_order view y"
  by (induction rule: radio_reach.induct) (auto intro: tx_order_step reach_queue reach_chip)

end

section \<open>Properties of every reachable state\<close>

text \<open>
  Reception preserves order and invents nothing: at every point of every interleaving
  (and for every behaviour of the radio), the messages \<open>nrf_recv\<close> has returned, followed by
  those still queued, are a subsequence of those the interrupt handler posted.
\<close>

theorem radio_receive_order:
  assumes "mailbox ops view mok" and "bufs_ok s" and "radio_reach locked ops (radio_boot ops s) y"
  shows "subseq (rs_received y @ rx_pending view (rs_st y)) (rs_posted y)"
  using mailbox.reach_rx_order [OF assms(1,3)] mailbox.boot_invs [OF assms(1,2)]
  by (simp add: rx_order_def)

theorem radio_receive_order_witness:
  "subseq (rs_received (radio_boot fifo_ops zero_nrf) @ rx_pending snd (rs_st (radio_boot fifo_ops zero_nrf)))
     (rs_posted (radio_boot fifo_ops zero_nrf))"
  by (rule radio_receive_order [OF fifo.mailbox_axioms zero_nrf_ok radio_reach.start])

text \<open>
  C4. Transmission is a FIFO without loss or duplication as long as the sender is kept out
  of the critical section of \<open>nrf_check_tx\<close>: at every point the messages \<open>nrf_send\<close> accepted are
  the payloads given to the radio, then the one in flight, then those queued.
\<close>

theorem radio_transmit_fifo:
  assumes "mailbox ops view mok" and "bufs_ok s" and "radio_reach True ops (radio_boot ops s) y"
  shows "rs_sent y = cp_payloads (radio_chip y) @ in_flight y @ tx_pending view (rs_st y)"
  using mailbox.reach_tx_order [OF assms(1,3)] mailbox.boot_invs [OF assms(1,2)]
  by (simp add: tx_order_def)

theorem radio_transmit_fifo_witness:
  "rs_sent (radio_boot fifo_ops zero_nrf) =
     cp_payloads (radio_chip (radio_boot fifo_ops zero_nrf)) @ in_flight (radio_boot fifo_ops zero_nrf)
     @ tx_pending snd (rs_st (radio_boot fifo_ops zero_nrf))"
  by (rule radio_transmit_fifo [OF fifo.mailbox_axioms zero_nrf_ok radio_reach.start])

text \<open>
  C25. The bus protocol holds in every interleaving: every transaction is bracketed by chip
  select and starts with a one-byte command, and \<open>CONFIG\<close> is never written while CE is high;
  CE is low exactly between the standby and the payload write of a transmission, and the
  radio is always powered up as receiver or transmitter.
\<close>

theorem radio_bus_protocol:
  assumes "mailbox ops view mok" and "bufs_ok s" and "radio_reach locked ops (radio_boot ops s) y"
  shows "idle (radio_chip y)
    \<and> (cp_ce (radio_chip y) \<longleftrightarrow> \<not> (rs_pc y = Tx_fetch \<or> (\<exists>i. rs_pc y = Tx_write i)))
    \<and> (cp_regs (radio_chip y) CONFIG = Some [EN_CRC OR CRCO OR PWR_UP OR PRIM_TX]
       \<or> cp_regs (radio_chip y) CONFIG = Some [EN_CRC OR CRCO OR PWR_UP OR PRIM_RX])"
proof -
  have "EN_CRC OR CRCO OR PWR_UP OR PRIM_TX = 0x0E" "EN_CRC OR CRCO OR PWR_UP OR PRIM_RX = 0x0F"
    by (simp_all add: nrf_regs)
  then show ?thesis
    using mailbox.reach_chip [OF assms(1,3)] mailbox.boot_invs [OF assms(1,2)]
    by (simp only: chip_inv_def)
qed

theorem radio_bus_protocol_witness:
  "idle (radio_chip (radio_boot fifo_ops zero_nrf))"
  using radio_bus_protocol [OF fifo.mailbox_axioms zero_nrf_ok radio_reach.start] by blast

text \<open>
  C16. The driver never uses a pointer it does not own: the thread only fetches a message to
  transmit when there is one; while it fills or posts a receive element that element is not
  queued and the post cannot fail; a waiting sender's buffer pointer is still the next one
  when it gets its place.
\<close>

theorem radio_pointer_safety:
  assumes "mailbox ops view mok" and "bufs_ok s" and "radio_reach locked ops (radio_boot ops s) y"
  shows "(rs_pc y = Tx_fetch \<longrightarrow> check_tx_fetch ops (rs_st y) \<noteq> None)
    \<and> (rs_pc y = Rx_fill st \<or> rs_pc y = Rx_post st \<longrightarrow>
         nr_rx_idx (rs_st y) \<notin> set (view (nr_rx (rs_st y)))
         \<and> mb_post ops (nr_rx (rs_st y)) (nr_rx_idx (rs_st y)) \<noteq> None)
    \<and> (rs_sender y = Some (p, m) \<longrightarrow> p = nr_tx_idx (rs_st y))"
proof (intro conjI impI)
  have inv: "queue_inv view mok y"
    using mailbox.reach_queue [OF assms(1,3)] mailbox.boot_invs(1) [OF assms(1,2)] by blast
  then have ok: "entry_ok view mok (rs_st y)" by (simp add: queue_inv_def)
  then have r: "ring_ok view mok (nr_rx (rs_st y)) (nr_rx_bufs (rs_st y)) (nr_rx_idx (rs_st y))"
    by (simp add: entry_ok_def)
  show "check_tx_fetch ops (rs_st y) \<noteq> None" if "rs_pc y = Tx_fetch"
  proof (rule mailbox.tx_fetch_effect [OF assms(1) ok])
    show "view (nr_tx (rs_st y)) \<noteq> []" using inv that by (simp add: queue_inv_def)
  qed simp
  show "p = nr_tx_idx (rs_st y)" if "rs_sender y = Some (p, m)"
    using inv that by (simp add: queue_inv_def)
  assume "rs_pc y = Rx_fill st \<or> rs_pc y = Rx_post st"
  then have lt: "length (view (nr_rx (rs_st y))) < MBSZ"
    using inv unfolding queue_inv_def by blast
  show "nr_rx_idx (rs_st y) \<notin> set (view (nr_rx (rs_st y)))"
    by (rule mailbox.ring_idx_free [OF assms(1) r lt])
  show "mb_post ops (nr_rx (rs_st y)) (nr_rx_idx (rs_st y)) \<noteq> None"
    by (rule mailbox.ring_post [OF assms(1) r lt]) simp
qed

lemma reach_send_call:
  "radio_reach locked fifo_ops (radio_boot fifo_ops zero_nrf)
     (radio_boot fifo_ops zero_nrf\<lparr>rs_sender :=
        Some (nrf_send_begin (rs_st (radio_boot fifo_ops zero_nrf)), replicate 16 7)\<rparr>)"
  by (rule radio_reach.step [OF radio_reach.start radio_step.send_call])
    (simp_all add: radio_boot_def wf_raw_def PAYLOADSZ_def)

theorem radio_pointer_safety_witness:
  "nrf_send_begin (rs_st (radio_boot fifo_ops zero_nrf)) = nr_tx_idx (rs_st (radio_boot fifo_ops zero_nrf))"
  using radio_pointer_safety [OF fifo.mailbox_axioms zero_nrf_ok reach_send_call [of True]]
  by simp

section \<open>One turn of the thread\<close>

context mailbox
begin

lemma irq_effect:
  assumes ok: "entry_ok view mok s" and st: "irq_status miso s = (status, s0)"
  shows "entry_ok view mok (nrf_irq ops miso s)"
    and "tx_pending view (nrf_irq ops miso s) = tx_pending view s"
    and "nr_tx (nrf_irq ops miso s) = nr_tx s"
    and "rx_pending view (nrf_irq ops miso s) =
      (if status AND RX_DR = 0 then rx_pending view s
       else (if length (rx_pending view s) = MBSZ then tl (rx_pending view s) else rx_pending view s)
         @ [rx_filled miso (irq_rx_drop ops s0)])"
proof -
  obtain tr0 where s0: "s0 = s\<lparr>nr_bus := tr0\<rparr>"
    using st by (auto simp: irq_status_def split_beta)
  define s3 where "s3 = (if status AND RX_DR \<noteq> 0
      then irq_rx_post ops (irq_rx_fill miso (irq_rx_drop ops s0)) else s0)"
  have *: "entry_ok view mok s3 \<and> nr_tx s3 = nr_tx s \<and> tx_pending view s3 = tx_pending view s
    \<and> rx_pending view s3 =
      (if status AND RX_DR = 0 then rx_pending view s
       else (if length (rx_pending view s) = MBSZ then tl (rx_pending view s) else rx_pending view s)
         @ [rx_filled miso (irq_rx_drop ops s0)])"
  proof (cases "status AND RX_DR = 0")
    case True
    then show ?thesis using ok s0 by (simp add: s3_def queue_defs)
  next
    case False
    have "entry_ok view mok s0" using ok s0 by (simp add: entry_ok_def)
    then obtain m where d: "irq_rx_drop ops s0 = s0\<lparr>nr_bus := nr_bus s0 @ [Blink_rf False], nr_rx := m\<rparr>"
      "ring_ok view mok m (nr_rx_bufs s0) (nr_rx_idx s0)" "length (view m) < MBSZ"
      "pending view m (nr_rx_bufs s0) =
         (if length (rx_pending view s0) = MBSZ then tl (rx_pending view s0) else rx_pending view s0)"
      by (rule rx_drop_effect)
    let ?s1 = "irq_rx_drop ops s0"
    have ok1: "entry_ok view mok ?s1" "length (view (nr_rx ?s1)) < MBSZ"
      using d ok s0 by (simp_all add: entry_ok_def)
    obtain tr where f: "irq_rx_fill miso ?s1 =
        ?s1\<lparr>nr_rx_bufs := (nr_rx_bufs ?s1)[nr_rx_idx ?s1 := rx_filled miso ?s1], nr_bus := tr\<rparr>"
      "entry_ok view mok (irq_rx_fill miso ?s1)"
      "rx_pending view (irq_rx_fill miso ?s1) = rx_pending view ?s1"
      "nr_rx_bufs (irq_rx_fill miso ?s1) ! nr_rx_idx ?s1 = rx_filled miso ?s1"
      by (rule rx_fill_effect [OF ok1, of miso])
    let ?s2 = "irq_rx_fill miso ?s1"
    have lt: "length (view (nr_rx ?s2)) < MBSZ" using f(1) ok1(2) by simp
    obtain m' where p: "irq_rx_post ops ?s2 = ?s2\<lparr>nr_rx := m', nr_rx_idx := (nr_rx_idx ?s2 + 1) mod MBSZ\<rparr>"
      "ring_ok view mok m' (nr_rx_bufs ?s2) ((nr_rx_idx ?s2 + 1) mod MBSZ)"
      "pending view m' (nr_rx_bufs ?s2) = rx_pending view ?s2 @ [nr_rx_bufs ?s2 ! nr_rx_idx ?s2]"
      by (rule rx_post_effect [OF f(2) lt])
    have i: "nr_rx_idx ?s2 = nr_rx_idx ?s1" using f(1) by simp
    have r1: "rx_pending view ?s1 =
        (if length (rx_pending view s) = MBSZ then tl (rx_pending view s) else rx_pending view s)"
      using d s0 by (simp add: rx_pending_def)
    have s3: "s3 = irq_rx_post ops ?s2" using False by (simp add: s3_def)
    have "entry_ok view mok s3" using p f(2) by (simp add: s3 entry_ok_def)
    moreover have "nr_tx s3 = nr_tx s" "nr_tx_bufs s3 = nr_tx_bufs s"
      using p(1) f(1) d(1) s0 by (simp_all add: s3)
    moreover have "rx_pending view s3 = rx_pending view ?s1 @ [rx_filled miso ?s1]"
      using p(1,3) f(3,4) i by (simp add: s3 rx_pending_def)
    ultimately show ?thesis using False r1 by (simp add: tx_pending_def)
  qed
  have eq: "nrf_irq ops miso s = irq_ack status (if status AND TX_DS \<noteq> 0 then irq_tx_done ops s3 else s3)"
    by (simp add: nrf_irq_def st s3_def Let_def)
  obtain tr1 where "(if status AND TX_DS \<noteq> 0 then irq_tx_done ops s3 else s3) = s3\<lparr>nr_bus := tr1\<rparr>"
  proof (cases "status AND TX_DS = 0")
    case True
    then show ?thesis by (intro that [of "nr_bus s3"]) simp
  next
    case False
    then show ?thesis using irq_tx_done_state [of ops s3] that by auto
  qed
  then have tr: "nrf_irq ops miso s = s3\<lparr>nr_bus := nrf_write_reg STATUS status tr1\<rparr>"
    unfolding eq irq_ack_def by simp
  have "entry_ok view mok s3" "nr_tx s3 = nr_tx s" and tx: "tx_pending view s3 = tx_pending view s"
    using * by simp_all
  then show "entry_ok view mok (nrf_irq ops miso s)" "nr_tx (nrf_irq ops miso s) = nr_tx s"
    unfolding tr by (simp_all add: entry_ok_def)
  show "tx_pending view (nrf_irq ops miso s) = tx_pending view s"
    unfolding tr tx [symmetric] by (simp add: tx_pending_def)
  show "rx_pending view (nrf_irq ops miso s) =
      (if status AND RX_DR = 0 then rx_pending view s
       else (if length (rx_pending view s) = MBSZ then tl (rx_pending view s) else rx_pending view s)
         @ [rx_filled miso (irq_rx_drop ops s0)])"
    using * unfolding tr by (simp add: rx_pending_def)
qed

end

text \<open>
  C29. The interrupt handler on its queue: without RX_DR nothing changes; with it exactly one
  message is appended, the oldest being dropped first when ten are queued. The message is
  the payload read from the radio when \<open>nrf_rx\<close> succeeds. When \<open>nrf_rx\<close> reports 0 (an empty
  FIFO, a wrong payload width) the handler still posts, and the message is whatever the
  buffer held before.
\<close>

theorem nrf_irq_receives:
  assumes "mailbox ops view mok" and "entry_ok view mok s" and "irq_status miso s = (status, s0)"
    and "nrf_rx miso (nr_rx_bufs s ! nr_rx_idx s) (of_nat PAYLOADSZ) (nr_bus s0 @ [Blink_rf False])
           = (ret, buf, tr)"
  shows "rx_pending view (nrf_irq ops miso s) =
      (if status AND RX_DR = 0 then rx_pending view s
       else (if length (rx_pending view s) = MBSZ then tl (rx_pending view s) else rx_pending view s)
         @ [buf])
    \<and> (ret = 0 \<longrightarrow> buf = nr_rx_bufs s ! nr_rx_idx s)
    \<and> tx_pending view (nrf_irq ops miso s) = tx_pending view s"
proof -
  obtain tr0 where s0: "s0 = s\<lparr>nr_bus := tr0\<rparr>"
    using assms(3) by (auto simp: irq_status_def split_beta)
  then have "entry_ok view mok s0" using assms(2) by (simp add: entry_ok_def)
  then obtain m where "irq_rx_drop ops s0 = s0\<lparr>nr_bus := nr_bus s0 @ [Blink_rf False], nr_rx := m\<rparr>"
    by (rule mailbox.rx_drop_effect [OF assms(1)])
  then have f: "rx_filled miso (irq_rx_drop ops s0) = buf"
    using assms(4) s0 by (simp add: rx_filled_def)
  have i: "nr_rx_idx s < MBSZ" "ring_ok view mok (nr_rx s) (nr_rx_bufs s) (nr_rx_idx s)"
    using assms(2) by (simp_all add: entry_ok_def ring_ok_def)
  have "length (nr_rx_bufs s ! nr_rx_idx s) = unat (of_nat PAYLOADSZ :: u8)"
    using mailbox.ring_ok_bufD [OF assms(1) i(2,1)] by (simp add: PAYLOADSZ_def)
  from nrf_rx_buffer(2) [OF this, of miso "nr_bus s0 @ [Blink_rf False]"]
  have "ret = 0 \<longrightarrow> buf = nr_rx_bufs s ! nr_rx_idx s"
    using assms(4) by (simp add: PAYLOADSZ_def)
  then show ?thesis
    using mailbox.irq_effect(2,4) [OF assms(1-3)] f by simp
qed

text \<open>A spurious interrupt: RX_DR set, pipe number 7 (empty FIFO). A message is queued anyway.\<close>

theorem nrf_irq_receives_witness:
  "rx_pending snd (nrf_irq fifo_ops (\<lambda>tr k. 0x4E) (rs_st (radio_boot fifo_ops zero_nrf)))
     = [replicate 16 0]"
proof -
  let ?s = "rs_st (radio_boot fifo_ops zero_nrf)"
  have ok: "entry_ok snd fifo_ok ?s"
    using fifo.boot_invs(1) [OF zero_nrf_ok] by (simp add: queue_inv_def)
  have b: "nr_rx_bufs ?s ! nr_rx_idx ?s = replicate 16 0"
    by (simp add: radio_boot_def nrf_init_def zero_nrf_def MBSZ_def PAYLOADSZ_def)
  have q: "rx_pending snd ?s = []"
    by (simp add: radio_boot_def nrf_init_def rx_pending_def pending_def fifo_ops_def)
  obtain s0 where st: "irq_status (\<lambda>tr k. 0x4E) ?s = (0x4E, s0)"
    by (simp add: irq_status_def nrf_get_status_def bus_defs Let_def)
  obtain tr where rx: "nrf_rx (\<lambda>tr k. 0x4E) (nr_rx_bufs ?s ! nr_rx_idx ?s) (of_nat PAYLOADSZ)
      (nr_bus s0 @ [Blink_rf False]) = (0, replicate 16 0, tr)"
    by (simp add: nrf_rx_def nrf_get_status_def bus_defs Let_def nrf_regs b)
  show ?thesis
    using nrf_irq_receives [OF fifo.mailbox_axioms ok st rx] q
    by (simp add: nrf_regs MBSZ_def)
qed

end
