(* ===== verification/Radio_Turn.thy ===== *)
theory Radio_Turn
  imports Radio_System
begin

text \<open>
  One turn of the radio thread: it always ends, and it is a run of the interleaved system of
  \<open>Nrf_Queues\<close>, so that every invariant proved there holds between turns. The last section
  shows what the critical section of \<open>nrf_check_tx\<close> is for.
\<close>

section \<open>Runs\<close>

lemma radio_reach_trans:
  "radio_reach locked ops y z \<Longrightarrow> radio_reach locked ops x y \<Longrightarrow> radio_reach locked ops x z"
  by (induction rule: radio_reach.induct) (auto intro: radio_reach.step)

lemmas radio_reach_snoc = radio_reach.step [rotated]

text \<open>The interrupt handler, phase by phase.\<close>

lemma irq_run:
  assumes "rs_pc y = Waiting" "nr_evt (rs_st y)"
  shows "\<exists>posted. radio_reach locked ops y
     (y\<lparr>rs_st := nrf_irq ops miso (rs_st y\<lparr>nr_evt := False\<rparr>), rs_pc := Check_tx, rs_posted := posted\<rparr>)"
proof -
  obtain status s where st: "irq_status miso (rs_st y\<lparr>nr_evt := False\<rparr>) = (status, s)"
    by (cases "irq_status miso (rs_st y\<lparr>nr_evt := False\<rparr>)")
  let ?y1 = "y\<lparr>rs_st := s, rs_pc := Rx_drop status\<rparr>"
  have r1: "radio_reach locked ops y ?y1"
    by (rule radio_reach.step [OF radio_reach.start radio_step.wake [where miso = miso]])
      (simp_all add: assms st)
  define s2 where "s2 = (if status AND RX_DR \<noteq> 0
    then irq_rx_post ops (irq_rx_fill miso (irq_rx_drop ops s)) else s)"
  obtain posted where r2: "radio_reach locked ops ?y1
      (y\<lparr>rs_st := s2, rs_pc := Tx_done status, rs_posted := posted\<rparr>)" (is "radio_reach _ _ _ ?y2")
  proof (cases "status AND RX_DR = 0")
    case True
    have "radio_reach locked ops ?y1 (?y1\<lparr>rs_pc := Tx_done status\<rparr>)"
      by (rule radio_reach.step [OF radio_reach.start radio_step.rx_none]) (simp_all add: True)
    then show ?thesis using that [of "rs_posted y"] True by (simp add: s2_def)
  next
    case False
    let ?a = "?y1\<lparr>rs_st := irq_rx_drop ops s, rs_pc := Rx_fill status\<rparr>"
    let ?b = "?a\<lparr>rs_st := irq_rx_fill miso (irq_rx_drop ops s), rs_pc := Rx_post status\<rparr>"
    have "radio_step locked ops ?y1 ?a"
      using radio_step.rx_drop [of ?y1 status] False by simp
    moreover have "radio_step locked ops ?a ?b"
      using radio_step.rx_fill [of ?a status locked ops miso] by simp
    moreover note radio_step.rx_post [of ?b status locked ops]
    ultimately show ?thesis
      using that False by (fastforce simp: s2_def intro: radio_reach.intros)
  qed
  let ?s3 = "if status AND TX_DS \<noteq> 0 then irq_tx_done ops s2 else s2"
  let ?y3 = "?y2\<lparr>rs_st := ?s3, rs_pc := Ack status\<rparr>"
  have "radio_step locked ops ?y2 ?y3"
    using radio_step.tx_done [of ?y2 status locked ops]
    by (cases "status AND TX_DS = 0") simp_all
  moreover have "radio_step locked ops ?y3 (?y3\<lparr>rs_st := irq_ack status ?s3, rs_pc := Check_tx\<rparr>)"
    using radio_step.ack [of ?y3 status locked ops] by simp
  ultimately have "radio_reach locked ops y (?y3\<lparr>rs_st := irq_ack status ?s3, rs_pc := Check_tx\<rparr>)"
    using radio_reach_trans [OF r2 r1] by (meson radio_reach.step)
  moreover have "nrf_irq ops miso (rs_st y\<lparr>nr_evt := False\<rparr>) = irq_ack status ?s3"
    by (simp add: nrf_irq_def st s2_def Let_def)
  ultimately show ?thesis
    by (intro exI [of _ posted]) (cases y; cases "status AND TX_DS = 0"; simp)
qed

lemma check_tx_run:
  assumes "rs_pc y = Check_tx" "nrf_check_tx ops (rs_st y) = Some s'"
  shows "radio_reach locked ops y (y\<lparr>rs_st := s', rs_pc := Waiting\<rparr>)"
proof (cases "mb_used ops (nr_tx (rs_st y)) = 0")
  case True
  then show ?thesis
    using assms radio_reach.step [OF radio_reach.start radio_step.check_none [of y ops locked]]
    by (cases y) (simp add: nrf_check_tx_def)
next
  case False
  then obtain msg s where f: "check_tx_fetch ops (check_tx_standby (rs_st y)) = Some (msg, s)"
      "s' = check_tx_write msg s"
    using assms(2) by (auto simp: nrf_check_tx_def split: option.splits)
  let ?a = "y\<lparr>rs_st := check_tx_standby (rs_st y), rs_pc := Tx_fetch\<rparr>"
  let ?b = "y\<lparr>rs_st := s, rs_pc := Tx_write msg\<rparr>"
  have "radio_step locked ops y ?a" by (rule radio_step.check) (simp_all add: assms False)
  moreover have "radio_step locked ops ?a ?b"
    using radio_step.tx_fetch [of ?a ops msg s locked] f(1) by simp
  moreover have "radio_step locked ops ?b (y\<lparr>rs_st := s', rs_pc := Waiting\<rparr>)"
    using radio_step.tx_write [of ?b msg locked ops] f(2) by simp
  ultimately show ?thesis by (meson radio_reach.intros)
qed

context mailbox
begin

lemma check_tx_total:
  assumes "entry_ok view mok s"
  obtains s' where "nrf_check_tx ops s = Some s'" "entry_ok view mok s'"
    "tx_pending view s' = tl (tx_pending view s)" "rx_pending view s' = rx_pending view s"
proof (cases "view (nr_tx s) = []")
  case True
  then have "tx_pending view s = []" by (simp add: tx_pending_def pending_def)
  then show ?thesis using that [of s] assms tx_used [OF assms] by (simp add: nrf_check_tx_def)
next
  case False
  let ?s = "check_tx_standby s"
  have ok: "entry_ok view mok ?s" "view (nr_tx ?s) \<noteq> []"
    using assms False by (simp_all add: check_tx_standby_def entry_ok_def)
  obtain i tx where f: "check_tx_fetch ops ?s = Some (i, ?s\<lparr>nr_tx := tx\<rparr>)"
      "ring_ok view mok tx (nr_tx_bufs ?s) (nr_tx_idx ?s)"
      "tx_pending view ?s = nr_tx_bufs ?s ! i # pending view tx (nr_tx_bufs ?s)"
    by (rule tx_fetch_effect [OF ok])
  have "mb_used ops (nr_tx s) \<noteq> 0"
    using tx_used [OF assms] False by (simp add: tx_pending_def pending_def)
  then show ?thesis
    using that [of "check_tx_write i (?s\<lparr>nr_tx := tx\<rparr>)"] f assms
    by (simp add: nrf_check_tx_def check_tx_write_def check_tx_standby_def queue_defs)
qed

lemma turn_total:
  assumes "entry_ok view mok s"
  obtains s' where "nrf_radio_turn ops miso s = Some s'" "entry_ok view mok s'"
    "tx_pending view s' = (if nr_evt s then tl (tx_pending view s) else tx_pending view s)"
proof (cases "nr_evt s")
  case False
  then show ?thesis using that [of s] assms by (simp add: nrf_radio_turn_def)
next
  case True
  have ok: "entry_ok view mok (s\<lparr>nr_evt := False\<rparr>)" using assms by (simp add: entry_ok_def)
  obtain status s0 where st: "irq_status miso (s\<lparr>nr_evt := False\<rparr>) = (status, s0)"
    by (cases "irq_status miso (s\<lparr>nr_evt := False\<rparr>)")
  note e = irq_effect [OF ok st]
  obtain s' where "nrf_check_tx ops (nrf_irq ops miso (s\<lparr>nr_evt := False\<rparr>)) = Some s'"
      "entry_ok view mok s'" "tx_pending view s' = tl (tx_pending view (nrf_irq ops miso (s\<lparr>nr_evt := False\<rparr>)))"
    by (rule check_tx_total [OF e(1)])
  then show ?thesis
    using that [of s'] True e(2) by (simp add: nrf_radio_turn_def tx_pending_def)
qed

end

section \<open>The turn is a run of the interleaved system\<close>

lemma turn_run:
  assumes "rs_pc y = Waiting" "nr_evt (rs_st y)" "nrf_radio_turn ops miso (rs_st y) = Some s'"
  shows "\<exists>posted. radio_reach locked ops y (y\<lparr>rs_st := s', rs_posted := posted\<rparr>)"
proof -
  obtain posted where r: "radio_reach locked ops y
      (y\<lparr>rs_st := nrf_irq ops miso (rs_st y\<lparr>nr_evt := False\<rparr>), rs_pc := Check_tx, rs_posted := posted\<rparr>)"
    (is "radio_reach _ _ _ ?z")
    using irq_run [OF assms(1,2)] by blast
  have "nrf_check_tx ops (rs_st ?z) = Some s'"
    using assms(2,3) by (simp add: nrf_radio_turn_def)
  from check_tx_run [OF _ this, of locked] radio_reach_trans [OF _ r]
  have "radio_reach locked ops y (?z\<lparr>rs_st := s', rs_pc := Waiting\<rparr>)" by simp
  then show ?thesis using assms(1) by (intro exI [of _ posted]) (cases y, simp)
qed

text \<open>
  C17. Every turn of the radio thread returns (\<open>nrf_check_tx\<close> never runs on a missing
  message), hands at most the oldest queued message to the radio, and is a run of the phase
  system from \<open>Waiting\<close> back to \<open>Waiting\<close>, in which the other threads have not moved.
\<close>

theorem radio_turn_refines:
  assumes "mailbox ops view mok" and "entry_ok view mok s" and "nr_evt s"
  shows "\<exists>s'. nrf_radio_turn ops miso s = Some s' \<and> entry_ok view mok s'
    \<and> tx_pending view s' = tl (tx_pending view s)
    \<and> (\<forall>y. rs_st y = s \<and> rs_pc y = Waiting \<longrightarrow>
        (\<exists>posted. radio_reach locked ops y (y\<lparr>rs_st := s', rs_posted := posted\<rparr>)))"
proof (rule mailbox.turn_total [OF assms(1,2), of miso])
  fix s'
  assume t: "nrf_radio_turn ops miso s = Some s'" "entry_ok view mok s'"
    "tx_pending view s' = (if nr_evt s then tl (tx_pending view s) else tx_pending view s)"
  have "\<exists>posted. radio_reach locked ops y (y\<lparr>rs_st := s', rs_posted := posted\<rparr>)"
    if "rs_st y = s" "rs_pc y = Waiting" for y
    by (rule turn_run [where miso = miso]) (simp_all add: that assms(3) t(1))
  then show ?thesis using t assms(3) by simp
qed

text \<open>At boot with one message accepted by \<open>nrf_send\<close>: the turn sends it.\<close>

definition one_sent :: "(nat \<times> nat list) nrf_entry" where
  "one_sent = the (nrf_send fifo_ops (replicate 16 7) (rs_st (radio_boot fifo_ops zero_nrf)))"

lemma one_sent_ok:
  "entry_ok snd fifo_ok one_sent \<and> nr_evt one_sent \<and> tx_pending snd one_sent = [replicate 16 7]"
proof -
  let ?s = "rs_st (radio_boot fifo_ops zero_nrf)"
  have ok: "entry_ok snd fifo_ok ?s"
    using fifo.boot_invs(1) [OF zero_nrf_ok] by (simp add: queue_inv_def)
  have e: "tx_pending snd ?s = []"
    by (simp add: radio_boot_def nrf_init_def tx_pending_def pending_def fifo_ops_def)
  have w: "wf_raw (replicate 16 7)" by (simp add: wf_raw_def PAYLOADSZ_def)
  obtain tx where s: "nrf_send_end fifo_ops (nr_tx_idx ?s) (replicate 16 7) ?s = Some (?s\<lparr>nr_tx := tx,
        nr_tx_bufs := (nr_tx_bufs ?s)[nr_tx_idx ?s := replicate 16 7],
        nr_tx_idx := (nr_tx_idx ?s + 1) mod MBSZ\<rparr>)"
      "ring_ok snd fifo_ok tx ((nr_tx_bufs ?s)[nr_tx_idx ?s := replicate 16 7]) ((nr_tx_idx ?s + 1) mod MBSZ)"
      "pending snd tx ((nr_tx_bufs ?s)[nr_tx_idx ?s := replicate 16 7]) = [replicate 16 7]"
    using fifo.send_effect [OF ok w] unfolding e by (auto simp: MBSZ_def)
  show ?thesis
    using s ok by (simp add: one_sent_def nrf_send_def nrf_send_begin_def nrf_kick_loop_def queue_defs)
qed

theorem radio_turn_refines_witness:
  "\<exists>s'. nrf_radio_turn fifo_ops (\<lambda>tr k. 0x0E) one_sent = Some s' \<and> tx_pending snd s' = []"
  using radio_turn_refines [OF fifo.mailbox_axioms, of one_sent "\<lambda>tr k. 0x0E" True] one_sent_ok
  by auto

section \<open>What the critical section is for\<close>

context mailbox
begin

text \<open>A call of \<open>nrf_send\<close> that finds room, while the radio thread sleeps.\<close>

lemma send_run:
  assumes "rs_pc y = Waiting" "rs_sender y = None" "wf_raw m"
    and "entry_ok view mok (rs_st y)" "length (tx_pending view (rs_st y)) < MBSZ"
  obtains s where "nrf_send ops m (rs_st y) = Some s" "entry_ok view mok s"
    "tx_pending view s = tx_pending view (rs_st y) @ [m]" "nr_evt s" "nr_bus s = nr_bus (rs_st y)"
    "radio_reach locked ops y (y\<lparr>rs_st := s, rs_sent := rs_sent y @ [m]\<rparr>)"
proof -
  let ?i = "nr_tx_idx (rs_st y)"
  obtain s where e: "nrf_send_end ops ?i m (rs_st y) = Some s"
      "tx_pending view s = tx_pending view (rs_st y) @ [m]" "nr_bus s = nr_bus (rs_st y)"
      "entry_ok view mok s"
  proof -
    obtain tx where "nrf_send_end ops ?i m (rs_st y) = Some (rs_st y\<lparr>nr_tx := tx,
            nr_tx_bufs := (nr_tx_bufs (rs_st y))[?i := m], nr_tx_idx := (?i + 1) mod MBSZ\<rparr>)"
        "ring_ok view mok tx ((nr_tx_bufs (rs_st y))[?i := m]) ((?i + 1) mod MBSZ)"
        "pending view tx ((nr_tx_bufs (rs_st y))[?i := m]) = tx_pending view (rs_st y) @ [m]"
      using send_effect [OF assms(4,3)] assms(5) by auto
    then show thesis
      using that assms(4) by (simp add: tx_pending_def entry_ok_def)
  qed
  let ?s = "nrf_kick_loop s"
  let ?a = "y\<lparr>rs_sender := Some (?i, m)\<rparr>"
  let ?b = "y\<lparr>rs_st := s, rs_sender := None, rs_sent := rs_sent y @ [m]\<rparr>"
  let ?z = "y\<lparr>rs_st := ?s, rs_sender := None, rs_sent := rs_sent y @ [m]\<rparr>"
  have a: "radio_step locked ops y ?a"
    using radio_step.send_call [OF assms(2,3), of locked ops] by (simp add: nrf_send_begin_def)
  have b: "radio_step locked ops ?a ?b"
    using radio_step.send_return [of ?a ?i m locked ops s] assms(1) e(1) by simp
  have z: "radio_step locked ops ?b ?z"
    using radio_step.kick [of locked ops ?b] by (cases y) simp
  have "?z = y\<lparr>rs_st := ?s, rs_sent := rs_sent y @ [m]\<rparr>"
    using assms(2) by (cases y) simp
  then have "radio_reach locked ops y (y\<lparr>rs_st := ?s, rs_sent := rs_sent y @ [m]\<rparr>)"
    using radio_reach.step [OF radio_reach.step [OF radio_reach.step [OF radio_reach.start a] b] z] by simp
  then show ?thesis
    using e by (intro that [of ?s])
      (simp_all add: nrf_send_def nrf_send_begin_def nrf_kick_loop_def entry_ok_def tx_pending_def)
qed

text \<open>Ten calls of \<open>nrf_send\<close> fill the queue; the radio thread has not run yet.\<close>

lemma reach_full:
  assumes "bufs_ok s" "length ms \<le> MBSZ" "\<forall>m\<in>set ms. wf_raw m"
  shows "\<exists>y. radio_reach locked ops (radio_boot ops s) y \<and> rs_pc y = Waiting \<and> rs_sender y = None
    \<and> rs_sent y = ms \<and> tx_pending view (rs_st y) = ms \<and> (ms \<noteq> [] \<longrightarrow> nr_evt (rs_st y))
    \<and> nr_bus (rs_st y) = nr_bus (rs_st (radio_boot ops s))"
  using assms
proof (induction ms rule: rev_induct)
  case Nil
  show ?case
    by (intro exI [of _ "radio_boot ops s"])
      (simp add: radio_reach.start, simp add: radio_boot_def nrf_init_def tx_pending_def pending_def init_view)
next
  case (snoc m ms)
  have "length ms \<le> MBSZ" "\<forall>m\<in>set ms. wf_raw m" using snoc.prems by simp_all
  from snoc.IH [OF assms(1) this] obtain y where
    y: "radio_reach locked ops (radio_boot ops s) y" "rs_pc y = Waiting"
      "rs_sender y = None" "rs_sent y = ms" "tx_pending view (rs_st y) = ms"
      "nr_bus (rs_st y) = nr_bus (rs_st (radio_boot ops s))"
    by blast
  have ok: "entry_ok view mok (rs_st y)"
    using reach_queue [OF y(1) boot_invs(1) [OF assms(1)]] unfolding queue_inv_def by blast
  have w: "wf_raw m" using snoc.prems by simp
  have lt: "length (tx_pending view (rs_st y)) < MBSZ" using y(5) snoc.prems(2) by simp
  obtain s' where e: "tx_pending view s' = tx_pending view (rs_st y) @ [m]" "nr_evt s'" "nr_bus s' = nr_bus (rs_st y)"
      "radio_reach locked ops y (y\<lparr>rs_st := s', rs_sent := rs_sent y @ [m]\<rparr>)"
    by (rule send_run [OF y(2,3) w ok lt])
  then show ?case
    using y radio_reach_trans [OF e(4) y(1)]
    by (intro exI [of _ "y\<lparr>rs_st := s', rs_sent := rs_sent y @ [m]\<rparr>"]) simp
qed

lemma irq_idle:
  assumes "\<And>tr k. miso tr k = 0"
  obtains tr where "nrf_irq ops miso s = s\<lparr>nr_bus := tr\<rparr>"
    "idle (chip_of c (nr_bus s)) \<Longrightarrow> idle (chip_of c tr)
      \<and> cp_payloads (chip_of c tr) = cp_payloads (chip_of c (nr_bus s))"
proof -
  obtain tr0 where st: "irq_status miso s = (0, s\<lparr>nr_bus := tr0\<rparr>)"
    using assms by (simp add: irq_status_def nrf_get_status_def bus_defs Let_def)
  have "nrf_irq ops miso s = s\<lparr>nr_bus := nrf_write_reg STATUS 0 tr0\<rparr>"
    by (simp add: nrf_irq_def st irq_ack_def)
  moreover have "idle (chip_of c (nrf_write_reg STATUS 0 tr0))
      \<and> cp_payloads (chip_of c (nrf_write_reg STATUS 0 tr0)) = cp_payloads (chip_of c (nr_bus s))"
    if "idle (chip_of c (nr_bus s))"
    using chip_irq_status [OF st, of c] that by (simp add: chip_write_reg)
  ultimately show ?thesis by (rule that)
qed

text \<open>With the queue full the element about to be fetched is the next one to be written.\<close>

lemma full_fetch:
  assumes "entry_ok view mok s" "length (tx_pending view s) = MBSZ"
  obtains tx where "check_tx_fetch ops s = Some (nr_tx_idx s, s\<lparr>nr_tx := tx\<rparr>)"
    "entry_ok view mok (s\<lparr>nr_tx := tx\<rparr>)" "pending view tx (nr_tx_bufs s) = tl (tx_pending view s)"
proof -
  have l: "length (view (nr_tx s)) = MBSZ" using assms(2) by (simp add: tx_pending_def)
  then have ne: "view (nr_tx s) \<noteq> []" by (auto simp: MBSZ_def)
  have r: "ring_ok view mok (nr_tx s) (nr_tx_bufs s) (nr_tx_idx s)"
    using assms(1) by (simp add: entry_ok_def)
  from r ne obtain i m where f: "mb_fetch ops (nr_tx s) = Some (i, m)"
      "ring_ok view mok m (nr_tx_bufs s) (nr_tx_idx s)"
      "pending view (nr_tx s) (nr_tx_bufs s) = nr_tx_bufs s ! i # pending view m (nr_tx_bufs s)"
      "view (nr_tx s) = i # view m"
    by (rule ring_fetch)
  have n: "length (view m) = MBSZ - 1" using l f(4) by simp
  have "view (nr_tx s) = ring_list (nr_tx_idx s) (Suc (MBSZ - 1))"
    using r l unfolding ring_ok_def by (metis Suc_pred' MBSZ_def zero_less_numeral)
  then have "i = (nr_tx_idx s + (MBSZ - Suc (MBSZ - 1))) mod MBSZ"
    using f(4) ring_list_Cons [of "MBSZ - 1" "nr_tx_idx s"] by (simp add: MBSZ_def)
  then have "i = nr_tx_idx s" using r by (simp add: ring_ok_def MBSZ_def)
  then show ?thesis
    using that [of m] f assms(1) by (simp add: check_tx_fetch_def entry_ok_def tx_pending_def)
qed

end

text \<open>
  C34. Why the sender must stay out of the critical section. If \<open>chThdSleepMilliseconds\<close> and the
  SPI calls inside \<open>chSysLock\<close> let another thread run (\<open>locked = False\<close>), then with ten
  messages queued and an eleventh call of \<open>nrf_send\<close> waiting for room, the waiting call
  overwrites the element just fetched: the radio transmits the eleventh message in place of the first,
  which is lost, and the eleventh is queued to be transmitted again.
\<close>

theorem nrf_send_race:
  assumes "mailbox ops view mok" and "bufs_ok s" and "length ms = MBSZ"
    and "\<forall>m\<in>set (ms @ [m]). wf_raw m"
  shows "\<exists>y. radio_reach False ops (radio_boot ops s) y \<and> rs_pc y = Waiting
    \<and> rs_sent y = ms @ [m] \<and> cp_payloads (radio_chip y) = [m]
    \<and> tx_pending view (rs_st y) = tl ms @ [m]"
proof -
  note mb = assms(1)
  let ?z = "radio_boot ops s" and ?miso = "\<lambda>tr k. 0 :: u8"
  obtain y where y: "radio_reach False ops ?z y" "rs_pc y = Waiting" "rs_sender y = None"
      "rs_sent y = ms" "tx_pending view (rs_st y) = ms" "nr_evt (rs_st y)"
      "nr_bus (rs_st y) = nr_bus (rs_st ?z)"
    using mailbox.reach_full [OF mb assms(2), of ms False] assms(3,4) by (auto simp: MBSZ_def)
  have y0: "chip_inv ?z" "cp_payloads (radio_chip ?z) = []"
    using mailbox.boot_invs(2,4) [OF mb assms(2)] by (simp_all add: tx_order_def radio_boot_def)
  let ?p = "nr_tx_idx (rs_st y)"
  let ?a = "y\<lparr>rs_sender := Some (?p, m)\<rparr>"
  have ra: "radio_reach False ops ?z ?a"
    using radio_reach.step [OF y(1) radio_step.send_call [of y m]] y assms(4)
    by (simp add: nrf_send_begin_def)
  let ?s0 = "rs_st y\<lparr>nr_evt := False\<rparr>"
  obtain tr where i: "nrf_irq ops ?miso ?s0 = ?s0\<lparr>nr_bus := tr\<rparr>"
      "idle (chip_of chip_reset tr)" "cp_payloads (chip_of chip_reset tr) = []"
    by (rule mailbox.irq_idle [OF mb, of ?miso ?s0 chip_reset])
      (use y0 y(7) in \<open>auto simp: chip_inv_def radio_chip_def\<close>)
  let ?s1 = "?s0\<lparr>nr_bus := nrf_standby tr\<rparr>"
  obtain posted where rb: "radio_reach False ops ?a
      (?a\<lparr>rs_st := ?s0\<lparr>nr_bus := tr\<rparr>, rs_pc := Check_tx, rs_posted := posted\<rparr>)"
      (is "radio_reach _ _ _ ?b")
    using irq_run [of ?a False ops ?miso] y(2,6) i(1) by auto
  have oky: "entry_ok view mok (rs_st y)"
    using mailbox.reach_queue [OF mb y(1) mailbox.boot_invs(1) [OF mb assms(2)]]
    unfolding queue_inv_def by blast
  then have ok: "entry_ok view mok ?s1" by (simp add: entry_ok_def)
  moreover have "tx_pending view ?s1 = tx_pending view (rs_st y)" by (simp add: tx_pending_def)
  ultimately have ok: "entry_ok view mok ?s1" "tx_pending view ?s1 = ms" using y(5) by simp_all
  obtain tx where f: "check_tx_fetch ops ?s1 = Some (?p, ?s1\<lparr>nr_tx := tx\<rparr>)"
      "entry_ok view mok (?s1\<lparr>nr_tx := tx\<rparr>)" "pending view tx (nr_tx_bufs ?s1) = tl ms"
    using mailbox.full_fetch [OF mb ok(1)] ok(2) assms(3) by auto
  let ?s2 = "?s1\<lparr>nr_tx := tx\<rparr>"
  have used: "mb_used ops (nr_tx ?s1) \<noteq> 0"
    using mailbox.tx_used [OF mb ok(1)] ok(2) assms(3) by (simp add: MBSZ_def)
  let ?c = "?b\<lparr>rs_st := ?s1, rs_pc := Tx_fetch\<rparr>"
  let ?d = "?c\<lparr>rs_st := ?s2, rs_pc := Tx_write ?p\<rparr>"
  have "radio_step False ops ?b ?c"
    using radio_step.check [of ?b ops False] used by (simp add: check_tx_standby_def)
  moreover have "radio_step False ops ?c ?d"
    using radio_step.tx_fetch [of ?c ops _ _ False] f(1) by simp
  ultimately have rd: "radio_reach False ops ?z ?d"
    using radio_reach_trans [OF rb ra] by (meson radio_reach.step)
  have w: "wf_raw m" using assms(4) by simp
  have p2: "tx_pending view ?s2 = tl ms" using f(3) by (simp add: tx_pending_def)
  obtain s3 where e: "nrf_send_end ops ?p m ?s2 = Some s3" "tx_pending view s3 = tl ms @ [m]"
      "nr_tx_bufs s3 = (nr_tx_bufs (rs_st y))[?p := m]" "nr_bus s3 = nrf_standby tr"
    using mailbox.send_effect [OF mb f(2) w] assms(3) unfolding p2
    by (auto simp: tx_pending_def MBSZ_def)
  let ?e = "?d\<lparr>rs_st := s3, rs_sender := None, rs_sent := ms @ [m]\<rparr>"
  let ?f = "?e\<lparr>rs_st := check_tx_write ?p s3, rs_pc := Waiting\<rparr>"
  have "radio_step False ops ?d ?e"
    using radio_step.send_return [of ?d ?p m False ops s3] e(1) y(4) by simp
  moreover have "radio_step False ops ?e ?f"
    using radio_step.tx_write [of ?e ?p False ops] by simp
  ultimately have rf: "radio_reach False ops ?z ?f" using rd by (meson radio_reach.step)
  have len: "?p < length (nr_tx_bufs (rs_st y))" "length m = PAYLOADSZ"
    using ok(1) w by (simp_all add: entry_ok_def ring_ok_def wf_raw_def)
  have "cp_payloads (radio_chip ?f) = [m]"
    using i len e(3,4) by (simp add: radio_chip_def check_tx_write_def chip_tx chip_simps)
  then show ?thesis
    using rf e(2) by (intro exI [of _ ?f]) (simp add: check_tx_write_def tx_pending_def)
qed

definition ten_messages :: "bytes list" where
  "ten_messages = map (\<lambda>k. replicate PAYLOADSZ (of_nat k)) [0..<10]"

theorem nrf_send_race_witness:
  "\<exists>y. radio_reach False fifo_ops (radio_boot fifo_ops zero_nrf) y
     \<and> rs_sent y = ten_messages @ [replicate PAYLOADSZ 0xFF]
     \<and> cp_payloads (radio_chip y) = [replicate PAYLOADSZ 0xFF]"
  using nrf_send_race [OF fifo.mailbox_axioms zero_nrf_ok, of ten_messages "replicate PAYLOADSZ 0xFF"]
  by (auto simp: ten_messages_def wf_raw_def MBSZ_def)

end
