(* ===== verification/Rawd.thy ===== *)
theory Rawd
  imports Frames Net_Stream "HOL-Library.Sublist"
begin

text \<open>
  The raw frame server of \<^verbatim>\<open>firmware/net/rawd.c\<close>: up to three clients receive every frame as 16
  bytes. \<open>rawd_new\<close> takes a connection over from the accept loop, \<open>rawd_push\<close> hands a frame to
  the push thread, \<open>rawd_push_wait\<close> and \<open>rawd_push_section\<close> are the two halves of a turn of that thread. Every
  operation is cut where it releases the mutex or does not hold it, so that histories interleave the
  threads as the kernel can: \<open>rawd_push\<close> into the copy and the signal, \<open>rawd_new\<close> into its critical
  section and the greeting, a turn of the push thread into the return from the wait and its critical section. The state of a connection's
  TCP block belongs to lwIP: whether it is established is a parameter \<open>est\<close> of each
  operation. Connections are pointers owned by the server from \<open>netconn_accept\<close> until
  \<open>netconn_delete\<close>; \<open>owned\<close> replays a log of calls and fails on a use of a connection that is
  not owned.
\<close>

section \<open>State and operations\<close>

definition NC_COUNT :: nat where
  "NC_COUNT = 3"

definition RAWD_READY :: bytes where
  "RAWD_READY = replicate 4 0 @ str ''# ready ####''"

definition RAWD_FULL :: bytes where
  "RAWD_FULL = replicate 4 0 @ str ''# full #####''"

text \<open>
  The calls the two threads make. \<open>Accepted\<close> and \<open>Rawd_new\<close> are successful
  returns of \<open>netconn_accept\<close> and \<open>netconn_new\<close>.
\<close>

datatype rawd_call =
    Mtx_lock | Mtx_unlock | Accepted netconn
  | Rawd_write netconn bytes | Rawd_close netconn | Rawd_delete netconn
  | Rawd_new netconn | Rawd_bind netconn nat | Rawd_listen netconn

text \<open>
  \<open>rw_evt\<close> is the pending event of the push thread. The last three say where the threads are between two
  critical sections: the push thread has returned from its wait, the caller of \<open>rawd_push\<close> has copied
  its frame but not signalled yet, and the server's thread has yet to greet a client.
\<close>

record rawd_st =
  rw_ncs :: "netconn option list"
  rw_frame :: nrf_frame
  rw_evt :: bool
  rw_woken :: bool
  rw_sig :: bool
  rw_greet :: "netconn option"
  rw_log :: "rawd_call list"

definition rawd_call :: "rawd_call \<Rightarrow> rawd_st \<Rightarrow> rawd_st" where
  "rawd_call e s = s\<lparr>rw_log := rw_log s @ [e]\<rparr>"

text \<open>
  \<open>rawd_push_loop\<close>: \<open>chEvtWaitAny\<close> returns and clears the event; then the critical section with the
  loop over the slots.
\<close>

fun push_slots :: "(netconn \<Rightarrow> bool) \<Rightarrow> netconn option list \<Rightarrow> rawd_st \<Rightarrow> rawd_st" where
  "push_slots est [] s = s"
| "push_slots est (None # ncs) s = push_slots est ncs s"
| "push_slots est (Some nc # ncs) s =
     (if \<not> est nc then push_slots est ncs s
      else push_slots est ncs (rawd_call (Rawd_write nc (raw_of_frame (rw_frame s))) s))"

definition rawd_push_wait :: "rawd_st \<Rightarrow> rawd_st" where
  "rawd_push_wait s = s\<lparr>rw_evt := False\<rparr>"

definition rawd_push_section :: "(netconn \<Rightarrow> bool) \<Rightarrow> rawd_st \<Rightarrow> rawd_st" where
  "rawd_push_section est s = rawd_call Mtx_unlock (push_slots est (rw_ncs s) (rawd_call Mtx_lock s))"

definition rawd_push_copy :: "nrf_frame \<Rightarrow> rawd_st \<Rightarrow> rawd_st" where
  "rawd_push_copy msg s = rawd_call Mtx_unlock ((rawd_call Mtx_lock s)\<lparr>rw_frame := msg\<rparr>)"

definition rawd_push_signal :: "rawd_st \<Rightarrow> rawd_st" where
  "rawd_push_signal s = s\<lparr>rw_evt := True\<rparr>"

definition rawd_push :: "nrf_frame \<Rightarrow> rawd_st \<Rightarrow> rawd_st" where
  "rawd_push msg s = rawd_push_signal (rawd_push_copy msg s)"

text \<open>
  The loop of \<open>rawd_new\<close> over the slots from index \<open>i\<close>; \<open>n\<close> slots are left. \<open>free\<close> is the
  variable of that name, \<open>-1\<close> for none.
\<close>

fun rawd_new_scan :: "(netconn \<Rightarrow> bool) \<Rightarrow> nat \<Rightarrow> nat \<Rightarrow> int \<Rightarrow> rawd_st \<Rightarrow> int \<times> rawd_st" where
  "rawd_new_scan est i 0 free s = (free, s)"
| "rawd_new_scan est i (Suc n) free s =
     (case rw_ncs s ! i of
        None \<Rightarrow> rawd_new_scan est (i + 1) n (int i) s
      | Some nc \<Rightarrow>
          if \<not> est nc
          then rawd_new_scan est (i + 1) n (int i)
                 ((rawd_call (Rawd_delete nc) (rawd_call (Rawd_close nc) s))
                    \<lparr>rw_ncs := (rw_ncs s)[i := None]\<rparr>)
          else rawd_new_scan est (i + 1) n free s)"

text \<open>The critical section; the result is the connection to greet.\<close>

definition rawd_new_section :: "(netconn \<Rightarrow> bool) \<Rightarrow> netconn \<Rightarrow> rawd_st \<Rightarrow> netconn option \<times> rawd_st" where
  "rawd_new_section est nc s =
     (let (free, s) = rawd_new_scan est 0 NC_COUNT (- 1) (rawd_call Mtx_lock s)
      in if free < 0
         then (None, rawd_call Mtx_unlock (rawd_call (Rawd_delete nc)
                (rawd_call (Rawd_close nc) (rawd_call (Rawd_write nc RAWD_FULL) s))))
         else (Some nc, rawd_call Mtx_unlock (s\<lparr>rw_ncs := (rw_ncs s)[nat free := Some nc]\<rparr>)))"

definition rawd_new_ready :: "netconn option \<Rightarrow> rawd_st \<Rightarrow> rawd_st" where
  "rawd_new_ready greet s =
     (case greet of None \<Rightarrow> s | Some nc \<Rightarrow> rawd_call (Rawd_write nc RAWD_READY) s)"

definition rawd_new :: "(netconn \<Rightarrow> bool) \<Rightarrow> netconn \<Rightarrow> rawd_st \<Rightarrow> rawd_st" where
  "rawd_new est nc s = (let (greet, s) = rawd_new_section est nc s in rawd_new_ready greet s)"

text \<open>A turn of \<open>rawd_loop\<close>; \<open>None\<close> when \<open>netconn_accept\<close> fails.\<close>

definition rawd_turn :: "(netconn \<Rightarrow> bool) \<Rightarrow> netconn option \<Rightarrow> rawd_st \<Rightarrow> rawd_st" where
  "rawd_turn est accepted s =
     (case accepted of None \<Rightarrow> s | Some nc \<Rightarrow> rawd_new est nc (rawd_call (Accepted nc) s))"

text \<open>
  \<open>rawd_init\<close> calls \<open>memset(ncs, sizeof(ncs), 0)\<close>: the count, the last argument, is zero.
  \<open>memset_ncs\<close> is that call on the array of pointers.
\<close>

definition memset_ncs :: "netconn option list \<Rightarrow> nat \<Rightarrow> nat \<Rightarrow> netconn option list" where
  "memset_ncs ncs c n = replicate n (if c = 0 then None else Some (of_nat c)) @ drop n ncs"

definition rawd_init :: "rawd_st \<Rightarrow> rawd_st" where
  "rawd_init s = s\<lparr>rw_ncs := memset_ncs (rw_ncs s) (4 * NC_COUNT) 0\<rparr>"

section \<open>Histories\<close>

text \<open>
  The steps of the three threads: \<open>Client\<close> is \<open>netconn_accept\<close> and the critical section of
  \<open>rawd_new\<close>, \<open>Greet\<close> the rest of it; \<open>Frame\<close> and \<open>Signal\<close> are the halves of \<open>rawd_push\<close>, \<open>Push_wake\<close>
  and \<open>Push_send\<close> those of a turn of the push thread, which does nothing while it waits.
\<close>

datatype rawd_ev =
    Client "netconn \<Rightarrow> bool" "netconn option"
  | Greet
  | Frame nrf_frame
  | Signal
  | Push_wake
  | Push_send "netconn \<Rightarrow> bool"

fun rawd_step :: "rawd_ev \<Rightarrow> rawd_st \<Rightarrow> rawd_st" where
  "rawd_step (Client est accepted) s =
     (case accepted of
        None \<Rightarrow> s
      | Some nc \<Rightarrow> (let (greet, s) = rawd_new_section est nc (rawd_call (Accepted nc) s) in s\<lparr>rw_greet := greet\<rparr>))"
| "rawd_step Greet s = (rawd_new_ready (rw_greet s) s)\<lparr>rw_greet := None\<rparr>"
| "rawd_step (Frame f) s = (rawd_push_copy f s)\<lparr>rw_sig := True\<rparr>"
| "rawd_step Signal s = (rawd_push_signal s)\<lparr>rw_sig := False\<rparr>"
| "rawd_step Push_wake s =
     (if rw_evt s \<and> \<not> rw_woken s then (rawd_push_wait s)\<lparr>rw_woken := True\<rparr> else s)"
| "rawd_step (Push_send est) s =
     (if rw_woken s then (rawd_push_section est s)\<lparr>rw_woken := False\<rparr> else s)"

definition slots :: "netconn option list \<Rightarrow> netconn set" where
  "slots ncs = {nc. Some nc \<in> set ncs}"

definition distinct_slots :: "netconn option list \<Rightarrow> bool" where
  "distinct_slots ncs \<longleftrightarrow> (\<forall>i j nc. i < length ncs \<and> j < length ncs
     \<and> ncs ! i = Some nc \<and> ncs ! j = Some nc \<longrightarrow> i = j)"

definition stored :: "rawd_st \<Rightarrow> netconn set" where
  "stored s = slots (rw_ncs s)"

text \<open>
  What can happen in a state: each thread makes its calls in the order of the code, and lwIP hands out
  connections that are not in use.
\<close>

definition rawd_enabled :: "rawd_ev \<Rightarrow> rawd_st \<Rightarrow> bool" where
  "rawd_enabled e s \<longleftrightarrow>
     (case e of
        Client est accepted \<Rightarrow> rw_greet s = None \<and> (case accepted of None \<Rightarrow> True | Some nc \<Rightarrow> nc \<notin> stored s)
      | Greet \<Rightarrow> rw_greet s \<noteq> None
      | Frame f \<Rightarrow> \<not> rw_sig s \<and> wf_frame f
      | Signal \<Rightarrow> rw_sig s
      | _ \<Rightarrow> True)"

fun fresh_clients :: "rawd_ev list \<Rightarrow> rawd_st \<Rightarrow> bool" where
  "fresh_clients [] s \<longleftrightarrow> True"
| "fresh_clients (e # es) s \<longleftrightarrow> rawd_enabled e s \<and> fresh_clients es (rawd_step e s)"

abbreviation rawd_run :: "rawd_ev list \<Rightarrow> rawd_st \<Rightarrow> rawd_st" where
  "rawd_run es s \<equiv> fold rawd_step es s"

definition RAW_PORT :: nat where
  "RAW_PORT = 8888"

text \<open>
  The thread \<open>rawd_loop\<close>, its turns (\<open>Client\<close>, \<open>Greet\<close>) interleaved with the other threads' events. \<open>new\<close>
  is the result of \<open>netconn_new\<close>; the value returned is \<open>None\<close> while the loop runs. Without a connection
  the thread ends, but \<open>rawd_push\<close> and the push thread go on.
\<close>

fun no_client :: "rawd_ev \<Rightarrow> bool" where
  "no_client (Client est accepted) \<longleftrightarrow> False"
| "no_client Greet \<longleftrightarrow> False"
| "no_client e \<longleftrightarrow> True"

definition rawd_loop :: "netconn option \<Rightarrow> rawd_ev list \<Rightarrow> rawd_st \<Rightarrow> nat option \<times> rawd_st" where
  "rawd_loop new es s =
     (case new of
        None \<Rightarrow> (Some 1, rawd_run (filter no_client es) s)
      | Some nc \<Rightarrow>
          (let s = rawd_call (Rawd_new nc) s;
               s = rawd_call (Rawd_bind nc RAW_PORT) s;
               s = rawd_call (Rawd_listen nc) s
           in (None, rawd_run es s)))"

section \<open>Ownership of connections\<close>

text \<open>
  The clients' connections owned after a log, or \<open>None\<close> after an illegal call. The listening
  connection is not a client's; \<^verbatim>\<open>Servers\<close> follows it too.
\<close>

fun owned_step :: "rawd_call \<Rightarrow> netconn set option \<Rightarrow> netconn set option" where
  "owned_step e None = None"
| "owned_step (Accepted nc) (Some S) = (if nc \<in> S then None else Some (insert nc S))"
| "owned_step (Rawd_write nc b) (Some S) = (if nc \<in> S then Some S else None)"
| "owned_step (Rawd_close nc) (Some S) = (if nc \<in> S then Some S else None)"
| "owned_step (Rawd_delete nc) (Some S) = (if nc \<in> S then Some (S - {nc}) else None)"
| "owned_step Mtx_lock (Some S) = Some S"
| "owned_step Mtx_unlock (Some S) = Some S"
| "owned_step (Rawd_new nc) (Some S) = Some S"
| "owned_step (Rawd_bind nc port) (Some S) = Some S"
| "owned_step (Rawd_listen nc) (Some S) = Some S"

definition owned :: "rawd_call list \<Rightarrow> netconn set option" where
  "owned log = fold owned_step log (Some {})"

fun write_size :: "rawd_call \<Rightarrow> bool" where
  "write_size (Rawd_write nc b) \<longleftrightarrow> length b = 16"
| "write_size e \<longleftrightarrow> True"

text \<open>
  The invariant: three slots, no connection in two of them, the connections owned are those
  in the slots (plus \<open>extra\<close>, the one being taken over), and every write has been 16 bytes.
\<close>

definition rawd_inv :: "netconn set \<Rightarrow> rawd_st \<Rightarrow> bool" where
  "rawd_inv extra s \<longleftrightarrow> length (rw_ncs s) = NC_COUNT \<and> distinct_slots (rw_ncs s)
     \<and> stored s \<inter> extra = {} \<and> owned (rw_log s) = Some (stored s \<union> extra)
     \<and> wf_frame (rw_frame s) \<and> list_all write_size (rw_log s)"

lemma owned_append [simp]: "owned (log @ es) = fold owned_step es (owned log)"
  by (simp add: owned_def)

lemma rawd_call_simps [simp]:
  "rw_ncs (rawd_call e s) = rw_ncs s" "rw_frame (rawd_call e s) = rw_frame s"
  "rw_log (rawd_call e s) = rw_log s @ [e]" "rw_evt (rawd_call e s) = rw_evt s"
  "rw_woken (rawd_call e s) = rw_woken s" "rw_sig (rawd_call e s) = rw_sig s" "rw_greet (rawd_call e s) = rw_greet s"
  "stored (rawd_call e s) = stored s"
  by (simp_all add: rawd_call_def stored_def)

lemma stored_simps [simp]:
  "stored (s\<lparr>rw_frame := f\<rparr>) = stored s" "stored (s\<lparr>rw_evt := b\<rparr>) = stored s"
  "stored (s\<lparr>rw_woken := b\<rparr>) = stored s" "stored (s\<lparr>rw_sig := b\<rparr>) = stored s"
  "stored (s\<lparr>rw_greet := g\<rparr>) = stored s" "stored (s\<lparr>rw_ncs := ncs\<rparr>) = slots ncs"
  by (simp_all add: stored_def)

lemma inv_plain:
  assumes "rawd_inv X s"
  shows "rawd_inv X (rawd_call Mtx_lock s)" "rawd_inv X (rawd_call Mtx_unlock s)"
    "rawd_inv X (s\<lparr>rw_evt := b\<rparr>)" "rawd_inv X (s\<lparr>rw_woken := b\<rparr>)" "rawd_inv X (s\<lparr>rw_sig := b\<rparr>)"
    "rawd_inv X (s\<lparr>rw_greet := g\<rparr>)" "wf_frame f \<Longrightarrow> rawd_inv X (s\<lparr>rw_frame := f\<rparr>)"
  using assms by (simp_all add: rawd_inv_def)

lemma inv_write:
  assumes "rawd_inv X s" "nc \<in> stored s \<union> X" "length b = 16"
  shows "rawd_inv X (rawd_call (Rawd_write nc b) s)"
  using assms by (simp add: rawd_inv_def)

lemma inv_drop_extra:
  assumes "rawd_inv {nc} s"
  shows "rawd_inv {} (rawd_call (Rawd_delete nc) (rawd_call (Rawd_close nc) s))"
  using assms by (auto simp: rawd_inv_def)

lemma slot_member: "i < length ncs \<Longrightarrow> ncs ! i = Some nc \<Longrightarrow> nc \<in> slots ncs"
  unfolding slots_def by (metis mem_Collect_eq nth_mem)

lemma slots_nth: "nc \<in> slots ncs \<longleftrightarrow> (\<exists>j<length ncs. ncs ! j = Some nc)"
  by (auto simp: slots_def in_set_conv_nth)

lemma slots_update:
  assumes "i < length ncs"
  shows "nc \<in> slots (ncs[i := x]) \<longleftrightarrow> x = Some nc \<or> (\<exists>j<length ncs. j \<noteq> i \<and> ncs ! j = Some nc)"
  using assms by (auto simp: slots_nth nth_list_update)

lemma distinct_update:
  assumes "distinct_slots ncs" "\<And>nc j. x = Some nc \<Longrightarrow> j < length ncs \<Longrightarrow> ncs ! j \<noteq> Some nc"
  shows "distinct_slots (ncs[i := x])"
  unfolding distinct_slots_def
proof (intro allI impI)
  fix k j nc
  assume a: "k < length (ncs[i := x]) \<and> j < length (ncs[i := x])
    \<and> ncs[i := x] ! k = Some nc \<and> ncs[i := x] ! j = Some nc"
  then have l: "k < length ncs" "j < length ncs" by simp_all
  show "k = j"
  proof (cases "x = Some nc")
    case True
    then have "ncs ! k \<noteq> Some nc" "ncs ! j \<noteq> Some nc" using assms(2) l by blast+
    then have "k = i" "j = i" using a l by (metis nth_list_update_neq)+
    then show ?thesis by simp
  next
    case False
    then have "ncs ! k = Some nc" "ncs ! j = Some nc"
      using a l by (metis nth_list_update_eq nth_list_update_neq)+
    then show ?thesis using assms(1) l unfolding distinct_slots_def by blast
  qed
qed

lemma slots_clear:
  assumes "distinct_slots ncs" "i < length ncs" "ncs ! i = Some nc"
  shows "distinct_slots (ncs[i := None])" "slots (ncs[i := None]) = slots ncs - {nc}"
proof -
  show "distinct_slots (ncs[i := None])" by (rule distinct_update [OF assms(1)]) simp
  have u: "j = i" if "j < length ncs" "ncs ! j = Some nc" for j
    using assms that unfolding distinct_slots_def by blast
  show "slots (ncs[i := None]) = slots ncs - {nc}"
  proof (rule set_eqI)
    fix nc'
    have "nc' \<in> slots (ncs[i := None]) \<longleftrightarrow> (\<exists>j<length ncs. j \<noteq> i \<and> ncs ! j = Some nc')"
      using slots_update [OF assms(2), of nc' None] by simp
    also have "\<dots> \<longleftrightarrow> nc' \<in> slots ncs \<and> nc' \<noteq> nc"
      using u assms(3) unfolding slots_nth by (metis option.inject)
    finally show "nc' \<in> slots (ncs[i := None]) \<longleftrightarrow> nc' \<in> slots ncs - {nc}" by simp
  qed
qed

lemma slots_set:
  assumes "distinct_slots ncs" "i < length ncs" "ncs ! i = None" "nc \<notin> slots ncs"
  shows "distinct_slots (ncs[i := Some nc])" "slots (ncs[i := Some nc]) = insert nc (slots ncs)"
proof -
  show "distinct_slots (ncs[i := Some nc])"
    by (rule distinct_update [OF assms(1)]) (use assms(4) slots_nth [of nc ncs] in blast)
  show "slots (ncs[i := Some nc]) = insert nc (slots ncs)"
  proof (rule set_eqI)
    fix nc'
    have "nc' \<in> slots (ncs[i := Some nc]) \<longleftrightarrow> nc = nc' \<or> (\<exists>j<length ncs. j \<noteq> i \<and> ncs ! j = Some nc')"
      using slots_update [OF assms(2), of nc' "Some nc"] by simp
    also have "\<dots> \<longleftrightarrow> nc' = nc \<or> nc' \<in> slots ncs"
      using assms(3) unfolding slots_nth by (metis option.distinct(1))
    finally show "nc' \<in> slots (ncs[i := Some nc]) \<longleftrightarrow> nc' \<in> insert nc (slots ncs)" by simp
  qed
qed

lemma inv_kill:
  assumes "rawd_inv X s" "i < NC_COUNT" "rw_ncs s ! i = Some nc"
  shows "rawd_inv X ((rawd_call (Rawd_delete nc) (rawd_call (Rawd_close nc) s))
    \<lparr>rw_ncs := (rw_ncs s)[i := None]\<rparr>)"
proof -
  have l: "i < length (rw_ncs s)" "distinct_slots (rw_ncs s)" using assms by (simp_all add: rawd_inv_def)
  have "nc \<in> stored s" using slot_member [OF l(1) assms(3)] by (simp add: stored_def)
  then show ?thesis
    using assms slots_clear [OF l(2,1) assms(3)] by (auto simp: rawd_inv_def stored_def)
qed

lemma inv_take:
  assumes "rawd_inv {nc} s" "i < NC_COUNT" "rw_ncs s ! i = None"
  shows "rawd_inv {} (s\<lparr>rw_ncs := (rw_ncs s)[i := Some nc]\<rparr>)"
proof -
  have l: "i < length (rw_ncs s)" "distinct_slots (rw_ncs s)" "nc \<notin> slots (rw_ncs s)"
    using assms by (auto simp: rawd_inv_def stored_def)
  then show ?thesis
    using assms slots_set [OF l(2,1) assms(3) l(3)] by (simp add: rawd_inv_def stored_def)
qed

section \<open>Every operation keeps the invariant\<close>

definition full :: "(netconn \<Rightarrow> bool) \<Rightarrow> rawd_st \<Rightarrow> bool" where
  "full est s \<longleftrightarrow> (\<forall>x\<in>set (rw_ncs s). \<exists>nc. x = Some nc \<and> est nc)"

text \<open>
  After the first \<open>i\<close> slots: those holding a dead connection are empty, and \<open>free\<close> is an empty
  slot, or there is none among them.
\<close>

definition scanned :: "(netconn \<Rightarrow> bool) \<Rightarrow> rawd_st \<Rightarrow> nat \<Rightarrow> int \<Rightarrow> rawd_st \<Rightarrow> bool" where
  "scanned est s0 i free s \<longleftrightarrow> length (rw_ncs s) = length (rw_ncs s0)
     \<and> (\<forall>j<NC_COUNT. rw_ncs s ! j =
          (if j < i then (case rw_ncs s0 ! j of None \<Rightarrow> None | Some nc \<Rightarrow> if est nc then Some nc else None)
           else rw_ncs s0 ! j))
     \<and> (if free < 0 then (\<forall>j<i. \<exists>nc. rw_ncs s0 ! j = Some nc \<and> est nc) \<and> s = s0
        else nat free < i \<and> rw_ncs s ! nat free = None)"

lemma scan_step:
  assumes "scanned est s0 i free s" "i < NC_COUNT" "length (rw_ncs s0) = NC_COUNT"
  shows "rw_ncs s ! i = None \<Longrightarrow> scanned est s0 (i + 1) (int i) s"
    and "rw_ncs s ! i = Some nc \<Longrightarrow> est nc \<Longrightarrow> scanned est s0 (i + 1) free s"
    and "rw_ncs s ! i = Some nc \<Longrightarrow> \<not> est nc \<Longrightarrow>
      scanned est s0 (i + 1) (int i) (s'\<lparr>rw_ncs := (rw_ncs s)[i := None]\<rparr>)"
proof -
  have i: "rw_ncs s ! i = rw_ncs s0 ! i" using assms(1,2) by (simp add: scanned_def)
  show "scanned est s0 (i + 1) (int i) s" if "rw_ncs s ! i = None"
    using assms that i by (auto simp: scanned_def less_Suc_eq)
  show "scanned est s0 (i + 1) free s" if "rw_ncs s ! i = Some nc" "est nc"
    using assms that i by (auto simp: scanned_def less_Suc_eq)
  show "scanned est s0 (i + 1) (int i) (s'\<lparr>rw_ncs := (rw_ncs s)[i := None]\<rparr>)"
    if "rw_ncs s ! i = Some nc" "\<not> est nc"
    using assms that i by (auto simp: scanned_def less_Suc_eq nth_list_update)
qed

lemma scan_inv:
  assumes "rawd_inv X s" "i + n = NC_COUNT" "scanned est s0 i free s" "length (rw_ncs s0) = NC_COUNT"
    "rawd_new_scan est i n free s = (f, s')"
  shows "rawd_inv X s' \<and> scanned est s0 NC_COUNT f s'"
  using assms
proof (induction n arbitrary: i free s)
  case 0
  then show ?case by simp
next
  case (Suc n)
  then have i: "i < NC_COUNT" by simp
  note st = scan_step [OF Suc.prems(3) i Suc.prems(4)]
  show ?case
  proof (cases "rw_ncs s ! i")
    case None
    then show ?thesis
      using Suc.IH [of s "i + 1" "int i"] Suc.prems st(1) by simp
  next
    case (Some nc)
    then show ?thesis
      using Suc.IH [of s "i + 1" free] Suc.IH [OF inv_kill [OF Suc.prems(1) i Some], of "i + 1" "int i"]
        Suc.prems st(2,3) by (simp split: if_splits)
  qed
qed

text \<open>A connection just accepted is owned but in no slot; \<open>rawd_new\<close> stores or deletes it.\<close>

lemma rawd_new_section_effect:
  assumes "rawd_inv {nc} s" and "rawd_new_section est nc s = (greet, s1)"
  shows "rawd_inv {} s1"
    and "stored s1 = (if full est s then stored s else insert nc {c \<in> stored s. est c})"
    and "greet = (if full est s then None else Some nc)"
    and "full est s \<Longrightarrow> rw_log s1 = rw_log s @ [Mtx_lock, Rawd_write nc RAWD_FULL,
        Rawd_close nc, Rawd_delete nc, Mtx_unlock]"
proof -
  let ?s = "rawd_call Mtx_lock s"
  obtain f s' where sc: "rawd_new_scan est 0 NC_COUNT (- 1) ?s = (f, s')"
    by (cases "rawd_new_scan est 0 NC_COUNT (- 1) ?s")
  have l: "length (rw_ncs s) = NC_COUNT" using assms by (simp add: rawd_inv_def)
  have "rawd_inv {nc} s' \<and> scanned est ?s NC_COUNT f s'"
    by (rule scan_inv [OF _ _ _ _ sc]) (use assms l in \<open>simp_all add: inv_plain scanned_def\<close>)
  then have inv: "rawd_inv {nc} s'" and res: "scanned est ?s NC_COUNT f s'" by simp_all
  have size: "length RAWD_FULL = 16"
    by (simp add: RAWD_FULL_def)
  have full: "f < 0 \<longleftrightarrow> full est s"
  proof
    show "f < 0 \<Longrightarrow> full est s"
      using res l by (auto simp: scanned_def full_def in_set_conv_nth)
    show "full est s \<Longrightarrow> f < 0"
    proof (rule ccontr)
      assume "full est s" "\<not> f < 0"
      then have k: "nat f < NC_COUNT" "rw_ncs s' ! nat f = None" using res by (simp_all add: scanned_def)
      obtain c where c: "rw_ncs s ! nat f = Some c" "est c"
        using \<open>full est s\<close> k(1) l unfolding full_def by (metis nth_mem)
      have "rw_ncs s' ! nat f = (case rw_ncs s ! nat f of None \<Rightarrow> None
          | Some nc \<Rightarrow> if est nc then Some nc else None)"
        using res k(1) by (simp add: scanned_def)
      then show False using c k(2) by simp
    qed
  qed
  have slots': "slots (rw_ncs s') = {c \<in> stored s. est c}" if "\<not> f < 0"
  proof (rule set_eqI)
    fix c
    have l': "length (rw_ncs s') = NC_COUNT" using res l by (simp add: scanned_def)
    have "rw_ncs s' ! j = Some c \<longleftrightarrow> rw_ncs s ! j = Some c \<and> est c" if "j < NC_COUNT" for j
      using res that by (auto simp: scanned_def split: option.splits)
    then show "c \<in> slots (rw_ncs s') \<longleftrightarrow> c \<in> {c \<in> stored s. est c}"
      unfolding slots_nth stored_def l l' by auto
  qed
  have eq: "s1 =
     (if f < 0 then rawd_call Mtx_unlock (rawd_call (Rawd_delete nc)
                (rawd_call (Rawd_close nc) (rawd_call (Rawd_write nc RAWD_FULL) s')))
      else rawd_call Mtx_unlock (s'\<lparr>rw_ncs := (rw_ncs s')[nat f := Some nc]\<rparr>))"
    and greet: "greet = (if f < 0 then None else Some nc)"
    using assms(2) by (auto simp: rawd_new_section_def sc split: if_splits)
  have k: "nat f < NC_COUNT" "rw_ncs s' ! nat f = None" if "\<not> f < 0"
    using res that by (simp_all add: scanned_def)
  have st: "stored (s'\<lparr>rw_ncs := (rw_ncs s')[nat f := Some nc]\<rparr>) = insert nc (slots (rw_ncs s'))"
    if "\<not> f < 0"
    using slots_set(2) [of "rw_ncs s'" "nat f" nc] inv k [OF that] by (simp add: rawd_inv_def stored_def)
  show "rawd_inv {} s1"
  proof (cases "f < 0")
    case True
    then show ?thesis
      unfolding eq using inv size by (simp add: inv_plain inv_drop_extra inv_write)
  next
    case False
    then have "rawd_inv {} (s'\<lparr>rw_ncs := (rw_ncs s')[nat f := Some nc]\<rparr>)"
      using inv k by (intro inv_take) simp_all
    then show ?thesis
      unfolding eq using False by (simp add: inv_plain)
  qed
  show "stored s1 = (if full est s then stored s else insert nc {c \<in> stored s. est c})"
    unfolding eq full [symmetric] using res st slots' by (simp add: scanned_def)
  show "greet = (if full est s then None else Some nc)" unfolding greet full ..
  show "rw_log s1 = rw_log s @ [Mtx_lock, Rawd_write nc RAWD_FULL,
        Rawd_close nc, Rawd_delete nc, Mtx_unlock]" if "full est s"
    using that res unfolding eq full [symmetric] by (simp add: scanned_def)
qed

lemma rawd_ready_inv:
  assumes "rawd_inv {} s" and "\<And>nc. greet = Some nc \<Longrightarrow> nc \<in> stored s"
  shows "rawd_inv {} (rawd_new_ready greet s)"
  using assms by (cases greet) (simp_all add: rawd_new_ready_def inv_write RAWD_READY_def)

lemma rawd_new_effect:
  assumes "rawd_inv {nc} s"
  shows "rawd_inv {} (rawd_new est nc s)"
    and "stored (rawd_new est nc s) =
      (if full est s then stored s else insert nc {c \<in> stored s. est c})"
    and "full est s \<Longrightarrow> rw_log (rawd_new est nc s) = rw_log s @ [Mtx_lock, Rawd_write nc RAWD_FULL,
        Rawd_close nc, Rawd_delete nc, Mtx_unlock]"
    and "\<not> full est s \<Longrightarrow> last (rw_log (rawd_new est nc s)) = Rawd_write nc RAWD_READY"
proof -
  obtain greet s1 where sec: "rawd_new_section est nc s = (greet, s1)" by fastforce
  note e = rawd_new_section_effect [OF assms sec]
  have eq: "rawd_new est nc s = rawd_new_ready greet s1" by (simp add: rawd_new_def sec)
  show "rawd_inv {} (rawd_new est nc s)"
    unfolding eq by (rule rawd_ready_inv [OF e(1)]) (use e(2,3) in \<open>auto split: if_splits\<close>)
  show "stored (rawd_new est nc s) = (if full est s then stored s else insert nc {c \<in> stored s. est c})"
    unfolding eq e(2) [symmetric] by (simp add: rawd_new_ready_def split: option.split)
  show "rw_log (rawd_new est nc s) = rw_log s @ [Mtx_lock, Rawd_write nc RAWD_FULL,
        Rawd_close nc, Rawd_delete nc, Mtx_unlock]" if "full est s"
    unfolding eq using that e(3,4) by (simp add: rawd_new_ready_def)
  show "last (rw_log (rawd_new est nc s)) = Rawd_write nc RAWD_READY" if "\<not> full est s"
    unfolding eq using that e(3) by (simp add: rawd_new_ready_def)
qed

text \<open>The rest of the state is left alone, and only the new connection is written to.\<close>

lemma scan_frame:
  "rawd_new_scan est i n free s = (f, s') \<Longrightarrow>
   \<exists>ncs d. s' = s\<lparr>rw_ncs := ncs, rw_log := rw_log s @ d\<rparr> \<and> (\<forall>c b. Rawd_write c b \<notin> set d)"
proof (induction n arbitrary: i free s)
  case 0
  then show ?case by (intro exI [of _ "rw_ncs s"] exI [of _ "[]"]) simp
next
  case (Suc n)
  show ?case
  proof (cases "rw_ncs s ! i")
    case None
    then show ?thesis using Suc by simp
  next
    case (Some nc)
    show ?thesis
    proof (cases "est nc")
      case True
      then show ?thesis using Suc Some by simp
    next
      case False
      let ?s = "(rawd_call (Rawd_delete nc) (rawd_call (Rawd_close nc) s))\<lparr>rw_ncs := (rw_ncs s)[i := None]\<rparr>"
      obtain ncs d where "s' = ?s\<lparr>rw_ncs := ncs, rw_log := rw_log ?s @ d\<rparr>" "\<forall>c b. Rawd_write c b \<notin> set d"
        using Suc.IH [of "i + 1" "int i" ?s] Suc.prems Some False by auto
      then show ?thesis
        by (intro exI [of _ ncs] exI [of _ "[Rawd_close nc, Rawd_delete nc] @ d"]) (simp add: rawd_call_def)
    qed
  qed
qed

lemma section_frame:
  assumes "rawd_new_section est nc s = (greet, s')"
  shows "\<exists>ncs d. s' = s\<lparr>rw_ncs := ncs, rw_log := rw_log s @ d\<rparr> \<and> (\<forall>c b. Rawd_write c b \<in> set d \<longrightarrow> c = nc)"
proof -
  let ?s = "rawd_call Mtx_lock s"
  obtain f s1 where sc: "rawd_new_scan est 0 NC_COUNT (- 1) ?s = (f, s1)" by fastforce
  obtain ncs d where d: "s1 = ?s\<lparr>rw_ncs := ncs, rw_log := rw_log ?s @ d\<rparr>" "\<forall>c b. Rawd_write c b \<notin> set d"
    using scan_frame [OF sc] by blast
  show ?thesis
  proof (cases "f < 0")
    case True
    then have "s' = s\<lparr>rw_ncs := ncs, rw_log := rw_log s
        @ (Mtx_lock # d @ [Rawd_write nc RAWD_FULL, Rawd_close nc, Rawd_delete nc, Mtx_unlock])\<rparr>"
      using assms d(1) by (simp add: rawd_new_section_def sc) (auto simp: rawd_call_def)
    then show ?thesis using d(2) by (intro exI conjI) (assumption, auto)
  next
    case False
    then have "s' = s\<lparr>rw_ncs := ncs[nat f := Some nc], rw_log := rw_log s @ (Mtx_lock # d @ [Mtx_unlock])\<rparr>"
      using assms d(1) by (simp add: rawd_new_section_def sc) (auto simp: rawd_call_def)
    then show ?thesis using d(2) by (intro exI conjI) (assumption, auto)
  qed
qed

lemma push_slots_effect:
  "push_slots est ncs s = s\<lparr>rw_log := rw_log s @
     map (\<lambda>nc. Rawd_write nc (raw_of_frame (rw_frame s))) (filter est (List.map_filter id ncs))\<rparr>"
  by (induction ncs arbitrary: s rule: list.induct)
    (auto simp: map_filter_simps rawd_call_def split: option.split)

lemma inv_writes:
  assumes "rawd_inv X s" "\<forall>nc\<in>set ncs. nc \<in> stored s" "length b = 16"
  shows "rawd_inv X (s\<lparr>rw_log := rw_log s @ map (\<lambda>nc. Rawd_write nc b) ncs\<rparr>)"
proof -
  have "fold owned_step (map (\<lambda>nc. Rawd_write nc b) ncs) (Some (stored s \<union> X)) = Some (stored s \<union> X)"
    using assms(2) by (induction ncs) simp_all
  then show ?thesis
    using assms by (auto simp: rawd_inv_def stored_def list_all_iff)
qed

lemma map_filter_slots: "set (List.map_filter id ncs) = slots ncs"
proof (induction ncs)
  case (Cons x ncs)
  then show ?case by (cases x) (auto simp: map_filter_simps slots_def)
qed (simp add: map_filter_simps slots_def)

lemma inv_push_section:
  assumes "rawd_inv {} s"
  shows "rawd_inv {} (rawd_push_section est s)"
proof -
  let ?s = "rawd_call Mtx_lock s"
  have "rawd_inv {} ?s" using assms by (simp add: inv_plain)
  moreover have "length (raw_of_frame (rw_frame ?s)) = 16"
    using assms by (simp add: rawd_inv_def length_raw_of_frame)
  ultimately have "rawd_inv {} (push_slots est (rw_ncs s) ?s)"
    unfolding push_slots_effect
    by (intro inv_writes) (auto simp: map_filter_slots stored_def)
  then show ?thesis by (simp add: rawd_push_section_def inv_plain)
qed

lemma push_section_keeps [simp]:
  "rw_ncs (rawd_push_section est s) = rw_ncs s" "rw_frame (rawd_push_section est s) = rw_frame s"
  "rw_evt (rawd_push_section est s) = rw_evt s" "rw_sig (rawd_push_section est s) = rw_sig s"
  "rw_greet (rawd_push_section est s) = rw_greet s" "stored (rawd_push_section est s) = stored s"
  by (simp_all add: rawd_push_section_def push_slots_effect stored_def)

lemma inv_accepted: "rawd_inv {} s \<Longrightarrow> nc \<notin> stored s \<Longrightarrow> rawd_inv {nc} (rawd_call (Accepted nc) s)"
  by (simp add: rawd_inv_def)

text \<open>The invariant between steps: a client still to be greeted has its slot.\<close>

definition rawd_ok :: "rawd_st \<Rightarrow> bool" where
  "rawd_ok s \<longleftrightarrow> rawd_inv {} s \<and> (case rw_greet s of None \<Rightarrow> True | Some nc \<Rightarrow> nc \<in> stored s)"

lemma rawd_ok_step:
  assumes "rawd_ok s" and "rawd_enabled e s"
  shows "rawd_ok (rawd_step e s)"
proof (cases e)
  case (Client est accepted)
  show ?thesis
  proof (cases accepted)
    case None
    then show ?thesis using assms Client by simp
  next
    case (Some nc)
    let ?s = "rawd_call (Accepted nc) s"
    obtain greet s1 where sec: "rawd_new_section est nc ?s = (greet, s1)" by fastforce
    have "rawd_inv {nc} ?s"
      using assms Client Some by (intro inv_accepted) (simp_all add: rawd_ok_def rawd_enabled_def)
    note e = rawd_new_section_effect [OF this sec]
    show ?thesis
      using e(1-3) by (auto simp: rawd_ok_def Client Some sec inv_plain)
  qed
next
  case Greet
  have "rawd_inv {} (rawd_new_ready (rw_greet s) s)"
    using assms(1) by (intro rawd_ready_inv) (simp_all add: rawd_ok_def)
  then show ?thesis by (simp add: Greet rawd_ok_def inv_plain)
next
  case (Frame f)
  then show ?thesis
    using assms by (auto simp: rawd_ok_def rawd_enabled_def rawd_push_copy_def inv_plain split: option.splits)
next
  case Signal
  then show ?thesis using assms by (auto simp: rawd_ok_def rawd_push_signal_def inv_plain split: option.splits)
next
  case Push_wake
  then show ?thesis using assms by (auto simp: rawd_ok_def rawd_push_wait_def inv_plain split: option.splits)
next
  case (Push_send est)
  then show ?thesis using assms by (auto simp: rawd_ok_def inv_plain inv_push_section split: option.splits)
qed

lemma rawd_ok_run: "rawd_ok s \<Longrightarrow> fresh_clients es s \<Longrightarrow> rawd_ok (rawd_run es s)"
  by (induction es arbitrary: s) (simp_all add: rawd_ok_step)

definition rawd_boot :: rawd_st where
  "rawd_boot = rawd_init \<lparr>rw_ncs = replicate NC_COUNT None,
     rw_frame = frame_of_raw (replicate 16 0), rw_evt = False,
     rw_woken = False, rw_sig = False, rw_greet = None, rw_log = []\<rparr>"

lemma rawd_boot_inv: "rawd_inv {} rawd_boot"
proof -
  have "wf_frame (frame_of_raw (replicate 16 0))" by (simp add: wf_raw_def PAYLOADSZ_def)
  moreover have "rw_ncs rawd_boot = replicate NC_COUNT None"
    by (simp add: rawd_boot_def rawd_init_def memset_ncs_def)
  ultimately show ?thesis
    by (auto simp: rawd_inv_def distinct_slots_def stored_def slots_def owned_def)
      (simp_all add: rawd_boot_def rawd_init_def)
qed

lemma rawd_boot_ok: "rawd_ok rawd_boot"
  using rawd_boot_inv by (simp add: rawd_ok_def) (simp add: rawd_boot_def rawd_init_def)

text \<open>The call clears nothing.\<close>

lemma rawd_init_noop: "rawd_init s = s"
  by (simp add: rawd_init_def memset_ncs_def)

section \<open>Properties\<close>

text \<open>
  C12. The server never uses a connection it does not own and never loses one: for every
  history of clients, frames and turns of the push thread, replaying the log of calls (accept,
  write, close, delete) succeeds, so nothing is used or deleted after its deletion, and the
  connections accepted and not deleted are exactly those in the three slots, each in one slot
  only. Every write is one 16-byte unit, status messages included, so a client can cut the
  stream into frames.
\<close>

theorem rawd_owns_connections:
  assumes "fresh_clients es rawd_boot"
  shows "owned (rw_log (rawd_run es rawd_boot)) = Some (stored (rawd_run es rawd_boot))
    \<and> length (rw_ncs (rawd_run es rawd_boot)) = 3 \<and> distinct_slots (rw_ncs (rawd_run es rawd_boot))
    \<and> list_all write_size (rw_log (rawd_run es rawd_boot))"
  using rawd_ok_run [OF rawd_boot_ok assms] by (simp add: rawd_ok_def rawd_inv_def NC_COUNT_def)

text \<open>Two clients, a frame, and the first client leaving.\<close>

definition rawd_demo :: "rawd_ev list" where
  "rawd_demo = [Client (\<lambda>c. True) (Some 1), Greet, Client (\<lambda>c. True) (Some 2),
     Frame (frame_of_raw (replicate 16 5)), Signal, Push_wake, Greet, Push_send (\<lambda>c. True),
     Client (\<lambda>c. c \<noteq> 1) (Some 3)]"

lemmas rawd_eval = rawd_turn_def rawd_new_def rawd_new_section_def rawd_new_ready_def rawd_push_copy_def
  rawd_push_signal_def rawd_push_wait_def rawd_push_section_def rawd_call_def rawd_enabled_def
  rawd_boot_def rawd_init_def memset_ncs_def stored_def slots_def NC_COUNT_def numeral_3_eq_3

theorem rawd_owns_connections_witness:
  "owned (rw_log (rawd_run rawd_demo rawd_boot)) = Some {2, 3}"
proof -
  have "fresh_clients rawd_demo rawd_boot"
    by (simp add: rawd_demo_def rawd_eval wf_raw_def PAYLOADSZ_def)
  moreover have "stored (rawd_run rawd_demo rawd_boot) = {2, 3}"
    by (auto simp: rawd_demo_def rawd_eval)
  ultimately show ?thesis using rawd_owns_connections [of rawd_demo] by simp
qed

text \<open>
  C30. What happens to a new client: it is refused, with the message "full", and deleted
  exactly when all three slots hold an established connection; otherwise it takes a slot and is
  greeted with "ready". Established clients keep their slots, dead ones are closed and deleted.
\<close>

theorem rawd_new_client:
  assumes "rawd_inv {} s" and "nc \<notin> stored s"
  shows "let s' = rawd_turn est (Some nc) s
    in stored s' = (if full est s then stored s else insert nc {c \<in> stored s. est c})
     \<and> (full est s \<longrightarrow> rw_log s' = rw_log s @ [Accepted nc, Mtx_lock, Rawd_write nc RAWD_FULL,
          Rawd_close nc, Rawd_delete nc, Mtx_unlock])
     \<and> (\<not> full est s \<longrightarrow> last (rw_log s') = Rawd_write nc RAWD_READY)"
proof -
  note e = rawd_new_effect [OF inv_accepted [OF assms], of est]
  have "full est (rawd_call (Accepted nc) s) = full est s" by (simp add: full_def)
  then show ?thesis using e by (simp add: rawd_turn_def Let_def)
qed

theorem rawd_new_client_witness:
  "stored (rawd_turn (\<lambda>c. True) (Some 7) rawd_boot) = {7}"
proof -
  have "stored rawd_boot = {}" by (simp add: rawd_eval)
  moreover have "\<not> full (\<lambda>c. True) rawd_boot" by (simp add: full_def rawd_eval)
  ultimately show ?thesis
    using rawd_new_client [OF rawd_boot_inv, of 7 "\<lambda>c. True"] by (simp add: Let_def)
qed

text \<open>The frames written to one connection, and those pushed.\<close>

fun sent_to :: "netconn \<Rightarrow> rawd_call list \<Rightarrow> bytes list" where
  "sent_to nc [] = []"
| "sent_to nc (e # es) =
     (case e of Rawd_write c b \<Rightarrow> if c = nc then b # sent_to nc es else sent_to nc es
      | _ \<Rightarrow> sent_to nc es)"

fun pushed :: "rawd_ev list \<Rightarrow> bytes list" where
  "pushed [] = []"
| "pushed (Frame f # es) = raw_of_frame f # pushed es"
| "pushed (_ # es) = pushed es"

text \<open>With nothing in between, the steps of an operation are the operation.\<close>

lemma rawd_turn_steps:
  assumes "rw_greet s = None"
  shows "rawd_run [Client est accepted, Greet] s = rawd_turn est accepted s"
proof (cases accepted)
  case None
  then show ?thesis using assms by (simp add: rawd_turn_def rawd_new_ready_def)
next
  case (Some nc)
  obtain greet s1 where sec: "rawd_new_section est nc (rawd_call (Accepted nc) s) = (greet, s1)" by fastforce
  have "rw_greet s1 = None" using section_frame [OF sec] assms by auto
  then have "(rawd_new_ready greet (s1\<lparr>rw_greet := greet\<rparr>))\<lparr>rw_greet := None\<rparr> = rawd_new_ready greet s1"
    by (cases s1) (simp add: rawd_new_ready_def rawd_call_def split: option.split)
  then show ?thesis by (simp add: Some sec rawd_turn_def rawd_new_def)
qed

lemma rawd_push_steps: "\<not> rw_sig s \<Longrightarrow> rawd_run [Frame f, Signal] s = rawd_push f s"
  by (cases s) (simp add: rawd_push_def rawd_push_copy_def rawd_push_signal_def rawd_call_def)

text \<open>The connection of \<open>nc\<close> stays established, as far as the threads look at it.\<close>

fun steady :: "netconn \<Rightarrow> rawd_ev list \<Rightarrow> bool" where
  "steady nc [] \<longleftrightarrow> True"
| "steady nc (e # es) \<longleftrightarrow>
     (case e of Client est accepted \<Rightarrow> est nc | Push_send est \<Rightarrow> est nc | _ \<Rightarrow> True) \<and> steady nc es"

text \<open>How many turns of the push thread are under way: events pending, woken up for, or about to be signalled.\<close>

definition push_debt :: "rawd_st \<Rightarrow> nat" where
  "push_debt s = of_bool (rw_evt s) + of_bool (rw_woken s) + of_bool (rw_sig s)"

lemma pushed_append [simp]: "pushed (es @ fs) = pushed es @ pushed fs"
  by (induction es rule: pushed.induct) simp_all

lemma fresh_clients_append:
  "fresh_clients (es @ fs) s \<longleftrightarrow> fresh_clients es s \<and> fresh_clients fs (rawd_run es s)"
  by (induction es arbitrary: s) auto

lemma steady_append [simp]: "steady nc (es @ fs) \<longleftrightarrow> steady nc es \<and> steady nc fs"
  by (induction es) auto

lemma sent_to_append [simp]: "sent_to nc (xs @ ys) = sent_to nc xs @ sent_to nc ys"
  by (induction xs) (auto split: rawd_call.split)

lemma sent_to_writes:
  "distinct ncs \<Longrightarrow> sent_to nc (map (\<lambda>c. Rawd_write c b) ncs) = (if nc \<in> set ncs then [b] else [])"
  by (induction ncs) auto

lemma sent_to_none: "(\<And>b. Rawd_write nc b \<notin> set es) \<Longrightarrow> sent_to nc es = []"
proof (induction es)
  case (Cons e es)
  have "sent_to nc es = []" using Cons by auto
  moreover have "e \<noteq> Rawd_write nc b" for b using Cons.prems [of b] by auto
  ultimately show ?case by (cases e) auto
qed simp

lemma distinct_map_filter: "distinct_slots ncs \<Longrightarrow> distinct (List.map_filter id ncs)"
proof (induction ncs)
  case (Cons x ncs)
  have d: "distinct_slots ncs"
    unfolding distinct_slots_def
  proof (intro allI impI)
    fix i j nc assume "i < length ncs \<and> j < length ncs \<and> ncs ! i = Some nc \<and> ncs ! j = Some nc"
    then have "Suc i = Suc j"
      using Cons.prems unfolding distinct_slots_def by (metis Suc_less_eq length_Cons nth_Cons_Suc)
    then show "i = j" by simp
  qed
  have "nc \<notin> slots ncs" if "x = Some nc" for nc
  proof
    assume "nc \<in> slots ncs"
    then obtain j where "j < length ncs" "ncs ! j = Some nc" unfolding slots_nth by blast
    then have "0 = Suc j"
      using Cons.prems that unfolding distinct_slots_def
      by (metis Suc_less_eq length_Cons nth_Cons_0 nth_Cons_Suc zero_less_Suc)
    then show False by simp
  qed
  then show ?case using Cons.IH [OF d] 
    by (cases x) (simp_all add: map_filter_simps map_filter_slots [unfolded id_def] id_def)
qed (simp add: map_filter_simps)

lemma push_section_sent:
  assumes "rawd_inv {} s" "nc \<in> stored s" "est nc"
  shows "sent_to nc (rw_log (rawd_push_section est s)) = sent_to nc (rw_log s) @ [raw_of_frame (rw_frame s)]"
proof -
  have d: "distinct (filter est (List.map_filter id (rw_ncs s)))"
    using assms(1) distinct_map_filter by (simp add: rawd_inv_def)
  have m: "nc \<in> set (filter est (List.map_filter id (rw_ncs s)))"
    using assms(2,3) by (simp add: map_filter_slots stored_def)
  show ?thesis
    using m by (simp add: rawd_push_section_def push_slots_effect sent_to_writes [OF d])
qed

text \<open>One step, seen by a client that has been greeted.\<close>

lemma step_sent:
  assumes "rawd_ok s" "nc \<in> stored s" "rw_greet s \<noteq> Some nc" "rawd_enabled e s" "steady nc [e]"
  shows "nc \<in> stored (rawd_step e s) \<and> rw_greet (rawd_step e s) \<noteq> Some nc
    \<and> sent_to nc (rw_log (rawd_step e s)) = sent_to nc (rw_log s)
        @ (case e of Push_send est \<Rightarrow> if rw_woken s then [raw_of_frame (rw_frame s)] else [] | _ \<Rightarrow> [])"
proof (cases e)
  case (Client est accepted)
  show ?thesis
  proof (cases accepted)
    case None
    then show ?thesis using assms Client by simp
  next
    case (Some c)
    let ?s = "rawd_call (Accepted c) s"
    obtain greet s1 where sec: "rawd_new_section est c ?s = (greet, s1)" by fastforce
    have c: "c \<notin> stored s" "c \<noteq> nc" using assms(2,4) Client Some by (auto simp: rawd_enabled_def)
    have "rawd_inv {c} ?s" using assms(1) c(1) by (intro inv_accepted) (simp_all add: rawd_ok_def)
    note e = rawd_new_section_effect [OF this sec]
    obtain ncs d where d: "s1 = ?s\<lparr>rw_ncs := ncs, rw_log := rw_log ?s @ d\<rparr>"
      "\<forall>c' b. Rawd_write c' b \<in> set d \<longrightarrow> c' = c"
      using section_frame [OF sec] by blast
    have "sent_to nc d = []" using d(2) c(2) by (intro sent_to_none) blast
    then show ?thesis
      using e(2,3) c assms(2,5) d(1) by (auto simp: Client Some sec)
  qed
next
  case Greet
  then obtain c where "rw_greet s = Some c" using assms(4) by (auto simp: rawd_enabled_def)
  then show ?thesis using assms(2,3) Greet by (simp add: rawd_new_ready_def)
next
  case (Push_send est)
  then show ?thesis
    using assms push_section_sent [of s nc est] by (simp add: rawd_ok_def)
qed (use assms in \<open>simp_all add: rawd_push_copy_def rawd_push_signal_def rawd_push_wait_def\<close>)

text \<open>What a step does to the frame and to the turns under way.\<close>

lemma section_keeps:
  assumes "rawd_new_section est nc s = (greet, s')"
  shows "rw_frame s' = rw_frame s" "push_debt s' = push_debt s"
  using section_frame [OF assms] by (auto simp: push_debt_def)

lemma push_debt_simps [simp]:
  "push_debt (rawd_call c s) = push_debt s" "push_debt (s\<lparr>rw_greet := g\<rparr>) = push_debt s"
  by (simp_all add: push_debt_def)

lemma step_debt_all:
  assumes "rawd_enabled e s"
  shows "raw_of_frame (rw_frame (rawd_step e s)) = last (raw_of_frame (rw_frame s) # pushed [e])
    \<and> push_debt (rawd_step e s) + (case e of Push_send est \<Rightarrow> of_bool (rw_woken s) | _ \<Rightarrow> 0)
      \<le> push_debt s + length (pushed [e])
    \<and> (pushed [e] \<noteq> [] \<longrightarrow> 0 < push_debt (rawd_step e s))
    \<and> ((case e of Push_send est \<Rightarrow> rw_woken s | _ \<Rightarrow> False) \<or> 0 < push_debt (rawd_step e s) \<or> push_debt s = 0)"
proof (cases e)
  case (Client est accepted)
  show ?thesis
  proof (cases accepted)
    case (Some nc)
    obtain greet s1 where sec: "rawd_new_section est nc (rawd_call (Accepted nc) s) = (greet, s1)" by fastforce
    show ?thesis using section_keeps [OF sec] by (auto simp: Client Some sec)
  qed (auto simp: Client)
next
  case Greet
  then show ?thesis by (auto simp: rawd_new_ready_def split: option.split)
next
  case (Push_send est)
  then show ?thesis by (auto simp: push_debt_def)
qed (use assms in \<open>auto simp: rawd_enabled_def rawd_push_copy_def rawd_push_signal_def rawd_push_wait_def push_debt_def\<close>)

lemma step_debt:
  assumes "rawd_enabled e s"
  shows "raw_of_frame (rw_frame (rawd_step e s)) = last (raw_of_frame (rw_frame s) # pushed [e])"
    and "push_debt (rawd_step e s) + (case e of Push_send est \<Rightarrow> of_bool (rw_woken s) | _ \<Rightarrow> 0)
      \<le> push_debt s + length (pushed [e])"
    and "pushed [e] \<noteq> [] \<Longrightarrow> 0 < push_debt (rawd_step e s)"
    and "(case e of Push_send est \<Rightarrow> rw_woken s | _ \<Rightarrow> False) \<or> 0 < push_debt (rawd_step e s) \<or> push_debt s = 0"
  using step_debt_all [OF assms] by (elim conjE; assumption | simp)+

lemma push_debt_le: "push_debt s \<le> 3"
  by (simp add: push_debt_def)

text \<open>
  The delivery: with \<open>xs\<close> the frame in the buffer at the start and those pushed since, the client is sent
  \<open>ms ! i\<close> times \<open>xs ! i\<close> for all frames but the last and \<open>n\<close> times the last one so far. Each turn under
  way can still send the frame in the buffer once.
\<close>

definition delivered :: "netconn \<Rightarrow> rawd_st \<Rightarrow> bytes list \<Rightarrow> rawd_st \<Rightarrow> nat list \<Rightarrow> nat \<Rightarrow> bool" where
  "delivered nc s fs s' ms n \<longleftrightarrow>
     (let xs = raw_of_frame (rw_frame s) # fs in
        length ms = length fs
      \<and> sent_to nc (rw_log s') = sent_to nc (rw_log s) @ concat (map2 replicate ms (butlast xs)) @ replicate n (last xs)
      \<and> raw_of_frame (rw_frame s') = last xs
      \<and> (\<forall>k\<in>set ms. k \<le> 3) \<and> n + push_debt s' \<le> 3
      \<and> sum_list ms + n + push_debt s' \<le> push_debt s + length fs
      \<and> (fs \<noteq> [] \<longrightarrow> hd ms \<le> push_debt s \<and> 0 < n + push_debt s'))"

lemma map2_replicate_snoc:
  assumes "length ms = length fs"
  shows "map2 replicate (ms @ [n]) (x # fs) = map2 replicate ms (butlast (x # fs)) @ [replicate n (last (x # fs))]"
proof -
  have "map2 replicate (ms @ [n]) (butlast (x # fs) @ [last (x # fs)])
      = map2 replicate ms (butlast (x # fs)) @ [replicate n (last (x # fs))]"
    using assms by simp
  then show ?thesis by (simp only: append_butlast_last_id list.distinct not_False_eq_True)
qed

lemma delivered_hd: "delivered nc s fs s' ms n \<Longrightarrow> hd (ms @ [n]) \<le> push_debt s"
  by (cases fs; cases ms) (auto simp: delivered_def Let_def)

lemma delivered_step:
  assumes "delivered nc s fs s' ms n" and "rawd_enabled e s'"
    and "sent_to nc (rw_log (rawd_step e s')) = sent_to nc (rw_log s')
        @ (case e of Push_send est \<Rightarrow> if rw_woken s' then [raw_of_frame (rw_frame s')] else [] | _ \<Rightarrow> [])"
  shows "\<exists>ms' n'. delivered nc s (fs @ pushed [e]) (rawd_step e s') ms' n'"
proof (cases "\<exists>f. e = Frame f")
  case True
  then obtain f where e: "e = Frame f" by blast
  let ?xs = "raw_of_frame (rw_frame s) # fs"
  have "length ms = length fs" using assms(1) by (simp add: delivered_def Let_def)
  then have "map2 replicate (ms @ [n]) ?xs = map2 replicate ms (butlast ?xs) @ [replicate n (last ?xs)]"
    by (simp add: map2_replicate_snoc)
  moreover have "hd (ms @ [n]) \<le> push_debt s" using assms(1) by (rule delivered_hd)
  ultimately have "delivered nc s (fs @ pushed [e]) (rawd_step e s') (ms @ [n]) 0"
    using assms(1,3) step_debt(1,2,3) [OF assms(2)] push_debt_le [of "rawd_step e s'"]
    by (auto simp: delivered_def Let_def e)
  then show ?thesis by blast
next
  case False
  define k :: nat where "k = (case e of Push_send est \<Rightarrow> of_bool (rw_woken s') | _ \<Rightarrow> 0)"
  have p: "pushed [e] = []" using False by (cases e) auto
  have sent: "sent_to nc (rw_log (rawd_step e s')) = sent_to nc (rw_log s') @ replicate k (raw_of_frame (rw_frame s'))"
    unfolding assms(3) k_def by (cases e) simp_all
  have pos: "0 < n + push_debt s' \<longrightarrow> 0 < n + k + push_debt (rawd_step e s')"
    using step_debt(4) [OF assms(2)] unfolding k_def by (cases e) auto
  have "push_debt (rawd_step e s') + k \<le> push_debt s'"
    using step_debt(2) [OF assms(2)] by (simp add: p k_def)
  then have "delivered nc s fs (rawd_step e s') ms (n + k)"
    using assms(1) sent step_debt(1) [OF assms(2)] pos
    by (auto simp: delivered_def Let_def replicate_add p)
  then show ?thesis unfolding p by auto
qed

lemma delivered_run:
  assumes "rawd_ok s" "nc \<in> stored s" "rw_greet s \<noteq> Some nc"
  shows "steady nc es \<Longrightarrow> fresh_clients es s \<Longrightarrow>
    nc \<in> stored (rawd_run es s) \<and> rw_greet (rawd_run es s) \<noteq> Some nc
    \<and> (\<exists>ms n. delivered nc s (pushed es) (rawd_run es s) ms n)"
proof (induction es rule: rev_induct)
  case Nil
  have "delivered nc s [] s [] 0" by (simp add: delivered_def push_debt_le)
  then show ?case using assms(2,3) by auto
next
  case (snoc e es)
  then have en: "rawd_enabled e (rawd_run es s)" "fresh_clients es s" "steady nc [e]"
    by (simp_all add: fresh_clients_append)
  obtain ms n where IH: "nc \<in> stored (rawd_run es s)" "rw_greet (rawd_run es s) \<noteq> Some nc"
    "delivered nc s (pushed es) (rawd_run es s) ms n"
    using snoc by (auto simp: fresh_clients_append)
  note st = step_sent [OF rawd_ok_run [OF assms(1) en(2)] IH(1,2) en(1,3)]
  show ?case
    using st delivered_step [OF IH(3) en(1)] by simp
qed

lemma push_delivery:
  assumes "rawd_ok s" and "nc \<in> stored s" and "rw_greet s \<noteq> Some nc"
    and "steady nc es" and "fresh_clients es s"
  shows "\<exists>ns. length ns = Suc (length (pushed es))
    \<and> sent_to nc (rw_log (rawd_run es s))
        = sent_to nc (rw_log s) @ concat (map2 replicate ns (raw_of_frame (rw_frame s) # pushed es))
    \<and> hd ns \<le> push_debt s \<and> list_all (\<lambda>n. n \<le> 3) ns \<and> sum_list ns \<le> push_debt s + length (pushed es)
    \<and> (pushed es \<noteq> [] \<and> push_debt (rawd_run es s) = 0 \<longrightarrow> 0 < last ns)"
proof -
  obtain ms n where d: "delivered nc s (pushed es) (rawd_run es s) ms n"
    using delivered_run [OF assms] by blast
  let ?xs = "raw_of_frame (rw_frame s) # pushed es"
  have l: "length ms = length (pushed es)" using d by (simp add: delivered_def Let_def)
  have "hd (ms @ [n]) \<le> push_debt s" using d by (rule delivered_hd)
  moreover have "concat (map2 replicate (ms @ [n]) ?xs)
      = concat (map2 replicate ms (butlast ?xs)) @ replicate n (last ?xs)"
    by (simp add: map2_replicate_snoc l)
  ultimately show ?thesis
    using d by (intro exI [of _ "ms @ [n]"]) (auto simp: delivered_def Let_def list_all_iff)
qed

text \<open>Once no turn is under way the last frame has been sent last.\<close>

lemma push_delivery_last:
  assumes "rawd_ok s" and "nc \<in> stored s" and "rw_greet s \<noteq> Some nc"
    and "steady nc es" and "fresh_clients es s" and "pushed es \<noteq> []" and "push_debt (rawd_run es s) = 0"
  shows "sent_to nc (rw_log (rawd_run es s)) \<noteq> []
    \<and> last (sent_to nc (rw_log (rawd_run es s))) = last (pushed es)"
proof -
  obtain ms n where d: "delivered nc s (pushed es) (rawd_run es s) ms n"
    using delivered_run [OF assms(1-5)] by blast
  then have "0 < n" using assms(6,7) by (simp add: delivered_def Let_def)
  then obtain k where "n = Suc k" by (cases n) auto
  then show ?thesis
    using d assms(6) by (simp add: delivered_def Let_def replicate_append_same [symmetric] flip: append_assoc)
qed

text \<open>
  C24. What a client receives while its connection stays established, whatever clients come and go: of the
  frame in the buffer and those pushed since, in this order, each a number of times. The
  frames pushed are sent at most three times each, and all together no more often than there were
  signals; a frame can be left out (there is one buffer, and events coalesce) or repeated, because the push
  thread clears its event before it takes the mutex, and the signal of a frame comes after its
  copy. Once the push thread is idle the last frame has been sent.
\<close>

theorem rawd_push_delivery:
  assumes "rawd_ok s" and "nc \<in> stored s" and "rw_greet s \<noteq> Some nc"
    and "steady nc es" and "fresh_clients es s"
  shows "\<exists>ns. length ns = Suc (length (pushed es))
    \<and> sent_to nc (rw_log (rawd_run es s))
        = sent_to nc (rw_log s) @ concat (map2 replicate ns (raw_of_frame (rw_frame s) # pushed es))
    \<and> hd ns \<le> push_debt s \<and> list_all (\<lambda>n. n \<le> 3) ns \<and> sum_list ns \<le> push_debt s + length (pushed es)
    \<and> (pushed es \<noteq> [] \<and> push_debt (rawd_run es s) = 0 \<longrightarrow> 0 < last ns)"
  by (rule push_delivery [OF assms])

text \<open>Three frames; the client gets the last one three times.\<close>

definition three_frames :: "rawd_ev list" where
  "three_frames =
     [Frame (frame_of_raw (replicate 16 5)), Signal, Push_wake,
      Frame (frame_of_raw (replicate 16 6)), Signal,
      Frame (frame_of_raw (replicate 16 7)), Push_send (\<lambda>c. True),
      Push_wake, Push_send (\<lambda>c. True),
      Signal, Push_wake, Push_send (\<lambda>c. True)]"

definition one_client :: rawd_st where
  "one_client = rawd_run [Client (\<lambda>c. True) (Some 7), Greet] rawd_boot"

lemma one_client_eq:
  "one_client = \<lparr>rw_ncs = [None, None, Some 7], rw_frame = frame_of_raw (replicate 16 0), rw_evt = False,
     rw_woken = False, rw_sig = False, rw_greet = None,
     rw_log = [Accepted 7, Mtx_lock, Mtx_unlock, Rawd_write 7 RAWD_READY]\<rparr>"
  by (simp add: one_client_def rawd_eval)

theorem rawd_push_delivery_witness:
  "sent_to 7 (rw_log (rawd_run three_frames one_client)) = [RAWD_READY, replicate 16 7, replicate 16 7, replicate 16 7]
   \<and> (\<exists>ns. sent_to 7 (rw_log (rawd_run three_frames one_client)) = RAWD_READY # concat (map2 replicate ns
          [replicate 16 0, replicate 16 5, replicate 16 6, replicate 16 7])
        \<and> hd ns = 0 \<and> sum_list ns \<le> 3)"
proof -
  have ok: "rawd_ok one_client"
    unfolding one_client_def by (rule rawd_ok_run [OF rawd_boot_ok]) (simp add: rawd_eval)
  have st: "7 \<in> stored one_client" "rw_greet one_client \<noteq> Some 7" "push_debt one_client = 0"
    "sent_to 7 (rw_log one_client) = [RAWD_READY]" "rw_frame one_client = frame_of_raw (replicate 16 0)"
    by (simp_all add: one_client_eq stored_def slots_def push_debt_def)
  have raw: "raw_of_frame (frame_of_raw (replicate 16 c)) = replicate 16 c" for c
    by (rule raw_of_frame_of_raw) (simp add: wf_raw_def PAYLOADSZ_def)
  have "steady 7 three_frames" "fresh_clients three_frames one_client"
    by (simp_all add: three_frames_def one_client_eq rawd_eval wf_raw_def PAYLOADSZ_def)
  moreover have "pushed three_frames = [replicate 16 5, replicate 16 6, replicate 16 7]"
    by (simp add: three_frames_def raw)
  ultimately have "\<exists>ns. sent_to 7 (rw_log (rawd_run three_frames one_client)) = RAWD_READY # concat (map2 replicate ns
          [replicate 16 0, replicate 16 5, replicate 16 6, replicate 16 7])
        \<and> hd ns = 0 \<and> sum_list ns \<le> 3"
    using rawd_push_delivery [OF ok st(1,2), of three_frames, unfolded st raw] by force
  moreover have "sent_to 7 (rw_log (rawd_run three_frames one_client)) = [RAWD_READY, replicate 16 7, replicate 16 7, replicate 16 7]"
    by (simp add: three_frames_def one_client_eq rawd_eval raw)
  ultimately show ?thesis by blast
qed

end
