(* ===== verification/Data_Path.thy ===== *)
theory Data_Path
  imports Radio_Turn Rawd Data_Table
begin

text \<open>
  The way of a sensor report through the firmware: radio, receive queue, the thread \<open>data_rx\<close>
  of \<^verbatim>\<open>firmware/data.c\<close>, and from there the sensor table and the clients of the raw
  frame server. \<open>data_rx_turn\<close> is one turn of that thread; the step relation interleaves its
  calls with the radio thread and its callers (\<^verbatim>\<open>Nrf_Queues\<close>), the cleaner (\<^verbatim>\<open>Data_Table\<close>) and the two
  threads of the frame server (\<^verbatim>\<open>Rawd\<close>), cut between their critical sections. The theorems join those of the components: what is stored
  and what a client is sent comes from the radio, in its order.
\<close>

section \<open>The thread\<close>

text \<open>\<open>None\<close>: the thread waits in \<open>nrf_recv\<close>. The message buffer is a local variable that each turn fills.\<close>

definition data_rx_turn ::
    "'m mbox_ops \<Rightarrow> bytes \<Rightarrow> 'm nrf_entry \<times> data_table \<times> rawd_st
       \<Rightarrow> (bytes \<times> 'm nrf_entry \<times> data_table \<times> rawd_st) option" where
  "data_rx_turn ops msg = (\<lambda>(nrf, tbl, rawd).
     case nrf_recv ops msg nrf of
       None \<Rightarrow> None
     | Some (msg, nrf) \<Rightarrow>
         (let tbl = update_table (frame_of_raw msg) tbl;
              rawd = rawd_push (frame_of_raw msg) rawd
          in Some (msg, nrf, tbl, rawd)))"

datatype rx_pc = At_recv | At_update | At_push | At_signal

text \<open>The logs \<open>fw_tevs\<close> and \<open>fw_revs\<close> are the histories of the table and of the frame server.\<close>

record 'm firmware =
  fw_radio :: "'m radio_sys"
  fw_pc :: rx_pc
  fw_msg :: bytes
  fw_table :: data_table
  fw_rawd :: rawd_st
  fw_tevs :: "store_ev list"
  fw_revs :: "rawd_ev list"

definition fw_table_ev :: "store_ev \<Rightarrow> 'm firmware \<Rightarrow> 'm firmware" where
  "fw_table_ev e y = y\<lparr>fw_table := store_run update_table data_clean_tick (fw_table y) [e], fw_tevs := fw_tevs y @ [e]\<rparr>"

definition fw_rawd_ev :: "rawd_ev \<Rightarrow> 'm firmware \<Rightarrow> 'm firmware" where
  "fw_rawd_ev e y = y\<lparr>fw_rawd := rawd_step e (fw_rawd y), fw_revs := fw_revs y @ [e]\<rparr>"

text \<open>The steps of \<open>data_rx\<close>: \<open>nrf_recv\<close>, \<open>update_table\<close>, and the two halves of \<open>rawd_push\<close>.\<close>

inductive rx_step :: "'m mbox_ops \<Rightarrow> 'm firmware \<Rightarrow> 'm firmware \<Rightarrow> bool"
  for ops :: "'m mbox_ops" where
  recv: "fw_pc y = At_recv \<Longrightarrow> nrf_recv ops (fw_msg y) (rs_st (fw_radio y)) = Some (m, s) \<Longrightarrow>
     rx_step ops y
       (y\<lparr>fw_radio := (fw_radio y)\<lparr>rs_st := s, rs_received := rs_received (fw_radio y) @ [m]\<rparr>,
          fw_msg := m, fw_pc := At_update\<rparr>)"
| update: "fw_pc y = At_update \<Longrightarrow>
     rx_step ops y ((fw_table_ev (Rx (frame_of_raw (fw_msg y))) y)\<lparr>fw_pc := At_push\<rparr>)"
| copy: "fw_pc y = At_push \<Longrightarrow>
     rx_step ops y ((fw_rawd_ev (Frame (frame_of_raw (fw_msg y))) y)\<lparr>fw_pc := At_signal\<rparr>)"
| signal: "fw_pc y = At_signal \<Longrightarrow>
     rx_step ops y ((fw_rawd_ev Signal y)\<lparr>fw_pc := At_recv\<rparr>)"

text \<open>Those of the push thread of the frame server.\<close>

inductive push_step :: "'m firmware \<Rightarrow> 'm firmware \<Rightarrow> bool" where
  wake: "rw_evt (fw_rawd y) \<Longrightarrow> \<not> rw_woken (fw_rawd y) \<Longrightarrow> push_step y (fw_rawd_ev Push_wake y)"
| send: "rw_woken (fw_rawd y) \<Longrightarrow> push_step y (fw_rawd_ev (Push_send est) y)"

inductive fw_step :: "bool \<Rightarrow> 'm mbox_ops \<Rightarrow> 'm firmware \<Rightarrow> 'm firmware \<Rightarrow> bool"
  for locked :: bool and ops :: "'m mbox_ops" where
  radio: "radio_step locked ops (fw_radio y) r \<Longrightarrow> rs_received r = rs_received (fw_radio y) \<Longrightarrow>
     fw_step locked ops y (y\<lparr>fw_radio := r\<rparr>)"
| data_rx: "rx_step ops y z \<Longrightarrow> fw_step locked ops y z"
| pusher: "push_step y z \<Longrightarrow> fw_step locked ops y z"
| clean: "fw_step locked ops y (fw_table_ev Tick y)"
| client: "rawd_enabled (Client est accepted) (fw_rawd y) \<Longrightarrow>
     fw_step locked ops y (fw_rawd_ev (Client est accepted) y)"
| greet: "rawd_enabled Greet (fw_rawd y) \<Longrightarrow> fw_step locked ops y (fw_rawd_ev Greet y)"

inductive fw_reach :: "bool \<Rightarrow> 'm mbox_ops \<Rightarrow> 'm firmware \<Rightarrow> 'm firmware \<Rightarrow> bool"
  for locked ops y0 where
  start: "fw_reach locked ops y0 y0"
| step: "fw_reach locked ops y0 y \<Longrightarrow> fw_step locked ops y z \<Longrightarrow> fw_reach locked ops y0 z"

definition fw_boot :: "'m mbox_ops \<Rightarrow> 'm nrf_entry \<Rightarrow> bytes \<Rightarrow> 'm firmware" where
  "fw_boot ops s msg = \<lparr>fw_radio = radio_boot ops s, fw_pc = At_recv, fw_msg = msg, fw_table = boot_table,
     fw_rawd = rawd_boot, fw_tevs = [], fw_revs = []\<rparr>"

section \<open>Histories\<close>

fun rx_frames :: "store_ev list \<Rightarrow> nrf_frame list" where
  "rx_frames [] = []"
| "rx_frames (Rx m # es) = m # rx_frames es"
| "rx_frames (Tick # es) = rx_frames es"

lemma rx_frames_append [simp]: "rx_frames (es @ fs) = rx_frames es @ rx_frames fs"
  by (induction es rule: rx_frames.induct) simp_all

lemma wf_history_frames: "wf_history es \<longleftrightarrow> list_all wf_frame (rx_frames es)"
  by (induction es rule: rx_frames.induct) simp_all

section \<open>The invariant of the path\<close>

text \<open>
  \<open>fin\<close> are the messages the thread is done with. The message it holds has been received; at the push it has
  been stored as well, and at the signal copied.
\<close>

definition path_inv :: "'m radio_sys \<Rightarrow> bool \<Rightarrow> 'm mbox_ops \<Rightarrow> bytes list \<Rightarrow> 'm firmware \<Rightarrow> bool" where
  "path_inv r0 locked ops fin y \<longleftrightarrow>
     radio_reach locked ops r0 (fw_radio y)
     \<and> wf_raw (fw_msg y) \<and> list_all wf_raw fin
     \<and> rs_received (fw_radio y) = fin @ (if fw_pc y = At_recv then [] else [fw_msg y])
     \<and> rx_frames (fw_tevs y) = map frame_of_raw (fin @ (if fw_pc y = At_recv \<or> fw_pc y = At_update then [] else [fw_msg y]))
     \<and> pushed (fw_revs y) = fin @ (if fw_pc y = At_signal then [fw_msg y] else [])
     \<and> fw_table y = run_table boot_table (fw_tevs y)
     \<and> fw_rawd y = rawd_run (fw_revs y) rawd_boot \<and> fresh_clients (fw_revs y) rawd_boot
     \<and> (rw_sig (rawd_run (fw_revs y) rawd_boot) \<longleftrightarrow> fw_pc y = At_signal)"

lemma path_inv_ok: "path_inv r0 locked ops fin y \<Longrightarrow> rawd_ok (fw_rawd y)"
  using rawd_ok_run [OF rawd_boot_ok] by (simp add: path_inv_def)

text \<open>Only the caller of \<open>rawd_push\<close> moves between its two halves.\<close>

lemma rw_sig_step:
  "rw_sig (rawd_step e s) \<longleftrightarrow> (case e of Frame f \<Rightarrow> True | Signal \<Rightarrow> False | _ \<Rightarrow> rw_sig s)"
proof (cases e)
  case (Client est accepted)
  show ?thesis
  proof (cases accepted)
    case (Some nc)
    obtain greet s1 where sec: "rawd_new_section est nc (rawd_call (Accepted nc) s) = (greet, s1)" by fastforce
    then show ?thesis using section_frame [OF sec] by (auto simp: Client Some)
  qed (simp add: Client)
qed (simp_all add: rawd_new_ready_def rawd_push_wait_def split: option.split)

lemma fw_ev_simps [simp]:
  "fw_radio (fw_table_ev e y) = fw_radio y" "fw_pc (fw_table_ev e y) = fw_pc y"
  "fw_msg (fw_table_ev e y) = fw_msg y" "fw_rawd (fw_table_ev e y) = fw_rawd y"
  "fw_revs (fw_table_ev e y) = fw_revs y" "fw_tevs (fw_table_ev e y) = fw_tevs y @ [e]"
  "fw_table (fw_table_ev e y) = run_table (fw_table y) [e]"
  "fw_radio (fw_rawd_ev e' y) = fw_radio y" "fw_pc (fw_rawd_ev e' y) = fw_pc y"
  "fw_msg (fw_rawd_ev e' y) = fw_msg y" "fw_table (fw_rawd_ev e' y) = fw_table y"
  "fw_tevs (fw_rawd_ev e' y) = fw_tevs y" "fw_revs (fw_rawd_ev e' y) = fw_revs y @ [e']"
  "fw_rawd (fw_rawd_ev e' y) = rawd_step e' (fw_rawd y)"
  by (simp_all add: fw_table_ev_def fw_rawd_ev_def)

lemma path_inv_boot:
  "wf_raw msg \<Longrightarrow> path_inv (radio_boot ops s) locked ops [] (fw_boot ops s msg)"
  by (simp add: path_inv_def fw_boot_def radio_reach.start radio_boot_def rawd_boot_def rawd_init_def)

text \<open>A step of the frame server that is not one of \<open>rawd_push\<close>.\<close>

lemma path_inv_rawd:
  assumes "path_inv r0 locked ops fin y" "rawd_enabled e (fw_rawd y)" "case e of Frame f \<Rightarrow> False | Signal \<Rightarrow> False | _ \<Rightarrow> True"
  shows "path_inv r0 locked ops fin (fw_rawd_ev e y)"
proof -
  have "pushed [e] = []" "rw_sig (rawd_step e (fw_rawd y)) = rw_sig (fw_rawd y)"
    using assms(3) by (cases e; simp add: rw_sig_step del: rawd_step.simps)+
  then show ?thesis
    using assms(1,2) by (auto simp: path_inv_def fresh_clients_append simp del: rawd_step.simps)
qed

context mailbox
begin

lemma recv_length:
  assumes "entry_ok view mok s0" "length buf = PAYLOADSZ" "nrf_recv ops buf s0 = Some (m, s)"
  shows "length m = PAYLOADSZ"
proof -
  have r: "ring_ok view mok (nr_rx s0) (nr_rx_bufs s0) (nr_rx_idx s0)"
    using assms(1) by (simp add: entry_ok_def)
  have "view (nr_rx s0) \<noteq> []"
    using assms(3) ring_fetch_empty [OF r] by (auto simp: nrf_recv_def)
  with r obtain i rx where f: "mb_fetch ops (nr_rx s0) = Some (i, rx)" "i < MBSZ"
    by (rule ring_fetch)
  then have "m = memcpy_bytes buf (nr_rx_bufs s0 ! i) PAYLOADSZ"
    using assms(3) by (simp add: nrf_recv_def)
  then show ?thesis using assms(2) ring_ok_bufD [OF r f(2)] by simp
qed

lemma path_inv_rx:
  assumes "rx_step ops y z" and "queue_inv view mok r0" and "path_inv r0 locked ops fin y"
  shows "\<exists>fin'. path_inv r0 locked ops fin' z"
  using assms
proof (induction rule: rx_step.induct)
  case (recv y m s)
  then have w: "length (fw_msg y) = PAYLOADSZ" and r: "radio_reach locked ops r0 (fw_radio y)"
    by (simp_all add: path_inv_def wf_raw_def)
  have "entry_ok view mok (rs_st (fw_radio y))"
    using reach_queue [OF r recv.prems(1)] by (simp add: queue_inv_def)
  then have "length m = PAYLOADSZ"
    by (rule recv_length [OF _ w recv.hyps(2)])
  moreover have "radio_reach locked ops r0
      ((fw_radio y)\<lparr>rs_st := s, rs_received := rs_received (fw_radio y) @ [m]\<rparr>)"
    using radio_reach.step [OF r radio_step.recv [OF w recv.hyps(2)]] .
  ultimately have "path_inv r0 locked ops fin
      (y\<lparr>fw_radio := (fw_radio y)\<lparr>rs_st := s, rs_received := rs_received (fw_radio y) @ [m]\<rparr>,
         fw_msg := m, fw_pc := At_update\<rparr>)"
    using recv by (simp add: path_inv_def wf_raw_def)
  then show ?case ..
next
  case (update y)
  then have "path_inv r0 locked ops fin ((fw_table_ev (Rx (frame_of_raw (fw_msg y))) y)\<lparr>fw_pc := At_push\<rparr>)"
    by (simp add: path_inv_def store_run_append)
  then show ?case ..
next
  case (copy y)
  then have "rawd_enabled (Frame (frame_of_raw (fw_msg y))) (fw_rawd y)"
    by (simp add: path_inv_def rawd_enabled_def)
  then have "path_inv r0 locked ops fin
      ((fw_rawd_ev (Frame (frame_of_raw (fw_msg y))) y)\<lparr>fw_pc := At_signal\<rparr>)"
    using copy by (simp add: path_inv_def fresh_clients_append)
  then show ?case ..
next
  case (signal y)
  then have "rawd_enabled Signal (fw_rawd y)" by (simp add: path_inv_def rawd_enabled_def)
  then have "path_inv r0 locked ops (fin @ [fw_msg y]) ((fw_rawd_ev Signal y)\<lparr>fw_pc := At_recv\<rparr>)"
    using signal by (simp add: path_inv_def fresh_clients_append)
  then show ?case ..
qed

lemma path_inv_step:
  assumes "fw_step locked ops y z" and "queue_inv view mok r0" and "path_inv r0 locked ops fin y"
  shows "\<exists>fin'. path_inv r0 locked ops fin' z"
  using assms
proof (induction rule: fw_step.induct)
  case (radio y r)
  then have "path_inv r0 locked ops fin (y\<lparr>fw_radio := r\<rparr>)"
    by (auto simp: path_inv_def intro: radio_reach.step)
  then show ?case ..
next
  case (data_rx y z)
  then show ?case using path_inv_rx by blast
next
  case (pusher y z)
  then have "path_inv r0 locked ops fin z"
    by (auto elim!: push_step.cases intro!: path_inv_rawd simp: rawd_enabled_def simp del: rawd_step.simps)
  then show ?case ..
next
  case (clean y)
  then have "path_inv r0 locked ops fin (fw_table_ev Tick y)"
    by (simp add: path_inv_def store_run_append)
  then show ?case ..
next
  case (client est accepted y)
  then have "path_inv r0 locked ops fin (fw_rawd_ev (Client est accepted) y)"
    by (intro path_inv_rawd) simp_all
  then show ?case ..
next
  case (greet y)
  then have "path_inv r0 locked ops fin (fw_rawd_ev Greet y)"
    by (intro path_inv_rawd) simp_all
  then show ?case ..
qed

lemma path_inv_reach:
  assumes "fw_reach locked ops y0 y" and "queue_inv view mok r0" and "path_inv r0 locked ops fin0 y0"
  shows "\<exists>fin. path_inv r0 locked ops fin y"
  using assms
proof (induction rule: fw_reach.induct)
  case start
  then show ?case by blast
next
  case (step y z)
  then show ?case using path_inv_step by blast
qed

lemma path_reach:
  assumes "fw_reach locked ops (fw_boot ops s msg) y" and "bufs_ok s" and "wf_raw msg"
  obtains fin where "path_inv (radio_boot ops s) locked ops fin y"
    "subseq (rs_received (fw_radio y)) (rs_posted (fw_radio y))"
proof -
  note q = boot_invs(1,3) [OF assms(2)]
  obtain fin where fin: "path_inv (radio_boot ops s) locked ops fin y"
    using path_inv_reach [OF assms(1) q(1) path_inv_boot [OF assms(3)]] by blast
  then have "radio_reach locked ops (radio_boot ops s) (fw_radio y)"
    by (simp add: path_inv_def)
  then have "subseq (rs_received (fw_radio y) @ rx_pending view (rs_st (fw_radio y))) (rs_posted (fw_radio y))"
    using reach_rx_order q by (simp add: rx_order_def)
  then have "subseq (rs_received (fw_radio y)) (rs_posted (fw_radio y))"
    by (rule subseq_order.trans [OF subseq_rev_drop_many [OF subseq_order.refl]])
  with fin show ?thesis by (rule that)
qed

end

text \<open>The frames stored are the messages the radio gave, or all but the newest of them.\<close>

lemma path_stored:
  assumes "path_inv r0 locked ops fin y" "subseq (rs_received (fw_radio y)) posted"
  shows "subseq (map raw_of_frame (rx_frames (fw_tevs y))) posted"
    and "prefix (pushed (fw_revs y)) (map raw_of_frame (rx_frames (fw_tevs y)))"
    and "length (rx_frames (fw_tevs y)) \<le> length (pushed (fw_revs y)) + 1"
proof -
  let ?st = "fin @ (if fw_pc y = At_recv \<or> fw_pc y = At_update then [] else [fw_msg y])"
  have "list_all wf_raw ?st" using assms(1) by (simp add: path_inv_def)
  then have raw: "map raw_of_frame (rx_frames (fw_tevs y)) = ?st"
    using assms(1) by (auto simp: path_inv_def list_all_iff intro!: map_idI)
  have "prefix ?st (rs_received (fw_radio y))"
    using assms(1) by (simp add: path_inv_def)
  then show "subseq (map raw_of_frame (rx_frames (fw_tevs y))) posted"
    unfolding raw using assms(2) prefix_imp_subseq subseq_order.trans by blast
  show "prefix (pushed (fw_revs y)) (map raw_of_frame (rx_frames (fw_tevs y)))"
    unfolding raw using assms(1) by (simp add: path_inv_def)
  show "length (rx_frames (fw_tevs y)) \<le> length (pushed (fw_revs y)) + 1"
    using assms(1) by (simp add: path_inv_def)
qed

text \<open>A turn of the thread is four steps.\<close>

lemma data_rx_run:
  assumes "fw_pc y = At_recv" and "\<not> rw_sig (fw_rawd y)"
    and "data_rx_turn ops (fw_msg y) (rs_st (fw_radio y), fw_table y, fw_rawd y) = Some (m, s, tbl, rawd)"
  shows "\<exists>z. fw_reach locked ops y z \<and> fw_pc z = At_recv \<and> fw_msg z = m \<and> rs_st (fw_radio z) = s
     \<and> fw_table z = tbl \<and> fw_rawd z = rawd
     \<and> fw_tevs z = fw_tevs y @ [Rx (frame_of_raw m)] \<and> fw_revs z = fw_revs y @ [Frame (frame_of_raw m), Signal]"
proof -
  from assms(3) have r: "nrf_recv ops (fw_msg y) (rs_st (fw_radio y)) = Some (m, s)"
    and t: "tbl = update_table (frame_of_raw m) (fw_table y)" and w: "rawd = rawd_push (frame_of_raw m) (fw_rawd y)"
    by (auto simp: data_rx_turn_def Let_def split: option.splits)
  let ?y1 = "y\<lparr>fw_radio := (fw_radio y)\<lparr>rs_st := s, rs_received := rs_received (fw_radio y) @ [m]\<rparr>,
     fw_msg := m, fw_pc := At_update\<rparr>"
  let ?y2 = "(fw_table_ev (Rx (frame_of_raw m)) ?y1)\<lparr>fw_pc := At_push\<rparr>"
  let ?y3 = "(fw_rawd_ev (Frame (frame_of_raw m)) ?y2)\<lparr>fw_pc := At_signal\<rparr>"
  let ?y4 = "(fw_rawd_ev Signal ?y3)\<lparr>fw_pc := At_recv\<rparr>"
  note lift = fw_step.data_rx [where locked = locked]
  have "fw_step locked ops y ?y1" by (rule lift [OF rx_step.recv [OF assms(1) r]])
  moreover have "fw_step locked ops ?y1 ?y2" using lift [OF rx_step.update [of ?y1 ops]] by simp
  moreover have "fw_step locked ops ?y2 ?y3" using lift [OF rx_step.copy [of ?y2 ops]] by simp
  moreover have "fw_step locked ops ?y3 ?y4" using lift [OF rx_step.signal [of ?y3 ops]] by simp
  ultimately have "fw_reach locked ops y ?y4"
    by (meson fw_reach.intros)
  moreover have "fw_pc ?y4 = At_recv \<and> fw_msg ?y4 = m \<and> rs_st (fw_radio ?y4) = s
     \<and> fw_table ?y4 = tbl \<and> fw_rawd ?y4 = rawd
     \<and> fw_tevs ?y4 = fw_tevs y @ [Rx (frame_of_raw m)] \<and> fw_revs ?y4 = fw_revs y @ [Frame (frame_of_raw m), Signal]"
    using rawd_push_steps [OF assms(2), of "frame_of_raw m"] by (simp add: t w)
  ultimately show ?thesis by blast
qed

section \<open>Properties\<close>

lemma path_table:
  assumes "mailbox ops view mok" and "bufs_ok s" and "wf_raw msg"
    and "fw_reach locked ops (fw_boot ops s msg) y"
  shows "subseq (map raw_of_frame (rx_frames (fw_tevs y))) (rs_posted (fw_radio y))
    \<and> table_inv (fw_table y)
    \<and> (\<forall>k. k \<noteq> null_key \<longrightarrow> table_look (fw_table y) k = None
          \<or> table_look (fw_table y) k = newest NEW_TTL k (fw_tevs y))
    \<and> (silent null_key (fw_tevs y) \<longrightarrow>
         table_look (fw_table y) = foldl (spec_step TABLE_SIZE NEW_TTL) Map.empty (fw_tevs y))"
proof -
  obtain fin where p: "path_inv (radio_boot ops s) locked ops fin y"
    "subseq (rs_received (fw_radio y)) (rs_posted (fw_radio y))"
    by (rule mailbox.path_reach [OF assms(1,4,2,3)])
  have tbl: "fw_table y = run_table boot_table (fw_tevs y)" using p(1) by (simp add: path_inv_def)
  have wf: "wf_history (fw_tevs y)"
    using p(1) by (auto simp: path_inv_def wf_history_frames list_all_iff)
  have "table_look (fw_table y) = foldl (spec_step TABLE_SIZE NEW_TTL) Map.empty (fw_tevs y)"
    if "silent null_key (fw_tevs y)"
    unfolding tbl using table.run_refines [OF boot_inv(1,2) wf] that by (simp add: silent_def boot_inv(3))
  moreover have "table_look (fw_table y) k = None \<or> table_look (fw_table y) k = newest NEW_TTL k (fw_tevs y)"
    if "k \<noteq> null_key" for k
    using table.look_newest [OF boot_inv(1) that wf, of None] by (simp add: tbl newest_def boot_inv(3))
  ultimately show ?thesis
    using path_stored(1) [OF p] table.inv_run [OF boot_inv(1) wf] by (simp add: tbl)
qed

text \<open>
  C7. From the radio to the table: in every reachable state of the firmware, whatever the radio does and however
  the threads interleave, the frames stored so far are, byte for byte and in order, a selection
  of the messages the interrupt handler queued (it queues one for every interrupt with data, and after a
  failed read the bytes the buffer held before). The table is well formed. For every pair other than (0, 0) it shows nothing
  or the newest of those frames with that pair, aged by the seconds since. If moreover none of the frames
  carried the pair (0, 0), it holds exactly the map that the frames and the seconds passed define; with such
  a frame that fails, as free entries match the pair.
\<close>

theorem firmware_table:
  assumes "mailbox ops view mok" and "bufs_ok s" and "wf_raw msg"
    and "fw_reach locked ops (fw_boot ops s msg) y"
  shows "subseq (map raw_of_frame (rx_frames (fw_tevs y))) (rs_posted (fw_radio y))
    \<and> table_inv (fw_table y)
    \<and> (\<forall>k. k \<noteq> null_key \<longrightarrow> table_look (fw_table y) k = None
          \<or> table_look (fw_table y) k = newest NEW_TTL k (fw_tevs y))
    \<and> (silent null_key (fw_tevs y) \<longrightarrow>
         table_look (fw_table y) = foldl (spec_step TABLE_SIZE NEW_TTL) Map.empty (fw_tevs y))"
  by (rule path_table [OF assms])

text \<open>The frame in the buffer is the last one pushed; before the first one no turn of the push thread is under way.\<close>

lemma pushed_buffer:
  "fresh_clients es rawd_boot \<Longrightarrow>
   (if pushed es = [] then push_debt (rawd_run es rawd_boot) = 0
    else raw_of_frame (rw_frame (rawd_run es rawd_boot)) = last (pushed es))"
proof (induction es rule: rev_induct)
  case Nil
  then show ?case by (simp add: push_debt_def rawd_boot_def rawd_init_def)
next
  case (snoc e es)
  then have "rawd_enabled e (rawd_run es rawd_boot)" by (simp add: fresh_clients_append)
  note st = step_debt(1,2) [OF this]
  show ?case
    using st snoc by (auto simp: fresh_clients_append split: if_splits simp del: rawd_step.simps)
qed


text \<open>
  A turn of \<open>data_rx\<close> is a run of four steps of the system: it takes the oldest queued message, stores
  it and hands it to the frame server; the message is in the table (if there is room) before it can be pushed.
\<close>

theorem data_rx_turn_refines:
  assumes "fw_pc y = At_recv" and "\<not> rw_sig (fw_rawd y)"
    and "data_rx_turn ops (fw_msg y) (rs_st (fw_radio y), fw_table y, fw_rawd y) = Some (m, s, tbl, rawd)"
  shows "\<exists>z. fw_reach locked ops y z \<and> fw_pc z = At_recv \<and> fw_msg z = m \<and> rs_st (fw_radio z) = s
     \<and> fw_table z = tbl \<and> fw_rawd z = rawd
     \<and> fw_tevs z = fw_tevs y @ [Rx (frame_of_raw m)] \<and> fw_revs z = fw_revs y @ [Frame (frame_of_raw m), Signal]"
  by (rule data_rx_run [OF assms])

section \<open>One message all the way\<close>

text \<open>A run of the radio in which nothing is received is a run of the firmware.\<close>

lemma radio_step_received: "radio_step locked ops r r' \<Longrightarrow> prefix (rs_received r) (rs_received r')"
  by (induction rule: radio_step.induct) simp_all

lemma radio_reach_received: "radio_reach locked ops r r' \<Longrightarrow> prefix (rs_received r) (rs_received r')"
proof (induction rule: radio_reach.induct)
  case start
  then show ?case by simp
next
  case (step y z)
  then show ?case using radio_step_received prefix_order.trans by blast
qed

lemma radio_lift:
  assumes "radio_reach locked ops (fw_radio y) r" and "rs_received r = rs_received (fw_radio y)"
  shows "fw_reach locked ops y (y\<lparr>fw_radio := r\<rparr>)"
  using assms
proof (induction rule: radio_reach.induct)
  case start
  have "y\<lparr>fw_radio := fw_radio y\<rparr> = y" by simp
  then show ?case by (simp add: fw_reach.start)
next
  case (step r r')
  have eq: "rs_received r = rs_received (fw_radio y)"
    using radio_reach_received [OF step.hyps(1)] radio_step_received [OF step.hyps(2)] step.prems
    by (simp add: prefix_order.antisym)
  have "fw_step locked ops (y\<lparr>fw_radio := r\<rparr>) ((y\<lparr>fw_radio := r\<rparr>)\<lparr>fw_radio := r'\<rparr>)"
    by (rule fw_step.radio) (simp_all add: step.hyps eq step.prems)
  then show ?case using step.IH [OF eq] by (auto intro: fw_reach.step)
qed

lemma fw_reach_trans:
  "fw_reach locked ops y z \<Longrightarrow> fw_reach locked ops x y \<Longrightarrow> fw_reach locked ops x z"
  by (induction rule: fw_reach.induct) (auto intro: fw_reach.step)

context mailbox
begin

lemma forward_run:
  assumes ok: "entry_ok view mok (rs_st (fw_radio y))" and pc: "rs_pc (fw_radio y) = Waiting" "fw_pc y = At_recv"
    and evt: "nr_evt (rs_st (fw_radio y))" and w: "wf_raw (fw_msg y)"
    and empty: "rx_pending view (rs_st (fw_radio y)) = []" and rawd: "\<not> rw_sig (fw_rawd y)" "\<not> rw_woken (fw_rawd y)"
    and st: "irq_status miso (rs_st (fw_radio y)\<lparr>nr_evt := False\<rparr>) = (status, s0)" "status AND RX_DR \<noteq> 0"
  defines "m \<equiv> rx_filled miso (irq_rx_drop ops s0)"
  shows "wf_raw m \<and> (\<exists>z. fw_reach locked ops y z \<and> fw_pc z = At_recv \<and> rx_pending view (rs_st (fw_radio z)) = []
     \<and> fw_tevs z = fw_tevs y @ [Rx (frame_of_raw m)]
     \<and> fw_revs z = fw_revs y @ [Frame (frame_of_raw m), Signal, Push_wake, Push_send est]
     \<and> fw_table z = update_table (frame_of_raw m) (fw_table y)
     \<and> fw_rawd z = rawd_run [Frame (frame_of_raw m), Signal, Push_wake, Push_send est] (fw_rawd y))"
proof (rule conjI)
  let ?s = "rs_st (fw_radio y)\<lparr>nr_evt := False\<rparr>"
  let ?s' = "nrf_irq ops miso ?s"
  have "entry_ok view mok ?s" using ok by (simp add: entry_ok_def)
  note e = irq_effect [OF this st(1)]
  have "rx_pending view ?s = []" using empty by (simp add: rx_pending_def)
  then have pend: "rx_pending view ?s' = [m]"
    using e(4) st(2) by (simp add: m_def MBSZ_def)
  obtain posted where "radio_reach locked ops (fw_radio y)
      ((fw_radio y)\<lparr>rs_st := ?s', rs_pc := Check_tx, rs_posted := posted\<rparr>)" (is "radio_reach _ _ _ ?r")
    using irq_run [OF pc(1) evt] by blast
  then have r1: "fw_reach locked ops y (y\<lparr>fw_radio := ?r\<rparr>)" (is "fw_reach _ _ _ ?y1")
    by (rule radio_lift) simp
  obtain rx where recv: "nrf_recv ops (fw_msg y) ?s' = Some (m, ?s'\<lparr>nr_rx := rx\<rparr>)"
    "pending view rx (nr_rx_bufs ?s') = []"
    using recv_effect [OF e(1), of "fw_msg y"] w pend by (auto simp: wf_raw_def)
  show "wf_raw m"
    using recv_length [OF e(1) _ recv(1)] w by (simp add: wf_raw_def)
  have "data_rx_turn ops (fw_msg ?y1) (rs_st (fw_radio ?y1), fw_table ?y1, fw_rawd ?y1)
      = Some (m, ?s'\<lparr>nr_rx := rx\<rparr>, update_table (frame_of_raw m) (fw_table y), rawd_push (frame_of_raw m) (fw_rawd y))"
    by (simp add: data_rx_turn_def recv(1))
  from data_rx_run [OF _ _ this, of locked] pc(2) rawd(1) obtain z where z: "fw_reach locked ops ?y1 z"
    "fw_pc z = At_recv" "rs_st (fw_radio z) = ?s'\<lparr>nr_rx := rx\<rparr>"
    "fw_table z = update_table (frame_of_raw m) (fw_table y)" "fw_rawd z = rawd_push (frame_of_raw m) (fw_rawd y)"
    "fw_tevs z = fw_tevs y @ [Rx (frame_of_raw m)]" "fw_revs z = fw_revs y @ [Frame (frame_of_raw m), Signal]"
    by auto
  let ?w = "fw_rawd_ev Push_wake z"
  have evt: "rw_evt (fw_rawd z)" "\<not> rw_woken (fw_rawd z)"
    using rawd(2) by (simp_all add: z(5) rawd_push_def rawd_push_copy_def rawd_push_signal_def)
  have "fw_step locked ops z ?w" by (rule fw_step.pusher [OF push_step.wake [OF evt]])
  moreover have "fw_step locked ops ?w (fw_rawd_ev (Push_send est) ?w)"
    by (rule fw_step.pusher [OF push_step.send]) (simp add: evt)
  ultimately have "fw_reach locked ops y (fw_rawd_ev (Push_send est) ?w)"
    using fw_reach.step [OF fw_reach.step [OF fw_reach_trans [OF z(1) r1]]] by blast
  moreover have "rawd_push (frame_of_raw m) (fw_rawd y) = rawd_run [Frame (frame_of_raw m), Signal] (fw_rawd y)"
    by (rule rawd_push_steps [OF rawd(1), symmetric])
  ultimately show "\<exists>z. fw_reach locked ops y z \<and> fw_pc z = At_recv \<and> rx_pending view (rs_st (fw_radio z)) = []
     \<and> fw_tevs z = fw_tevs y @ [Rx (frame_of_raw m)]
     \<and> fw_revs z = fw_revs y @ [Frame (frame_of_raw m), Signal, Push_wake, Push_send est]
     \<and> fw_table z = update_table (frame_of_raw m) (fw_table y)
     \<and> fw_rawd z = rawd_run [Frame (frame_of_raw m), Signal, Push_wake, Push_send est] (fw_rawd y)"
    using z recv(2)
    by (intro exI [of _ "fw_rawd_ev (Push_send est) ?w"]) (simp add: rx_pending_def del: rawd_step.simps)
qed

end

section \<open>A run\<close>

text \<open>
  A client connects and the radio raises an interrupt; it has one message of 16 bytes in pipe 0.
\<close>

definition demo_miso :: miso where
  "demo_miso tr k =
     (case last tr of
        Spi_exchange bs \<Rightarrow> 0x40
      | Spi_receive n \<Rightarrow> if n = 1 then 16 else of_nat k + 1
      | _ \<Rightarrow> 0)"

definition demo_message :: bytes where
  "demo_message = [1, 2, 3, 4, 5, 6, 7, 8, 9, 10, 11, 12, 13, 14, 15, 16]"

definition demo_start :: "(nat \<times> nat list) firmware" where
  "demo_start = (fw_rawd_ev Greet (fw_rawd_ev (Client (\<lambda>c. True) (Some 7)) (fw_boot fifo_ops zero_nrf (replicate 16 0))))
     \<lparr>fw_radio := (radio_boot fifo_ops zero_nrf)\<lparr>rs_st := nrf_kick_loop (rs_st (radio_boot fifo_ops zero_nrf))\<rparr>\<rparr>"

lemma demo_start_reach: "fw_reach locked fifo_ops (fw_boot fifo_ops zero_nrf (replicate 16 0)) demo_start"
proof -
  let ?b = "fw_boot fifo_ops zero_nrf (replicate 16 0)"
  let ?c = "fw_rawd_ev (Client (\<lambda>c. True) (Some 7)) ?b"
  let ?d = "fw_rawd_ev Greet ?c"
  have "fw_step locked fifo_ops ?b ?c"
    by (rule fw_step.client) (simp add: fw_boot_def rawd_eval)
  moreover have "fw_step locked fifo_ops ?c ?d"
    by (rule fw_step.greet) (simp add: fw_boot_def rawd_eval)
  moreover have "fw_step locked fifo_ops ?d demo_start"
    unfolding demo_start_def
    by (rule fw_step.radio) (simp_all add: fw_boot_def radio_step.kick)
  ultimately show ?thesis by (meson fw_reach.intros)
qed

lemma demo_facts:
  "rs_pc (fw_radio demo_start) = Waiting" "fw_pc demo_start = At_recv" "nr_evt (rs_st (fw_radio demo_start))"
  "rx_pending snd (rs_st (fw_radio demo_start)) = []" "fw_tevs demo_start = []"
  "fw_revs demo_start = [Client (\<lambda>c. True) (Some 7), Greet]" "fw_table demo_start = boot_table"
  "stored (fw_rawd demo_start) = {7}" "sent_to 7 (rw_log (fw_rawd demo_start)) = [RAWD_READY]"
  "\<not> rw_sig (fw_rawd demo_start)" "\<not> rw_woken (fw_rawd demo_start)" "rw_greet (fw_rawd demo_start) = None"
  by (simp_all add: demo_start_def fw_boot_def radio_boot_def nrf_init_def nrf_kick_loop_def rx_pending_def
      pending_def fifo_ops_def rawd_eval)

lemma demo_status:
  obtains s0 where "irq_status demo_miso (rs_st (fw_radio demo_start)\<lparr>nr_evt := False\<rparr>) = (0x40, s0)"
    "rx_filled demo_miso (irq_rx_drop fifo_ops s0) = demo_message"
proof -
  obtain s0 where s0: "irq_status demo_miso (rs_st (fw_radio demo_start)\<lparr>nr_evt := False\<rparr>) = (0x40, s0)"
    by (simp add: irq_status_def nrf_get_status_def bus_defs Let_def demo_miso_def)
  then obtain tr where tr: "s0 = rs_st (fw_radio demo_start)\<lparr>nr_evt := False, nr_bus := tr\<rparr>"
    by (auto simp: irq_status_def split_beta)
  have b: "nr_rx_bufs (irq_rx_drop fifo_ops s0) ! nr_rx_idx (irq_rx_drop fifo_ops s0) = replicate 16 0"
    by (simp add: tr irq_rx_drop_def Let_def demo_start_def nrf_kick_loop_def radio_boot_def nrf_init_def zero_nrf_def
        MBSZ_def PAYLOADSZ_def fifo_ops_def)
  have "rx_filled demo_miso (irq_rx_drop fifo_ops s0) = demo_message"
    unfolding rx_filled_def b
    by (simp add: nrf_rx_def nrf_get_status_def nrf_read_reg_def nrf_read_payload_def bus_defs Let_def demo_miso_def nrf_regs
        demo_message_def PAYLOADSZ_def upt_rec memcpy_bytes_def)
  with s0 show ?thesis by (rule that)
qed

lemma demo_run:
  obtains z where "fw_reach True fifo_ops (fw_boot fifo_ops zero_nrf (replicate 16 0)) z"
    "fw_tevs z = [Rx (frame_of_raw demo_message)]"
    "fw_pc z = At_recv" "rx_pending snd (rs_st (fw_radio z)) = []"
    "fw_revs z = [Client (\<lambda>c. True) (Some 7), Greet]
      @ [Frame (frame_of_raw demo_message), Signal, Push_wake, Push_send (\<lambda>c. True)]"
proof -
  obtain s0 where s0: "irq_status demo_miso (rs_st (fw_radio demo_start)\<lparr>nr_evt := False\<rparr>) = (0x40, s0)"
    "rx_filled demo_miso (irq_rx_drop fifo_ops s0) = demo_message"
    by (rule demo_status)
  have ok: "entry_ok snd fifo_ok (rs_st (fw_radio demo_start))" "wf_raw (fw_msg demo_start)"
    using fifo.boot_invs(1) [OF zero_nrf_ok]
    by (simp_all add: demo_start_def fw_boot_def queue_inv_def entry_ok_def nrf_kick_loop_def wf_raw_def PAYLOADSZ_def)
  have dr: "0x40 AND RX_DR \<noteq> 0" by (simp add: nrf_regs)
  from fifo.forward_run [OF ok(1) demo_facts(1-3) ok(2) demo_facts(4,10,11) s0(1) dr, of True "\<lambda>c. True", unfolded s0(2)]
  obtain z where "fw_reach True fifo_ops demo_start z" "fw_tevs z = [Rx (frame_of_raw demo_message)]"
    "fw_pc z = At_recv" "rx_pending snd (rs_st (fw_radio z)) = []"
    "fw_revs z = [Client (\<lambda>c. True) (Some 7), Greet]
      @ [Frame (frame_of_raw demo_message), Signal, Push_wake, Push_send (\<lambda>c. True)]"
    by (auto simp: demo_facts)
  then show ?thesis using that fw_reach_trans [OF _ demo_start_reach] by blast
qed

lemma demo_raw: "wf_raw demo_message" "wf_raw (replicate 16 0)" "raw_of_frame (frame_of_raw demo_message) = demo_message"
  by (simp_all add: wf_raw_def PAYLOADSZ_def demo_message_def)

theorem firmware_table_witness:
  "\<exists>z :: (nat \<times> nat list) firmware. fw_tevs z = [Rx (frame_of_raw demo_message)] \<and> demo_message \<in> set (rs_posted (fw_radio z))
     \<and> table_look (fw_table z) = [(1, 2) \<mapsto> (180, 4, [5, 6, 7, 8, 9, 10, 11, 12, 13, 14, 15, 16])]"
proof -
  obtain z where z: "fw_reach True fifo_ops (fw_boot fifo_ops zero_nrf (replicate 16 0)) z"
    "fw_tevs z = [Rx (frame_of_raw demo_message)]"
    by (rule demo_run)
  have silent: "silent null_key (fw_tevs z)"
    by (simp add: z(2) frame_key_def null_key_def frame_of_raw_def demo_message_def)
  note t = firmware_table [OF fifo.mailbox_axioms zero_nrf_ok demo_raw(2) z(1)]
  then have "subseq [demo_message] (rs_posted (fw_radio z))" by (simp add: z(2) demo_raw)
  then have "demo_message \<in> set (rs_posted (fw_radio z))" by (simp add: subseq_singleton_left)
  moreover have "table_look (fw_table z) = [(1, 2) \<mapsto> (180, 4, [5, 6, 7, 8, 9, 10, 11, 12, 13, 14, 15, 16])]"
    using t silent by (simp add: z(2) frame_key_def frame_of_raw_def demo_message_def TABLE_SIZE_def NEW_TTL_def)
  ultimately show ?thesis using z(2) by blast
qed


theorem data_rx_turn_refines_witness:
  "\<exists>z :: (nat \<times> nat list) firmware. fw_pc z = At_recv \<and> fw_tevs z = [Rx (frame_of_raw (replicate 16 9))]"
proof -
  let ?y = "(fw_boot fifo_ops zero_nrf (replicate 16 0))
    \<lparr>fw_radio := (radio_boot fifo_ops zero_nrf)\<lparr>rs_st := zero_nrf\<lparr>nr_rx := (10, [0]),
       nr_rx_bufs := replicate MBSZ (replicate PAYLOADSZ 9)\<rparr>\<rparr>\<rparr>"
  obtain s tbl rawd where "data_rx_turn fifo_ops (fw_msg ?y) (rs_st (fw_radio ?y), fw_table ?y, fw_rawd ?y)
      = Some (replicate 16 9, s, tbl, rawd)"
    by (simp add: data_rx_turn_def nrf_recv_def fw_boot_def fifo_ops_def MBSZ_def PAYLOADSZ_def Let_def)
  from data_rx_turn_refines [OF _ _ this, of True]
  show ?thesis
    by (simp add: fw_boot_def rawd_boot_def rawd_init_def) blast
qed

end
