(* ===== verification/Json_Parse.thy ===== *)
theory Json_Parse
  imports Data_Report
begin

text \<open>
  A reader of JSON text, and the proof that it recovers the report of \<open>data_json\<close>: the report is well-formed JSON and determines
  the values it was printed from. The reader knows numbers, strings without escapes, arrays and objects, with
  the blank the firmware prints after the colon of a member.
\<close>

section \<open>The reader\<close>

definition is_digit :: "u8 \<Rightarrow> bool" where
  "is_digit c \<longleftrightarrow> 48 \<le> c \<and> c \<le> 57"

definition read_nat :: "bytes \<Rightarrow> int" where
  "read_nat ds = foldl (\<lambda>a c. 10 * a + uint (c - 48)) 0 ds"

definition parse_nat :: "bytes \<Rightarrow> (int \<times> bytes) option" where
  "parse_nat bs =
     (if takeWhile is_digit bs = [] then None
      else Some (read_nat (takeWhile is_digit bs), dropWhile is_digit bs))"

fun parse_number :: "bytes \<Rightarrow> (int \<times> bytes) option" where
  "parse_number [] = None"
| "parse_number (c # bs) =
     (if c = 0x2D then map_option (\<lambda>(n, r). (- n, r)) (parse_nat bs) else parse_nat (c # bs))"

text \<open>The rest of a string, after its opening quote.\<close>

fun parse_string :: "bytes \<Rightarrow> (bytes \<times> bytes) option" where
  "parse_string [] = None"
| "parse_string (c # bs) =
     (if c = 0x22 then Some ([], bs) else map_option (\<lambda>(s, r). (c # s, r)) (parse_string bs))"

definition chars_of :: "bytes \<Rightarrow> string" where
  "chars_of bs = map (\<lambda>b. char_of (unat b)) bs"

fun parse_value :: "nat \<Rightarrow> bytes \<Rightarrow> (json \<times> bytes) option"
and parse_elems :: "nat \<Rightarrow> bytes \<Rightarrow> (json list \<times> bytes) option"
and parse_members :: "nat \<Rightarrow> bytes \<Rightarrow> ((string \<times> json) list \<times> bytes) option" where
  "parse_value 0 bs = None"
| "parse_value (Suc n) [] = None"
| "parse_value (Suc n) (c # bs) =
     (if c = 0x22 then map_option (\<lambda>(s, r). (JStr s, r)) (parse_string bs)
      else if c = 0x5B then
        (if bs \<noteq> [] \<and> hd bs = 0x5D then Some (JArr [], tl bs)
         else map_option (\<lambda>(js, r). (JArr js, r)) (parse_elems n bs))
      else if c = 0x7B then
        (if bs \<noteq> [] \<and> hd bs = 0x7D then Some (JObj [], tl bs)
         else map_option (\<lambda>(kvs, r). (JObj kvs, r)) (parse_members n bs))
      else map_option (\<lambda>(k, r). (JNum k, r)) (parse_number (c # bs)))"
| "parse_elems 0 bs = None"
| "parse_elems (Suc n) bs =
     (case parse_value n bs of
        None \<Rightarrow> None
      | Some (j, r) \<Rightarrow>
          if r = [] then None
          else if hd r = 0x2C then map_option (\<lambda>(js, r). (j # js, r)) (parse_elems n (tl r))
          else if hd r = 0x5D then Some ([j], tl r)
          else None)"
| "parse_members 0 bs = None"
| "parse_members (Suc n) bs =
     (if bs = [] \<or> hd bs \<noteq> 0x22 then None
      else case parse_string (tl bs) of
        None \<Rightarrow> None
      | Some (k, r) \<Rightarrow>
          if take 2 r \<noteq> [0x3A, 0x20] then None
          else (case parse_value n (drop 2 r) of
                  None \<Rightarrow> None
                | Some (j, r) \<Rightarrow>
                    if r = [] then None
                    else if hd r = 0x2C
                    then map_option (\<lambda>(kvs, r). ((chars_of k, j) # kvs, r)) (parse_members n (tl r))
                    else if hd r = 0x7D then Some ([(chars_of k, j)], tl r)
                    else None))"

section \<open>Values that can be read back\<close>

text \<open>No quote in a string or member name; the fuel a value needs.\<close>

fun plain_json :: "json \<Rightarrow> bool" where
  "plain_json (JNum n) \<longleftrightarrow> True"
| "plain_json (JStr s) \<longleftrightarrow> 0x22 \<notin> set s"
| "plain_json (JArr js) \<longleftrightarrow> (\<forall>j\<in>set js. plain_json j)"
| "plain_json (JObj kvs) \<longleftrightarrow> (\<forall>kv\<in>set kvs. 0x22 \<notin> set (str (fst kv)) \<and> plain_json (snd kv))"

fun json_fuel :: "json \<Rightarrow> nat" where
  "json_fuel (JNum n) = 1"
| "json_fuel (JStr s) = 1"
| "json_fuel (JArr js) = 1 + sum_list (map (\<lambda>j. json_fuel j + 1) js)"
| "json_fuel (JObj kvs) = 1 + sum_list (map (\<lambda>kv. json_fuel (snd kv) + 1) kvs)"

definition ends_number :: "bytes \<Rightarrow> bool" where
  "ends_number r \<longleftrightarrow> r = [] \<or> \<not> is_digit (hd r)"

lemma parse_string_quote: "0x22 \<notin> set s \<Longrightarrow> parse_string (s @ 0x22 # r) = Some (s, r)"
  by (induction s) auto

lemma digit_props: "d < 10 \<Longrightarrow> is_digit (digit d) \<and> uint (digit d - 48) = int d \<and> digit d \<noteq> 0x2D
    \<and> digit d \<noteq> 0x22 \<and> digit d \<noteq> 0x5B \<and> digit d \<noteq> 0x7B \<and> digit d \<noteq> 0x5D \<and> digit d \<noteq> 0x7D"
proof -
  assume "d < 10"
  then have "d \<in> {0, 1, 2, 3, 4, 5, 6, 7, 8, 9}" by auto
  then show ?thesis by (elim insertE emptyE) (simp_all add: digit_def is_digit_def)
qed

lemma read_nat_snoc: "read_nat (ds @ [c]) = 10 * read_nat ds + uint (c - 48)"
  by (simp add: read_nat_def)

lemma dec_nat_props: "(\<forall>c\<in>set (dec_nat n). is_digit c) \<and> dec_nat n \<noteq> [] \<and> read_nat (dec_nat n) = int n"
proof (induction n rule: dec_nat.induct)
  case (1 n)
  show ?case
  proof (cases "n < 10")
    case True
    then show ?thesis using digit_props [of n] by (simp add: dec_nat.simps [of n] read_nat_def)
  next
    case False
    then have "n = 10 * (n div 10) + n mod 10" by simp
    then have "10 * int (n div 10) + int (n mod 10) = int n" by linarith
    then show ?thesis
      using False 1 digit_props [of "n mod 10"] by (simp add: dec_nat.simps [of n] read_nat_snoc)
  qed
qed

lemma parse_dec_nat:
  assumes "ends_number r"
  shows "parse_nat (dec_nat n @ r) = Some (int n, r)"
proof -
  have "takeWhile is_digit r = []" "dropWhile is_digit r = r"
    using assms by (cases r; simp add: ends_number_def)+
  then show ?thesis
    using dec_nat_props [of n] by (simp add: parse_nat_def takeWhile_append dropWhile_append)
qed

lemma parse_dec_int:
  assumes "ends_number r"
  shows "parse_number (dec_int k @ r) = Some (k, r)"
proof -
  obtain c cs where d: "dec_nat (nat k) = c # cs" using dec_nat_props [of "nat k"] by (cases "dec_nat (nat k)") auto
  then have "is_digit c" using dec_nat_props [of "nat k"] by auto
  then have c: "c \<noteq> 0x2D" by (auto simp: is_digit_def)
  show "parse_number (dec_int k @ r) = Some (k, r)"
  proof (cases "k < 0")
    case True
    then show ?thesis
      using parse_dec_nat [OF assms, of "nat (- k)"] by (simp add: dec_int_def str_def)
  next
    case False
    then show ?thesis
      using parse_dec_nat [OF assms, of "nat k"] c by (simp add: dec_int_def d)
  qed
qed

lemma chars_of_str [simp]: "chars_of (str s) = s"
proof -
  have "char_of (unat (of_char c :: u8)) = c" for c
  proof -
    have "(of_char c :: u8) = of_nat (of_char c)" by (rule of_nat_of_char [symmetric])
    then have "unat (of_char c :: u8) = of_char c mod 2 ^ 8" by (simp only: unat_of_nat) simp
    also have "\<dots> = (of_char c :: nat)" using nat_of_char_less_256 [of c] by simp
    finally show ?thesis by simp
  qed
  then show ?thesis by (simp add: chars_of_def str_def map_idI)
qed

section \<open>Reading what was printed\<close>

text \<open>The value \<open>j\<close> can be read back with fuel \<open>n\<close>, whatever follows, if that is not a digit.\<close>

definition reads_back :: "json \<Rightarrow> nat \<Rightarrow> bool" where
  "reads_back j n \<longleftrightarrow> (\<forall>r. ends_number r \<longrightarrow> parse_value n (json_text j @ r) = Some (j, r))"

lemma ends_simps [simp]: "ends_number (0x2C # r)" "ends_number (0x5D # r)" "ends_number (0x7D # r)" "ends_number []"
  by (simp_all add: ends_number_def is_digit_def)

lemma str_chars: "str '','' = [0x2C]" "str ''['' = [0x5B]" "str '']'' = [0x5D]" "str ''{'' = [0x7B]" "str ''}'' = [0x7D]"
  by (simp_all add: str_def)

lemma member_bytes: "str (member k) = 0x22 # str k @ [0x22, 0x3A, 0x20]"
  by (simp add: member_def quote_def str_def)

lemma dec_int_first:
  obtains c cs where "dec_int k = c # cs" "c \<notin> {0x22, 0x5B, 0x7B, 0x5D, 0x7D}"
proof -
  obtain c cs where d: "dec_nat (nat k) = c # cs" using dec_nat_props [of "nat k"] by (cases "dec_nat (nat k)") auto
  then have "is_digit c" using dec_nat_props [of "nat k"] by auto
  then have "c \<notin> {0x22, 0x5B, 0x7B, 0x5D, 0x7D}" by (auto simp: is_digit_def)
  with d that [of "0x2D" "dec_nat (nat (- k))"] that [of c cs] show ?thesis by (cases "k < 0") (simp_all add: dec_int_def str_def)
qed

lemma json_text_first: "json_text j \<noteq> [] \<and> hd (json_text j) \<noteq> 0x5D"
proof (cases j)
  case (JNum k)
  then show ?thesis by (cases rule: dec_int_first [of k]) simp
qed (simp_all add: str_chars)

lemma elems_read_back:
  assumes "js \<noteq> []" and "\<forall>j\<in>set js. \<forall>k\<ge>json_fuel j. reads_back j k"
    and "sum_list (map (\<lambda>j. json_fuel j + 1) js) \<le> n"
  shows "parse_elems n (joined (str '','') (map json_text js) @ 0x5D # r) = Some (js, r)"
  using assms
proof (induction js arbitrary: n)
  case Nil
  then show ?case by simp
next
  case (Cons j js)
  then obtain k where n: "n = Suc k" by (cases n) auto
  have j: "parse_value k (json_text j @ r') = Some (j, r')" if "ends_number r'" for r'
    using Cons.prems that n by (simp add: reads_back_def)
  show ?case
  proof (cases js)
    case Nil
    then show ?thesis using j by (simp add: n)
  next
    case ne: (Cons j' js')
    have "parse_elems k (joined (str '','') (map json_text js) @ 0x5D # r) = Some (js, r)"
      using Cons.prems ne n by (intro Cons.IH) simp_all
    then show ?thesis
      using j ne by (simp add: n joined_Cons [of _ "json_text j"] str_chars)
  qed
qed

lemma members_read_back:
  assumes "kvs \<noteq> []" and "\<forall>kv\<in>set kvs. 0x22 \<notin> set (str (fst kv)) \<and> (\<forall>k\<ge>json_fuel (snd kv). reads_back (snd kv) k)"
    and "sum_list (map (\<lambda>kv. json_fuel (snd kv) + 1) kvs) \<le> n"
  shows "parse_members n
    (joined (str '','') (map (\<lambda>kv. str (member (fst kv)) @ json_text (snd kv)) kvs) @ 0x7D # r) = Some (kvs, r)"
  using assms
proof (induction kvs arbitrary: n)
  case Nil
  then show ?case by simp
next
  case (Cons kv kvs)
  let ?m = "\<lambda>kv. str (member (fst kv)) @ json_text (snd kv)"
  obtain k where n: "n = Suc k" using Cons.prems by (cases n) auto
  have j: "parse_value k (json_text (snd kv) @ r') = Some (snd kv, r')" if "ends_number r'" for r'
    using Cons.prems that n by (simp add: reads_back_def)
  have q: "parse_string (str (fst kv) @ 0x22 # r') = Some (str (fst kv), r')" for r'
    using Cons.prems by (intro parse_string_quote) simp
  show ?case
  proof (cases kvs)
    case Nil
    then show ?thesis using j q by (simp add: n member_bytes)
  next
    case ne: (Cons kv' kvs')
    have "parse_members k (joined (str '','') (map ?m kvs) @ 0x7D # r) = Some (kvs, r)"
      using Cons.prems ne n by (intro Cons.IH) simp_all
    then show ?thesis
      using j q ne by (simp add: n joined_Cons [of _ "?m kv"] str_chars member_bytes)
  qed
qed

lemma joined_first: "xs \<noteq> [] \<Longrightarrow> hd xs \<noteq> [] \<Longrightarrow> joined sep xs \<noteq> [] \<and> hd (joined sep xs) = hd (hd xs)"
  by (cases xs) (simp_all add: joined_Cons)

lemma json_reads_back: "plain_json j \<Longrightarrow> json_fuel j \<le> n \<Longrightarrow> reads_back j n"
proof (induction j arbitrary: n)
  case (JNum k)
  then obtain m where n: "n = Suc m" by (cases n) auto
  show ?case unfolding reads_back_def
  proof (intro allI impI)
    fix r assume "ends_number r"
    note parse_dec_int [OF this, of k]
    then show "parse_value n (json_text (JNum k) @ r) = Some (JNum k, r)"
      by (cases rule: dec_int_first [of k]) (simp add: n)
  qed
next
  case (JStr s)
  then obtain m where "n = Suc m" by (cases n) auto
  then show ?case using JStr by (simp add: reads_back_def parse_string_quote)
next
  case (JArr js)
  then obtain m where n: "n = Suc m" by (cases n) auto
  show ?case
  proof (cases "js = []")
    case True
    then show ?thesis by (simp add: n reads_back_def str_chars)
  next
    case False
    have "parse_elems m (joined (str '','') (map json_text js) @ 0x5D # r) = Some (js, r)" for r
      using JArr n by (intro elems_read_back [OF False]) simp_all
    moreover have "joined (str '','') (map json_text js) \<noteq> [] \<and> hd (joined (str '','') (map json_text js)) \<noteq> 0x5D"
      using joined_first [of "map json_text js" "str '',''"] json_text_first [of "hd js"] False by (simp add: hd_map)
    ultimately show ?thesis by (simp add: n reads_back_def str_chars hd_append)
  qed
next
  case (JObj kvs)
  then obtain m where n: "n = Suc m" by (cases n) auto
  let ?m = "\<lambda>kv. str (member (fst kv)) @ json_text (snd kv)"
  show ?case
  proof (cases "kvs = []")
    case True
    then show ?thesis by (simp add: n reads_back_def str_chars)
  next
    case False
    have "parse_members m (joined (str '','') (map ?m kvs) @ 0x7D # r) = Some (kvs, r)" for r
      using JObj n by (intro members_read_back [OF False]) (auto simp: snds.simps)
    moreover have "joined (str '','') (map ?m kvs) \<noteq> [] \<and> hd (joined (str '','') (map ?m kvs)) = 0x22"
      using joined_first [of "map ?m kvs" "str '',''"] False by (simp add: hd_map member_bytes)
    ultimately show ?thesis by (simp add: n reads_back_def str_chars hd_append)
  qed
qed

section \<open>The report\<close>

lemma plain_table_json: "plain_json (table_json n tbl)"
proof -
  have d: "0x22 \<notin> set (dec_int k)" for k
  proof -
    have "is_digit c" if "c \<in> set (dec_nat m)" for c m using dec_nat_props [of m] that by blast
    moreover have "\<not> is_digit 0x22" by (simp add: is_digit_def)
    ultimately show ?thesis by (auto simp: dec_int_def str_def)
  qed
  have "plain_json (sensor_json e)" for e by (simp add: sensor_json_def Let_def str_def)
  then show ?thesis by (auto simp: table_json_def d str_def)
qed

text \<open>
  C10. The JSON report can be read back: whatever the table holds and whatever follows the report on the stream, the reader of JSON
  recovers from the printed bytes the value they stand for, with the live entries in order and every number
  exact, and stops right after it.
\<close>

theorem json_report_roundtrip:
  assumes "printf_laws pf" and "v = table_json (sint now) tbl" and "json_fuel v \<le> n" and "ends_number rest"
  shows "parse_value n (data_json pf text_put now tbl [] @ rest) = Some (v, rest)"
proof -
  have "data_json pf text_put now tbl [] = json_text v"
    by (simp add: data_json_report_text [OF assms(1)] assms(2))
  moreover have "reads_back v n"
    using json_reads_back [OF _ assms(3)] plain_table_json by (simp add: assms(2))
  ultimately show ?thesis using assms(4) by (simp add: reads_back_def)
qed

text \<open>A table with a power report.\<close>

definition power_entry :: data_entry where
  "power_entry = \<lparr>de_ttl = 180, de_board_id = 3, de_msg_id = 1, de_seq = 7,
     de_data = [0x10, 0x27, 1, 0, 2, 0, 3, 0, 0xE4, 0x0C, 0, 0]\<rparr>"

theorem json_report_roundtrip_witness:
  "parse_value 100 (data_json plain_printf text_put 5 [zero_entry, power_entry] []) =
     Some (JObj [(''device'', JStr (str ''nrf-ethernet'')), (''timestamp'', JStr (str ''5'')),
       (''sensors'', JArr [JObj [(''ttl'', JNum 180), (''board_id'', JNum 3), (''msg_id'', JNum 1), (''seq'', JNum 7),
          (''type'', JStr (str ''power'')), (''power1'', JNum 10000), (''power2'', JNum 1), (''power3'', JNum 2),
          (''power4'', JNum 3), (''battery'', JNum 3300)]])], [])"
proof -
  let ?v = "table_json (sint (5 :: u32)) [zero_entry, power_entry]"
  have v: "?v = JObj [(''device'', JStr (str ''nrf-ethernet'')), (''timestamp'', JStr (str ''5'')),
       (''sensors'', JArr [JObj [(''ttl'', JNum 180), (''board_id'', JNum 3), (''msg_id'', JNum 1), (''seq'', JNum 7),
          (''type'', JStr (str ''power'')), (''power1'', JNum 10000), (''power2'', JNum 1), (''power3'', JNum 2),
          (''power4'', JNum 3), (''battery'', JNum 3300)]])]"
    by (simp add: table_json_def sensor_json_def power_entry_def zero_entry_def live_def NRF_MSG_ID_POWER_def power_of_msg_def
        le16_def upt_rec dec_int_def dec_nat.simps digit_def str_def)
  have "json_fuel ?v \<le> 100" unfolding v by simp
  from json_report_roundtrip [OF plain.printf_laws_axioms refl this, of "[]"] show ?thesis unfolding v by simp
qed

end
