(* ===== verification/Firmware.thy ===== *)
theory Firmware
  imports Httpd_Props Data_Path Json_Parse
begin

text \<open>
  The firmware from end to end: what a browser reads at \<^verbatim>\<open>/json\<close> is the map of sensor reports that the messages of the radio
  define. Joins the web server (\<^verbatim>\<open>Httpd_Props\<close>), the report path (\<^verbatim>\<open>Data_Path\<close>) and the
  reader of JSON (\<^verbatim>\<open>Json_Parse\<close>).
\<close>

section \<open>The live entries are the map\<close>

lemma no_null_run:
  "table_inv tbl \<Longrightarrow> no_null tbl \<Longrightarrow> wf_history es \<Longrightarrow> silent null_key es \<Longrightarrow>
   table_inv (run_table tbl es) \<and> no_null (run_table tbl es)"
proof (induction es arbitrary: tbl)
  case Nil
  then show ?case by simp
next
  case (Cons e es)
  show ?case
  proof (cases e)
    case (Rx m)
    then have "table_inv (update_table m tbl)" "no_null (update_table m tbl)"
      using Cons.prems by (auto intro: table.inv_update table.pure_update)
    then show ?thesis using Cons Rx by simp
  next
    case Tick
    have "table_inv (data_clean_tick tbl)" "no_null (data_clean_tick tbl)"
      using Cons.prems by (auto intro: table.inv_tick table.pure_tick)
    then show ?thesis using Cons Tick by simp
  qed
qed

lemma live_unique:
  assumes "table_inv tbl" "i < length tbl" "j < length tbl" "live (tbl ! i)" "live (tbl ! j)"
    and "entry_key (tbl ! i) = entry_key (tbl ! j)" "entry_key (tbl ! i) \<noteq> null_key"
  shows "i = j"
  using assms table_inv_length [OF assms(1)] unfolding table_inv_def by metis

lemma listed_distinct:
  assumes "table_inv tbl"
  shows "distinct (map entry_key (filter (\<lambda>e. entry_key e \<noteq> null_key) (filter live tbl)))"
  unfolding filter_filter
  by (rule distinct_map_filter_nth) (use live_unique [OF assms] in blast)

lemma listed_look:
  assumes "table_inv tbl" "k \<noteq> null_key"
  shows "(\<exists>e\<in>set (filter live tbl). entry_key e = k \<and> report_of e = r) \<longleftrightarrow> table_look tbl k = Some r"
proof
  assume "\<exists>e\<in>set (filter live tbl). entry_key e = k \<and> report_of e = r"
  then obtain e where e: "e \<in> set tbl" "live e" "entry_key e = k" "report_of e = r" by auto
  then obtain e' where f: "find (\<lambda>e. live e \<and> entry_key e = k) tbl = Some e'"
    by (metis (mono_tags, lifting) find_None_iff not_None_eq)
  then have e': "e' \<in> set tbl" "live e'" "entry_key e' = k"
    by (auto simp: find_Some_iff)
  obtain i j where "i < length tbl" "e = tbl ! i" "j < length tbl" "e' = tbl ! j"
    using e(1) e'(1) by (auto simp: in_set_conv_nth)
  then have "e' = e" using live_unique [OF assms(1), of i j] e e' assms(2) by simp
  then show "table_look tbl k = Some r" using f e(4) by (simp add: table_look_def)
next
  assume "table_look tbl k = Some r"
  then obtain e where "find (\<lambda>e. live e \<and> entry_key e = k) tbl = Some e" "report_of e = r"
    by (auto simp: table_look_def)
  moreover from this have "e \<in> set tbl" "live e" "entry_key e = k"
    by (auto simp: find_Some_iff)
  ultimately show "\<exists>e\<in>set (filter live tbl). entry_key e = k \<and> report_of e = r"
    by auto
qed

text \<open>Without an entry for (0, 0) the entries listed are the whole map.\<close>

lemma listed_no_null:
  assumes "table_inv tbl" "no_null tbl"
  shows "distinct (map entry_key (filter live tbl))"
    and "(\<exists>e\<in>set (filter live tbl). entry_key e = k \<and> report_of e = r) \<longleftrightarrow> table_look tbl k = Some r"
proof -
  have "filter (\<lambda>e. entry_key e \<noteq> null_key) (filter live tbl) = filter live tbl"
    unfolding filter_filter using assms(2) by (intro filter_cong) (auto simp: no_null_def)
  then show "distinct (map entry_key (filter live tbl))" using listed_distinct [OF assms(1)] by simp
  show "(\<exists>e\<in>set (filter live tbl). entry_key e = k \<and> report_of e = r) \<longleftrightarrow> table_look tbl k = Some r"
  proof (cases "k = null_key")
    case True
    then show ?thesis
      using assms(2) by (auto simp: no_null_def table_look_def find_Some_iff dest: nth_mem)
  qed (rule listed_look [OF assms(1)])
qed

section \<open>From the sensors to the browser\<close>

lemma route_json: "route (str ''/json'') = Some Path_json"
  by (simp add: route_def paths_def str_def)

text \<open>
  C1. From the sensors to the browser: in every reachable state of the firmware, whatever the radio does and however the threads
  interleave, a request for \<^verbatim>\<open>/json\<close> is answered with a JSON header and a body that a reader of JSON
  takes apart into one object for each entry listed. The frames stored are, in order, messages the interrupt handler
  queued (after a failed read it queues the bytes its buffer held). Every pair other than (0, 0) is listed at most once, and with
  it the newest of these frames that carried it, aged by the seconds since. If no frame stored carried the
  pair (0, 0), the entries listed are exactly the reports of the map that the frames and seconds define, each pair
  once; a frame with that pair also matches the free entries, so that it can be listed twice.
\<close>

theorem sensors_to_browser:
  assumes "mailbox ops view mok" and "bufs_ok s" and "wf_raw msg0"
    and "fw_reach locked ops (fw_boot ops s msg0) y"
    and "printf_laws pf" and "wf_parts m (str ''/json'') h" and "length (segment m (str ''/json'') h b) < 65536"
    and "length (ns_buf (hs_net sys)) = 512" and "length msg = PAYLOADSZ" and "hs_tbl sys = fw_table y"
  shows "\<exists>sys' ws last body listed.
    httpd_process pf ops now msg nc (Some (segment m (str ''/json'') h b)) sys = Inr sys'
    \<and> ns_log (hs_net sys') = ns_log (hs_net sys) @ [Blink_red] @ map (Netconn_write nc) ws
        @ [Netbuf_delete] @ map (Netconn_write nc) last @ [Netconn_close nc]
    \<and> concat (ws @ last) = http_head ''application/json'' @ body
    \<and> (\<exists>n. parse_value n body = Some (JObj [(''device'', JStr (str ''nrf-ethernet'')),
          (''timestamp'', JStr (dec_int (sint now))), (''sensors'', JArr (map sensor_json listed))], []))
    \<and> distinct (map entry_key (filter (\<lambda>e. entry_key e \<noteq> null_key) listed))
    \<and> (\<forall>e\<in>set listed. entry_key e \<noteq> null_key \<longrightarrow> newest NEW_TTL (entry_key e) (fw_tevs y) = Some (report_of e))
    \<and> (silent null_key (fw_tevs y) \<longrightarrow> distinct (map entry_key listed)
        \<and> (\<forall>k r. (\<exists>e\<in>set listed. entry_key e = k \<and> report_of e = r)
             \<longleftrightarrow> foldl (spec_step TABLE_SIZE NEW_TTL) Map.empty (fw_tevs y) k = Some r))
    \<and> subseq (map raw_of_frame (rx_frames (fw_tevs y))) (rs_posted (fw_radio y))"
proof -
  let ?tbl = "fw_table y" and ?v = "table_json (sint now) (fw_table y)"
  note t = path_table [OF assms(1-4)]
  obtain fin where "path_inv (radio_boot ops s) locked ops fin y"
    by (rule mailbox.path_reach [OF assms(1,4,2,3)])
  then have tbl: "?tbl = run_table boot_table (fw_tevs y)" "wf_history (fw_tevs y)"
    by (auto simp: path_inv_def wf_history_frames list_all_iff)
  have inv: "table_inv ?tbl" using t by blast
  have "http_sends (str ''/json'') b = None" by (simp add: http_sends_def route_json)
  then have "case http_sends (str ''/json'') b of None \<Rightarrow> hs_nrf sys = hs_nrf sys
      | Some d \<Rightarrow> nrf_send ops d (hs_nrf sys) = Some (hs_nrf sys)" by simp
  from serve_run [OF assms(5-9) this, of now nc] obtain sys' ws last where
    r: "httpd_process pf ops now msg nc (Some (segment m (str ''/json'') h b)) sys = Inr sys'"
      "ns_log (hs_net sys') = ns_log (hs_net sys) @ [Blink_red] @ map (Netconn_write nc) ws
        @ [Netbuf_delete] @ map (Netconn_write nc) last @ [Netconn_close nc]"
      "concat (ws @ last) = http_reply pf now (hs_tbl sys) (str ''/json'') b"
    by blast
  have body: "concat (ws @ last) = http_head ''application/json'' @ json_text ?v"
    unfolding r(3) by (simp add: http_reply_def route_json assms(10))
  have "reads_back ?v (json_fuel ?v)" by (rule json_reads_back [OF plain_table_json order_refl])
  then have "parse_value (json_fuel ?v) (json_text ?v) = Some (?v, [])"
    unfolding reads_back_def by (metis append_Nil2 ends_simps(4))
  then have parsed: "\<exists>n. parse_value n (json_text ?v) = Some (JObj [(''device'', JStr (str ''nrf-ethernet'')),
      (''timestamp'', JStr (dec_int (sint now))), (''sensors'', JArr (map sensor_json (filter live ?tbl)))], [])"
    by (auto simp: table_json_def)
  have newest: "newest NEW_TTL (entry_key e) (fw_tevs y) = Some (report_of e)"
    if "e \<in> set (filter live ?tbl)" "entry_key e \<noteq> null_key" for e
  proof -
    have "table_look ?tbl (entry_key e) = Some (report_of e)"
      using listed_look [OF inv that(2)] that(1) by blast
    then show ?thesis using t that(2) by (metis option.distinct(1))
  qed
  have exact: "distinct (map entry_key (filter live ?tbl))"
    "(\<exists>e\<in>set (filter live ?tbl). entry_key e = k \<and> report_of e = r)
      \<longleftrightarrow> foldl (spec_step TABLE_SIZE NEW_TTL) Map.empty (fw_tevs y) k = Some r"
    if "silent null_key (fw_tevs y)" for k r
  proof -
    have "no_null ?tbl" using no_null_run [OF boot_inv(1,2) tbl(2) that] tbl(1) by simp
    note l = listed_no_null [OF inv this]
    show "distinct (map entry_key (filter live ?tbl))" by (rule l(1))
    show "(\<exists>e\<in>set (filter live ?tbl). entry_key e = k \<and> report_of e = r)
      \<longleftrightarrow> foldl (spec_step TABLE_SIZE NEW_TTL) Map.empty (fw_tevs y) k = Some r"
      unfolding l(2) using t that by simp
  qed
  show ?thesis
    by (intro exI [of _ sys'] exI [of _ ws] exI [of _ last] exI [of _ "json_text ?v"] exI [of _ "filter live ?tbl"]
        conjI r(1,2) body parsed listed_distinct [OF inv])
      (use newest exact t in blast)+
qed

text \<open>The message of the run in \<open>Data_Path\<close>, read by a browser.\<close>

theorem sensors_to_browser_witness:
  "\<exists>ws listed body. concat ws = http_head ''application/json'' @ body
     \<and> (\<exists>n v. parse_value n body = Some (v, []))
     \<and> (\<exists>e\<in>set listed. entry_key e = (1, 2) \<and> report_of e = (180, 4, [5, 6, 7, 8, 9, 10, 11, 12, 13, 14, 15, 16]))"
proof -
  obtain z where z: "fw_reach True fifo_ops (fw_boot fifo_ops zero_nrf (replicate 16 0)) z"
    "fw_tevs z = [Rx (frame_of_raw demo_message)]"
    by (rule demo_run)
  have k: "frame_key (frame_of_raw demo_message) = (1, 2)" "fr_seq (frame_of_raw demo_message) = 4"
    "fr_msg (frame_of_raw demo_message) = [5, 6, 7, 8, 9, 10, 11, 12, 13, 14, 15, 16]"
    by (simp_all add: frame_key_def frame_of_raw_def demo_message_def)
  have silent: "silent null_key (fw_tevs z)" by (simp add: z(2) k null_key_def)
  have spec: "foldl (spec_step TABLE_SIZE NEW_TTL) Map.empty (fw_tevs z) (1, 2)
      = Some (180, 4, [5, 6, 7, 8, 9, 10, 11, 12, 13, 14, 15, 16])"
    by (simp add: z(2) k TABLE_SIZE_def NEW_TTL_def)
  have w: "wf_parts HTTP_GET (str ''/json'') (str ''Host: x'')"
    unfolding wf_parts_def
    by (intro conjI url_ok_plain hdr_ok_plain) (simp_all add: str_def url_char_def)
  have l: "length (segment HTTP_GET (str ''/json'') (str ''Host: x'') []) < 65536"
    by (simp add: segment_def)
  let ?sys = "demo_sys\<lparr>hs_tbl := fw_table z\<rparr>"
  have sys: "length (ns_buf (hs_net ?sys)) = 512" "hs_tbl ?sys = fw_table z"
    by (simp_all add: demo_sys_def net_zero_def NET_BUF_SIZE_def)
  have m: "length (replicate 16 (0 :: u8)) = PAYLOADSZ" by (simp add: PAYLOADSZ_def)
  obtain sys' ws last body listed n where
    c: "concat (ws @ last) = http_head ''application/json'' @ body"
    and p: "parse_value n body = Some (JObj [(''device'', JStr (str ''nrf-ethernet'')),
          (''timestamp'', JStr (dec_int (sint (1000 :: u32)))), (''sensors'', JArr (map sensor_json listed))], [])"
    and g: "silent null_key (fw_tevs z) \<longrightarrow> distinct (map entry_key listed)
        \<and> (\<forall>k r. (\<exists>e\<in>set listed. entry_key e = k \<and> report_of e = r)
             \<longleftrightarrow> foldl (spec_step TABLE_SIZE NEW_TTL) Map.empty (fw_tevs z) k = Some r)"
    using sensors_to_browser [OF fifo.mailbox_axioms zero_nrf_ok demo_raw(2) z(1) plain.printf_laws_axioms w l
      sys(1) m sys(2), of 1000 5]
    by (elim exE conjE) (rule that)
  have "\<exists>e\<in>set listed. entry_key e = (1, 2) \<and> report_of e = (180, 4, [5, 6, 7, 8, 9, 10, 11, 12, 13, 14, 15, 16])"
    using g silent spec by simp
  with c p show ?thesis by blast
qed

section \<open>The types of the state\<close>

text \<open>
  What the C types and the indexing of the code promise of every array and index: sizes of the table, its entries, the
  message buffers, the slots and the frames; every index and every queued pointer within its array.
\<close>

definition radio_typed :: "('m \<Rightarrow> nat list) \<Rightarrow> 'm radio_sys \<Rightarrow> bool" where
  "radio_typed view r \<longleftrightarrow>
     (let st = rs_st r in
        length (nr_rx_bufs st) = 10 \<and> length (nr_tx_bufs st) = 10
      \<and> list_all (\<lambda>b. length b = 16) (nr_rx_bufs st @ nr_tx_bufs st)
      \<and> nr_rx_idx st < 10 \<and> nr_tx_idx st < 10
      \<and> list_all (\<lambda>i. i < 10) (view (nr_rx st) @ view (nr_tx st)))
     \<and> (case rs_pc r of Tx_write i \<Rightarrow> i < 10 | _ \<Rightarrow> True)
     \<and> (case rs_sender r of None \<Rightarrow> True | Some (i, m) \<Rightarrow> i < 10 \<and> length m = 16)"

definition fw_typed :: "('m \<Rightarrow> nat list) \<Rightarrow> 'm firmware \<Rightarrow> bool" where
  "fw_typed view y \<longleftrightarrow> radio_typed view (fw_radio y) \<and> length (fw_msg y) = 16
     \<and> length (fw_table y) = 32 \<and> list_all (\<lambda>e. length (de_data e) = 12) (fw_table y)
     \<and> length (rw_ncs (fw_rawd y)) = 3 \<and> length (fr_msg (rw_frame (fw_rawd y))) = 12"

context mailbox
begin

lemma queue_typed: "queue_inv view mok r \<Longrightarrow> radio_typed view r"
proof -
  assume q: "queue_inv view mok r"
  have ring: "length bufs = 10 \<and> list_all (\<lambda>b. length b = 16) bufs \<and> idx < 10 \<and> list_all (\<lambda>i. i < 10) (view m)"
    if "ring_ok view mok m bufs idx" for m bufs idx
  proof -
    have "list_all (\<lambda>i. i < 10) (ring_list idx (length (view m)))"
      using ring_list_bound [of _ idx "length (view m)"] by (auto simp: list_all_iff MBSZ_def)
    then have "list_all (\<lambda>i. i < 10) (view m)" using that unfolding ring_ok_def by metis
    then show ?thesis using that by (simp add: ring_ok_def MBSZ_def PAYLOADSZ_def list_all_iff)
  qed
  have "entry_ok view mok (rs_st r)" using q by (simp add: queue_inv_def)
  then have "ring_ok view mok (nr_rx (rs_st r)) (nr_rx_bufs (rs_st r)) (nr_rx_idx (rs_st r))"
    "ring_ok view mok (nr_tx (rs_st r)) (nr_tx_bufs (rs_st r)) (nr_tx_idx (rs_st r))"
    by (simp_all add: entry_ok_def)
  note rings = this [THEN ring]
  have "case rs_pc r of Tx_write i \<Rightarrow> i < 10 | _ \<Rightarrow> True"
    using q by (auto simp: queue_inv_def MBSZ_def split: radio_pc.split)
  moreover have "case rs_sender r of None \<Rightarrow> True | Some (i, m) \<Rightarrow> i < 10 \<and> length m = 16"
    using q rings by (auto simp: queue_inv_def wf_raw_def PAYLOADSZ_def split: option.split)
  ultimately show ?thesis using rings by (simp add: radio_typed_def Let_def)
qed

end

text \<open>
  C13. Type safety of the firmware: in every reachable state, whatever the radio delivers and however the threads
  interleave, every array has its declared size and every index and queued pointer lies within its
  array, so no access of the modelled threads leaves its object.
\<close>

theorem firmware_typed:
  assumes "mailbox ops view mok" and "bufs_ok s" and "wf_raw msg"
    and "fw_reach locked ops (fw_boot ops s msg) y"
  shows "fw_typed view y"
proof -
  obtain fin where p: "path_inv (radio_boot ops s) locked ops fin y"
    by (rule mailbox.path_reach [OF assms(1,4,2,3)])
  then have r: "radio_reach locked ops (radio_boot ops s) (fw_radio y)" "wf_raw (fw_msg y)"
    and w: "rawd_inv {} (fw_rawd y)"
    using path_inv_ok [OF p] by (simp_all add: path_inv_def rawd_ok_def)
  have "radio_typed view (fw_radio y)"
    by (rule mailbox.queue_typed [OF assms(1) mailbox.reach_queue [OF assms(1) r(1) mailbox.boot_invs(1) [OF assms(1,2)]]])
  moreover have "table_inv (fw_table y)" using path_table [OF assms] by blast
  ultimately show ?thesis
    using r(2) w
    by (simp add: fw_typed_def table_inv_def wf_shape_def rawd_inv_def wf_raw_def wf_frame_def PAYLOADSZ_def
        NC_COUNT_def TABLE_SIZE_def DATA_SIZE_def list_all_iff)
qed

theorem firmware_typed_witness:
  "\<exists>z :: (nat \<times> nat list) firmware. fw_tevs z = [Rx (frame_of_raw demo_message)] \<and> fw_typed snd z"
proof -
  obtain z where z: "fw_reach True fifo_ops (fw_boot fifo_ops zero_nrf (replicate 16 0)) z"
    "fw_tevs z = [Rx (frame_of_raw demo_message)]"
    by (rule demo_run)
  from firmware_typed [OF fifo.mailbox_axioms zero_nrf_ok demo_raw(2) z(1)] z(2) show ?thesis by blast
qed

end
