(* ===== verification/Delivery.thy ===== *)
theory Delivery
  imports Data_Path
begin

text \<open>
  Liveness of the report path. The two threads between the receive queue and the clients, \<open>data_rx\<close> and the
  push thread, may be delayed by any other for as long as the scheduler likes. \<open>fw_run\<close> are the infinite runs of the
  firmware, \<open>fw_fair\<close> those in which, again and again, one of the two takes a step unless both have nothing to do.
  The work left to them, \<open>work\<close>, never grows while no message is queued and shrinks with each of their steps.
\<close>

section \<open>Runs\<close>

definition fw_run :: "bool \<Rightarrow> 'm mbox_ops \<Rightarrow> 'm firmware \<Rightarrow> (nat \<Rightarrow> 'm firmware) \<Rightarrow> bool" where
  "fw_run locked ops y0 run \<longleftrightarrow> run 0 = y0 \<and> (\<forall>i. fw_step locked ops (run i) (run (Suc i)))"

text \<open>Nothing queued, \<open>data_rx\<close> in \<open>nrf_recv\<close>, the push thread in \<open>chEvtWaitAny\<close> without an event.\<close>

definition fw_idle :: "('m \<Rightarrow> nat list) \<Rightarrow> 'm firmware \<Rightarrow> bool" where
  "fw_idle view y \<longleftrightarrow> fw_pc y = At_recv \<and> rx_pending view (rs_st (fw_radio y)) = [] \<and> push_debt (fw_rawd y) = 0"

definition fw_fair :: "'m mbox_ops \<Rightarrow> ('m \<Rightarrow> nat list) \<Rightarrow> (nat \<Rightarrow> 'm firmware) \<Rightarrow> bool" where
  "fw_fair ops view run \<longleftrightarrow>
     (\<forall>i. \<exists>j\<ge>i. rx_step ops (run j) (run (Suc j)) \<or> push_step (run j) (run (Suc j)) \<or> fw_idle view (run j))"

lemma run_reach: "fw_run locked ops y0 run \<Longrightarrow> fw_reach locked ops y0 (run i)"
  by (induction i) (auto simp: fw_run_def intro: fw_reach.intros)

section \<open>The work left\<close>

fun pc_work :: "rx_pc \<Rightarrow> nat" where
  "pc_work At_recv = 0"
| "pc_work At_update = 5"
| "pc_work At_push = 4"
| "pc_work At_signal = 3"

definition push_work :: "rawd_st \<Rightarrow> nat" where
  "push_work s = 2 * of_bool (rw_evt s) + of_bool (rw_woken s)"

definition work :: "('m \<Rightarrow> nat list) \<Rightarrow> 'm firmware \<Rightarrow> nat" where
  "work view y = 6 * length (rx_pending view (rs_st (fw_radio y))) + pc_work (fw_pc y) + push_work (fw_rawd y)"

lemma push_work_client: "push_work (rawd_step (Client est accepted) s) = push_work s"
proof (cases accepted)
  case (Some nc)
  obtain greet s1 where sec: "rawd_new_section est nc (rawd_call (Accepted nc) s) = (greet, s1)" by fastforce
  then show ?thesis using section_frame [OF sec] by (auto simp: push_work_def Some)
qed simp

lemma push_work_other:
  "push_work (rawd_step Greet s) = push_work s" "push_work (rawd_step (Frame f) s) = push_work s"
  "push_work (rawd_step Signal s) \<le> push_work s + 2"
  by (simp_all add: push_work_def rawd_new_ready_def rawd_push_copy_def rawd_push_signal_def split: option.split)

lemma work_pusher: "push_step y z \<Longrightarrow> work view z < work view y"
  by (induction rule: push_step.induct) (simp_all add: work_def push_work_def rawd_push_wait_def)

lemma pusher_posted: "push_step y z \<Longrightarrow> fw_radio z = fw_radio y"
  by (induction rule: push_step.induct) simp_all

context mailbox
begin

lemma work_data_rx:
  assumes "rx_step ops y z" "queue_inv view mok (fw_radio y)" "length (fw_msg y) = PAYLOADSZ"
  shows "work view z < work view y \<and> rs_posted (fw_radio z) = rs_posted (fw_radio y)"
  using assms
proof (induction rule: rx_step.induct)
  case (recv y m s)
  then have "entry_ok view mok (rs_st (fw_radio y))" by (simp add: queue_inv_def)
  then have "rx_pending view (rs_st (fw_radio y)) = m # rx_pending view s"
    using recv_effect [of "rs_st (fw_radio y)" "fw_msg y"] recv
    by (auto simp: rx_pending_def split: list.splits)
  then show ?case using recv by (simp add: work_def)
next
  case (signal y)
  then show ?case using push_work_other(3) [of "fw_rawd y"] by (simp add: work_def del: rawd_step.simps)
qed (simp_all add: work_def push_work_other del: rawd_step.simps)

lemma work_step:
  assumes "fw_step locked ops y z" "queue_inv view mok (fw_radio y)" "length (fw_msg y) = PAYLOADSZ"
    and "rs_posted (fw_radio z) = rs_posted (fw_radio y)"
  shows "work view z \<le> work view y"
  using assms
proof (induction rule: fw_step.induct)
  case (radio y r)
  then have "rs_posted r = rs_posted (fw_radio y)" by simp
  then have "length (rx_pending view (rs_st r)) \<le> length (rx_pending view (rs_st (fw_radio y)))"
    using rx_step_view [OF radio(1,3)] radio(2) by auto
  then show ?case by (simp add: work_def)
next
  case (data_rx y z)
  then show ?case using work_data_rx by fastforce
next
  case (pusher y z)
  then show ?case using work_pusher by (metis order.strict_implies_order)
qed (simp_all add: work_def push_work_client push_work_other del: rawd_step.simps)

end

text \<open>A sequence of numbers that never grows is constant in the end.\<close>

lemma eventually_constant:
  fixes w :: "nat \<Rightarrow> nat"
  assumes "\<And>i. n \<le> i \<Longrightarrow> w (Suc i) \<le> w i"
  obtains k where "n \<le> k" "\<And>i. k \<le> i \<Longrightarrow> w i = w k"
proof -
  obtain k where k: "n \<le> k" "\<And>i. n \<le> i \<Longrightarrow> w k \<le> w i"
    using ex_has_least_nat [of "\<lambda>i. n \<le> i" n w] by blast
  have "w i \<le> w k" if "k \<le> i" for i
    using that assms k(1) by (induction i rule: dec_induct) (auto intro: order.trans)
  then show thesis using that [of k] k by (metis dual_order.antisym order.trans)
qed

section \<open>Everything arrives\<close>

definition client_follows :: "'m firmware \<Rightarrow> netconn \<Rightarrow> bool" where
  "client_follows y nc \<longleftrightarrow>
     (\<exists>es1 es2. fw_revs y = es1 @ es2 \<and> nc \<in> stored (rawd_run es1 rawd_boot)
        \<and> rw_greet (rawd_run es1 rawd_boot) \<noteq> Some nc \<and> steady nc es2 \<and> pushed es2 \<noteq> [])"

lemma idle_delivered:
  assumes "path_inv r0 locked ops fin y" "rx_newest view (fw_radio y)" "fw_idle view y"
  shows "map raw_of_frame (rx_frames (fw_tevs y)) = pushed (fw_revs y)"
    and "rs_posted (fw_radio y) \<noteq> [] \<Longrightarrow>
      pushed (fw_revs y) \<noteq> [] \<and> last (pushed (fw_revs y)) = last (rs_posted (fw_radio y))"
    and "client_follows y nc \<Longrightarrow> sent_to nc (rw_log (fw_rawd y)) \<noteq> []
      \<and> last (sent_to nc (rw_log (fw_rawd y))) = last (pushed (fw_revs y))"
    and "client_follows y nc \<Longrightarrow> rs_posted (fw_radio y) \<noteq> []"
proof -
  have fin: "pushed (fw_revs y) = fin" "rs_received (fw_radio y) = fin" "list_all wf_raw fin"
    "rx_frames (fw_tevs y) = map frame_of_raw fin"
    using assms(1,3) by (simp_all add: path_inv_def fw_idle_def)
  show "map raw_of_frame (rx_frames (fw_tevs y)) = pushed (fw_revs y)"
    using fin(3) by (auto simp: fin list_all_iff intro!: map_idI)
  show "pushed (fw_revs y) \<noteq> [] \<and> last (pushed (fw_revs y)) = last (rs_posted (fw_radio y))"
    if "rs_posted (fw_radio y) \<noteq> []"
    using assms(2,3) that by (simp add: fin rx_newest_def fw_idle_def Let_def)
  show "sent_to nc (rw_log (fw_rawd y)) \<noteq> [] \<and> last (sent_to nc (rw_log (fw_rawd y))) = last (pushed (fw_revs y))"
    if follows: "client_follows y nc"
  proof -
    obtain es1 es2 where es: "fw_revs y = es1 @ es2" "nc \<in> stored (rawd_run es1 rawd_boot)"
      "rw_greet (rawd_run es1 rawd_boot) \<noteq> Some nc" "steady nc es2" "pushed es2 \<noteq> []"
      using follows by (auto simp: client_follows_def)
    then have fresh: "fresh_clients es1 rawd_boot" "fresh_clients es2 (rawd_run es1 rawd_boot)"
      and run: "fw_rawd y = rawd_run es2 (rawd_run es1 rawd_boot)"
      using assms(1) by (simp_all add: path_inv_def fresh_clients_append)
    have "push_debt (rawd_run es2 (rawd_run es1 rawd_boot)) = 0"
      using assms(3) by (simp add: fw_idle_def run)
    from push_delivery_last [OF rawd_ok_run [OF rawd_boot_ok fresh(1)] es(2-4) fresh(2) es(5) this]
    show ?thesis by (simp add: run es(1,5))
  qed
  show "rs_posted (fw_radio y) \<noteq> []" if "client_follows y nc"
  proof -
    have "fin \<noteq> []" using that by (auto simp: client_follows_def fin(1) [symmetric])
    then show ?thesis using assms(2) by (auto simp: rx_newest_def fin(2) Let_def)
  qed
qed

text \<open>What holds in every state of a run.\<close>

lemma run_invs:
  assumes "mailbox ops view mok" and "bufs_ok s" and "wf_raw msg" and "fw_run locked ops (fw_boot ops s msg) run"
  obtains fin where "path_inv (radio_boot ops s) locked ops fin (run i)" "queue_inv view mok (fw_radio (run i))"
    "rx_newest view (fw_radio (run i))" "length (fw_msg (run i)) = PAYLOADSZ"
proof -
  obtain fin where fin: "path_inv (radio_boot ops s) locked ops fin (run i)"
    by (rule mailbox.path_reach [OF assms(1) run_reach [OF assms(4)] assms(2,3)])
  then have r: "radio_reach locked ops (radio_boot ops s) (fw_radio (run i))" "length (fw_msg (run i)) = PAYLOADSZ"
    by (simp_all add: path_inv_def wf_raw_def)
  show thesis
    by (rule that [OF fin mailbox.reach_queue [OF assms(1) r(1) mailbox.boot_invs(1) [OF assms(1,2)]]
        mailbox.reach_rx_newest [OF assms(1) r(1) assms(2)] r(2)])
qed

text \<open>Once nothing more is queued, the work left cannot shrink for ever: in the end nothing is left.\<close>

lemma eventually_idle:
  assumes "mailbox ops view mok" and "bufs_ok s" and "wf_raw msg"
    and "fw_run locked ops (fw_boot ops s msg) run" and "fw_fair ops view run"
    and "\<forall>i\<ge>n. rs_posted (fw_radio (run i)) = rs_posted (fw_radio (run n))"
  shows "\<exists>k\<ge>n. \<forall>i\<ge>k. fw_idle view (run i)"
proof -
  let ?w = "\<lambda>i. work view (run i)"
  have q: "queue_inv view mok (fw_radio (run i))" "length (fw_msg (run i)) = PAYLOADSZ" for i
    by (rule run_invs [OF assms(1-4)], assumption)+
  have "?w (Suc i) \<le> ?w i" if "n \<le> i" for i
  proof (rule mailbox.work_step [OF assms(1) _ q])
    show "fw_step locked ops (run i) (run (Suc i))" using assms(4) by (simp add: fw_run_def)
    show "rs_posted (fw_radio (run (Suc i))) = rs_posted (fw_radio (run i))"
      using assms(6) that by (metis le_SucI)
  qed
  then obtain k where k: "n \<le> k" "\<And>i. k \<le> i \<Longrightarrow> ?w i = ?w k"
    using eventually_constant [of n ?w] by blast
  obtain j where j: "k \<le> j" "rx_step ops (run j) (run (Suc j)) \<or> push_step (run j) (run (Suc j)) \<or> fw_idle view (run j)"
    using assms(5) by (auto simp: fw_fair_def)
  have "?w (Suc j) = ?w j" using k(2) [of j] k(2) [of "Suc j"] j(1) by simp
  then have "\<not> rx_step ops (run j) (run (Suc j))" "\<not> push_step (run j) (run (Suc j))"
    using mailbox.work_data_rx [OF assms(1) _ q] work_pusher by (metis less_irrefl)+
  then have "?w j = 0"
    using j(2) by (auto simp: fw_idle_def work_def push_work_def push_debt_def)
  then have zero: "?w i = 0" if "k \<le> i" for i using k(2) [of i] k(2) [OF j(1)] that by simp
  have "fw_idle view (run i)" if "k \<le> i" for i
  proof -
    have "fw_pc (run i) = At_recv" using zero [OF that] by (cases "fw_pc (run i)") (simp_all add: work_def)
    moreover obtain fin where "path_inv (radio_boot ops s) locked ops fin (run i)" by (rule run_invs [OF assms(1-4)])
    ultimately show ?thesis
      using zero [OF that] by (auto simp: fw_idle_def work_def push_work_def push_debt_def path_inv_def)
  qed
  then show ?thesis using k(1) by blast
qed


text \<open>A reachable state ends a finite run; where nothing is left to do, the cleaner alone continues it for ever.\<close>

lemma reach_run:
  "fw_reach locked ops y0 z \<Longrightarrow> \<exists>f n. f 0 = y0 \<and> f n = z \<and> (\<forall>i<n. fw_step locked ops (f i) (f (Suc i)))"
proof (induction rule: fw_reach.induct)
  case start
  show ?case by (intro exI [of _ "\<lambda>i. y0"] exI [of _ 0]) simp
next
  case (step y z)
  then obtain f n where f: "f 0 = y0" "f n = y" "\<forall>i<n. fw_step locked ops (f i) (f (Suc i))" by blast
  then show ?case
    using step.hyps(2) by (intro exI [of _ "f(Suc n := z)"] exI [of _ "Suc n"]) (auto simp: less_Suc_eq)
qed

lemma idle_ticks:
  "fw_radio ((fw_table_ev Tick ^^ k) z) = fw_radio z" "fw_pc ((fw_table_ev Tick ^^ k) z) = fw_pc z"
  "fw_rawd ((fw_table_ev Tick ^^ k) z) = fw_rawd z" "fw_revs ((fw_table_ev Tick ^^ k) z) = fw_revs z"
  by (induction k) simp_all

lemma idle_run:
  assumes "fw_reach locked ops y0 z" and "fw_idle view z"
  obtains run n where "fw_run locked ops y0 run" "fw_fair ops view run" "\<And>k. run (n + k) = (fw_table_ev Tick ^^ k) z"
proof -
  obtain f n where f: "f 0 = y0" "f n = z" "\<And>i. i < n \<Longrightarrow> fw_step locked ops (f i) (f (Suc i))"
    using reach_run [OF assms(1)] by blast
  define run where "run i = (if i \<le> n then f i else (fw_table_ev Tick ^^ (i - n)) z)" for i
  have late: "run (n + k) = (fw_table_ev Tick ^^ k) z" for k by (simp add: run_def f(2))
  have "fw_step locked ops (run i) (run (Suc i))" for i
  proof (cases "i < n")
    case True
    then show ?thesis using f(3) by (simp add: run_def)
  next
    case False
    then obtain k where i: "i = n + k" using le_Suc_ex not_less by blast
    show ?thesis using late [of k] late [of "Suc k"] by (simp add: i fw_step.clean)
  qed
  then have "fw_run locked ops y0 run" using f(1) by (simp add: fw_run_def run_def)
  moreover have "fw_idle view (run (n + k))" for k
    using assms(2) by (simp add: late fw_idle_def idle_ticks)
  then have "fw_fair ops view run" unfolding fw_fair_def by (meson le_add2)
  ultimately show thesis using late by (rule that)
qed


end
