(* ===== verification/Uplink.thy ===== *)
theory Uplink
  imports Httpd_Props Radio_Turn
begin

text \<open>
  The way of a message from a browser to the air: the web server decodes the body of a request for
  \<^verbatim>\<open>/sendraw\<close> and queues it with \<open>nrf_send\<close>; the radio thread, woken by the radio or by the
  sender, writes one queued message a turn to the radio. Joins the web server (\<^verbatim>\<open>Httpd_Props\<close>) and the
  radio driver (\<^verbatim>\<open>Radio_Turn\<close>).
\<close>

section \<open>Turns of the radio thread\<close>

text \<open>
  Successive turns, each after an interrupt of the radio, whose behaviour during the turn is an
  arbitrary \<open>miso\<close>.
\<close>

fun radio_interrupts :: "'m mbox_ops \<Rightarrow> miso list \<Rightarrow> 'm nrf_entry \<Rightarrow> 'm nrf_entry option" where
  "radio_interrupts ops [] s = Some s"
| "radio_interrupts ops (miso # misos) s =
     (case nrf_radio_turn ops miso (nrf_kick_loop s) of
        None \<Rightarrow> None | Some s \<Rightarrow> radio_interrupts ops misos s)"

context mailbox
begin

lemma interrupts_run:
  assumes "rs_pc y = Waiting" "entry_ok view mok (rs_st y)"
  shows "\<exists>s' posted. radio_interrupts ops misos (rs_st y) = Some s' \<and> entry_ok view mok s'
    \<and> tx_pending view s' = drop (length misos) (tx_pending view (rs_st y))
    \<and> radio_reach locked ops y (y\<lparr>rs_st := s', rs_posted := posted\<rparr>)"
  using assms
proof (induction misos arbitrary: y)
  case Nil
  then show ?case by (auto intro!: exI [of _ "rs_posted y"] radio_reach.start)
next
  case (Cons miso misos)
  let ?k = "y\<lparr>rs_st := nrf_kick_loop (rs_st y)\<rparr>"
  have ok: "entry_ok view mok (rs_st ?k)" "rs_pc ?k = Waiting" "nr_evt (rs_st ?k)"
    "tx_pending view (rs_st ?k) = tx_pending view (rs_st y)"
    using Cons.prems by (simp_all add: nrf_kick_loop_def entry_ok_def tx_pending_def)
  obtain s1 where s1: "nrf_radio_turn ops miso (rs_st ?k) = Some s1" "entry_ok view mok s1"
      "tx_pending view s1 = tl (tx_pending view (rs_st y))"
    by (rule turn_total [OF ok(1), of miso]) (use ok(3,4) in simp)
  obtain p1 where r1: "radio_reach locked ops ?k (?k\<lparr>rs_st := s1, rs_posted := p1\<rparr>)" (is "radio_reach _ _ _ ?y1")
    using turn_run [OF ok(2,3) s1(1)] by blast
  have y1: "rs_st ?y1 = s1" "rs_pc ?y1 = Waiting" using Cons.prems(1) by simp_all
  obtain s' p where s': "radio_interrupts ops misos s1 = Some s'" "entry_ok view mok s'"
      "tx_pending view s' = drop (length misos) (tx_pending view s1)"
      "radio_reach locked ops ?y1 (?y1\<lparr>rs_st := s', rs_posted := p\<rparr>)"
    using Cons.IH [OF y1(2)] s1(2) unfolding y1(1) by blast
  have "radio_reach locked ops y ?k" by (rule radio_reach.step [OF radio_reach.start radio_step.kick])
  then have "radio_reach locked ops y (?y1\<lparr>rs_st := s', rs_posted := p\<rparr>)"
    using radio_reach_trans [OF s'(4) radio_reach_trans [OF r1]] by blast
  then show ?case
    using s1 s' by (intro exI [of _ s'] exI [of _ p]) (simp add: drop_Suc)
qed

end

section \<open>From the browser to the air\<close>

lemma route_sendraw: "route (str ''/sendraw'') = Some Path_sendraw"
  by (simp add: route_def paths_def str_def)

text \<open>
  C3. From a browser to the air: in every reachable state of the radio driver in which its thread
  sleeps and the queue has room, a request for \<^verbatim>\<open>/sendraw\<close> whose body is the hexadecimal text of a
  message is answered with OK, and then, whatever the radio does, after as many interrupts as
  there are queued messages the radio has been given exactly the messages it had before, those
  that were waiting, in order, and the message of the request; later interrupts send nothing more.
\<close>

theorem browser_to_radio:
  assumes "mailbox ops view mok" and "bufs_ok s" and "radio_reach True ops (radio_boot ops s) y"
    and "rs_pc y = Waiting" and "rs_sender y = None" and "length (tx_pending view (rs_st y)) < MBSZ"
    and "printf_laws pf" and "wf_parts m (str ''/sendraw'') h" and "wf_raw data"
    and "length (segment m (str ''/sendraw'') h (hex_encode data)) < 65536"
    and "length (ns_buf (hs_net sys)) = 512" and "length msg = PAYLOADSZ" and "hs_nrf sys = rs_st y"
    and "length (tx_pending view (rs_st y)) < length misos"
  shows "\<exists>sys' ws last nrf.
    httpd_process pf ops now msg nc (Some (segment m (str ''/sendraw'') h (hex_encode data))) sys = Inr sys'
    \<and> ns_log (hs_net sys') = ns_log (hs_net sys) @ [Blink_red] @ map (Netconn_write nc) ws
        @ [Netbuf_delete] @ map (Netconn_write nc) last @ [Netconn_close nc]
    \<and> concat (ws @ last) = http_head ''text/plain'' @ str (''OK'' @ crlf)
    \<and> radio_interrupts ops misos (hs_nrf sys') = Some nrf
    \<and> cp_payloads (chip_of chip_reset (nr_bus nrf))
        = cp_payloads (radio_chip y) @ tx_pending view (rs_st y) @ [data]
    \<and> tx_pending view nrf = []"
proof -
  note mb = assms(1)
  let ?u = "str ''/sendraw''" and ?b = "hex_encode data"
  note boot = mailbox.boot_invs [OF mb assms(2)]
  have order: "tx_order view z" if "radio_reach True ops (radio_boot ops s) z" for z
    by (rule mailbox.reach_tx_order [OF mb that boot(1,2,4)])
  have ok: "entry_ok view mok (rs_st y)"
    using mailbox.reach_queue [OF mb assms(3) boot(1)] unfolding queue_inv_def by (rule conjunct1)
  obtain st where st: "nrf_send ops data (rs_st y) = Some st" "entry_ok view mok st"
      "tx_pending view st = tx_pending view (rs_st y) @ [data]"
      "radio_reach True ops y (y\<lparr>rs_st := st, rs_sent := rs_sent y @ [data]\<rparr>)" (is "radio_reach _ _ _ ?y1")
    by (rule mailbox.send_run [OF mb assms(4,5,9) ok assms(6)])
  have sends: "http_sends ?u ?b = Some data"
    by (simp add: http_sends_def route_sendraw hex_decode_encode [OF assms(9)])
  then have n: "case http_sends ?u ?b of None \<Rightarrow> st = hs_nrf sys | Some d \<Rightarrow> nrf_send ops d (hs_nrf sys) = Some st"
    using st(1) assms(13) by simp
  have reply: "http_reply pf now (hs_tbl sys) ?u ?b = http_head ''text/plain'' @ str (''OK'' @ crlf)"
    by (simp add: http_reply_def route_sendraw hex_decode_encode [OF assms(9)])
  from serve_run [OF assms(7,8,10-12) n, of now nc] obtain sys' ws last where
    r: "httpd_process pf ops now msg nc (Some (segment m ?u h ?b)) sys = Inr sys'"
      "ns_log (hs_net sys') = ns_log (hs_net sys) @ [Blink_red] @ map (Netconn_write nc) ws
        @ [Netbuf_delete] @ map (Netconn_write nc) last @ [Netconn_close nc]"
      "concat (ws @ last) = http_head ''text/plain'' @ str (''OK'' @ crlf)" "hs_nrf sys' = st"
    unfolding reply by blast
  have y1: "rs_pc ?y1 = Waiting" "rs_st ?y1 = st" using assms(4) by simp_all
  obtain nrf posted where t: "radio_interrupts ops misos st = Some nrf"
      "tx_pending view nrf = drop (length misos) (tx_pending view st)"
      "radio_reach True ops ?y1 (?y1\<lparr>rs_st := nrf, rs_posted := posted\<rparr>)" (is "radio_reach _ _ _ ?z")
    using mailbox.interrupts_run [OF mb y1(1), of misos True] st(2) unfolding y1(2) by blast
  have empty: "tx_pending view nrf = []" using t(2) st(3) assms(14) by simp
  have "radio_reach True ops (radio_boot ops s) ?z"
    by (rule radio_reach_trans [OF t(3) radio_reach_trans [OF st(4) assms(3)]])
  from order [OF this] have "rs_sent y @ [data] = cp_payloads (chip_of chip_reset (nr_bus nrf))"
    using empty assms(4) by (simp add: tx_order_def in_flight_def radio_chip_def)
  moreover have "rs_sent y = cp_payloads (radio_chip y) @ tx_pending view (rs_st y)"
    using order [OF assms(3)] assms(4) by (simp add: tx_order_def in_flight_def)
  ultimately have "cp_payloads (chip_of chip_reset (nr_bus nrf))
      = cp_payloads (radio_chip y) @ tx_pending view (rs_st y) @ [data]" by simp
  with r t(1) empty show ?thesis by (intro exI [of _ sys'] exI [of _ ws] exI [of _ last] exI [of _ nrf]) simp
qed

text \<open>At boot, with an idle radio: one interrupt sends the message.\<close>

theorem browser_to_radio_witness:
  "\<exists>sys' nrf. httpd_process plain_printf fifo_ops 0 (replicate 16 0) 5
        (Some (segment HTTP_POST (str ''/sendraw'') (str ''Host: x'') (hex_encode count_up)))
        (demo_sys\<lparr>hs_nrf := rs_st (radio_boot fifo_ops zero_nrf)\<rparr>) = Inr sys'
    \<and> radio_interrupts fifo_ops [\<lambda>tr k. 0x0E] (hs_nrf sys') = Some nrf
    \<and> cp_payloads (chip_of chip_reset (nr_bus nrf)) = [count_up]"
proof -
  let ?y = "radio_boot fifo_ops zero_nrf"
  have y: "rs_pc ?y = Waiting" "rs_sender ?y = None" "tx_pending snd (rs_st ?y) = []"
    by (simp_all add: radio_boot_def nrf_init_def tx_pending_def pending_def fifo_ops_def)
  have p: "cp_payloads (radio_chip ?y) = []"
    using fifo.boot_invs(4) [OF zero_nrf_ok] by (simp add: tx_order_def radio_boot_def)
  have w: "wf_parts HTTP_POST (str ''/sendraw'') (str ''Host: x'')"
    unfolding wf_parts_def
    by (intro conjI url_ok_plain hdr_ok_plain) (simp_all add: str_def url_char_def)
  have raw: "wf_raw count_up" by (simp add: wf_raw_def count_up_def PAYLOADSZ_def)
  have l: "length (segment HTTP_POST (str ''/sendraw'') (str ''Host: x'') (hex_encode count_up)) < 65536"
    using raw by (simp add: segment_def length_hex_encode count_up_def)
  have b: "length (ns_buf (hs_net (demo_sys\<lparr>hs_nrf := rs_st ?y\<rparr>))) = 512" "length (replicate 16 (0 :: u8)) = PAYLOADSZ"
    by (simp_all add: demo_sys_def net_zero_def NET_BUF_SIZE_def PAYLOADSZ_def)
  have q: "length (tx_pending snd (rs_st ?y)) < MBSZ" "length (tx_pending snd (rs_st ?y)) < length [\<lambda>tr k. 0x0E :: u8]"
    by (simp_all add: y(3) MBSZ_def)
  from browser_to_radio [OF fifo.mailbox_axioms zero_nrf_ok radio_reach.start y(1,2) q(1) plain.printf_laws_axioms
      w raw l b _ q(2), of 0 5]
  show ?thesis by (simp add: p y(3)) blast
qed

end
