(* ===== verification/Nrf_Header.thy ===== *)
theory Nrf_Header
  imports Radio_System
begin

text \<open>
  The rest of \<^verbatim>\<open>firmware/nrf24l01p.h\<close>: the commands, registers and fields that the driver does not
  use, next to those of \<^verbatim>\<open>Nrf_Radio\<close> that it does, so that the whole map can be checked. A command byte says
  which command it is, the registers have addresses and disjoint fields of their own, and the
  configuration made by the driver sets no bit outside the fields.
\<close>

section \<open>Commands, registers and fields\<close>

definition CMD_REUSE_TX_PL :: u8 where [nrf_regs]: "CMD_REUSE_TX_PL = 0xE3"

definition CMD_R_RX_PL_WID :: u8 where [nrf_regs]: "CMD_R_RX_PL_WID = 0x60"

definition CMD_W_ACK_PAYLOAD :: u8 where [nrf_regs]: "CMD_W_ACK_PAYLOAD = 0xA8"

definition CMD_W_TX_PAYLOAD_NOACK :: u8 where [nrf_regs]: "CMD_W_TX_PAYLOAD_NOACK = 0xB0"

definition MASK_RX_DR :: u8 where [nrf_regs]: "MASK_RX_DR = 0x40"

definition MASK_TX_DS :: u8 where [nrf_regs]: "MASK_TX_DS = 0x20"

definition MASK_MAX_RT :: u8 where [nrf_regs]: "MASK_MAX_RT = 0x10"

definition ENAA_P5 :: u8 where [nrf_regs]: "ENAA_P5 = 0x20"

definition ENAA_P4 :: u8 where [nrf_regs]: "ENAA_P4 = 0x10"

definition ENAA_P3 :: u8 where [nrf_regs]: "ENAA_P3 = 0x08"

definition ENAA_P2 :: u8 where [nrf_regs]: "ENAA_P2 = 0x04"

definition ENAA_P1 :: u8 where [nrf_regs]: "ENAA_P1 = 0x02"

definition ENAA_P0 :: u8 where [nrf_regs]: "ENAA_P0 = 0x01"

definition ERX_P5 :: u8 where [nrf_regs]: "ERX_P5 = 0x20"

definition ERX_P4 :: u8 where [nrf_regs]: "ERX_P4 = 0x10"

definition ERX_P3 :: u8 where [nrf_regs]: "ERX_P3 = 0x08"

definition ERX_P2 :: u8 where [nrf_regs]: "ERX_P2 = 0x04"

definition ERX_P1 :: u8 where [nrf_regs]: "ERX_P1 = 0x02"

definition AW_4_BYTES :: u8 where [nrf_regs]: "AW_4_BYTES = 0x02"

definition AW_5_BYTES :: u8 where [nrf_regs]: "AW_5_BYTES = 0x03"

definition ARD_MASK :: u8 where [nrf_regs]: "ARD_MASK = 0xF0"

definition ARC_MASK :: u8 where [nrf_regs]: "ARC_MASK = 0x0F"

definition RF_CH_MASK :: u8 where [nrf_regs]: "RF_CH_MASK = 0x7F"

definition CONT_WAVE :: u8 where [nrf_regs]: "CONT_WAVE = 0x80"

definition RF_DR_LOW :: u8 where [nrf_regs]: "RF_DR_LOW = 0x20"

definition RF_DR_HIGH :: u8 where [nrf_regs]: "RF_DR_HIGH = 0x08"

definition RF_DR_250K :: u8 where [nrf_regs]: "RF_DR_250K = 0x20"

definition RF_DR_2M :: u8 where [nrf_regs]: "RF_DR_2M = 0x08"

definition RF_PWR_0 :: u8 where [nrf_regs]: "RF_PWR_0 = 0x00"

definition RF_PWR_1 :: u8 where [nrf_regs]: "RF_PWR_1 = 0x02"

definition RF_PWR_2 :: u8 where [nrf_regs]: "RF_PWR_2 = 0x04"

definition TX_FULL :: u8 where [nrf_regs]: "TX_FULL = 0x01"

definition OBSERVE_TX :: u8 where [nrf_regs]: "OBSERVE_TX = 0x08"

definition PLOS_CNT_MASK :: u8 where [nrf_regs]: "PLOS_CNT_MASK = 0xF0"

definition PLOS_CNT_SHIFT :: nat where [nrf_regs]: "PLOS_CNT_SHIFT = 4"

definition ARC_CNT_MASK :: u8 where [nrf_regs]: "ARC_CNT_MASK = 0x0F"

definition ARC_CNT_SHIFT :: nat where [nrf_regs]: "ARC_CNT_SHIFT = 0"

definition RPD :: u8 where [nrf_regs]: "RPD = 0x09"

definition RX_ADDR_P1 :: u8 where [nrf_regs]: "RX_ADDR_P1 = 0x0B"

definition RX_ADDR_P2 :: u8 where [nrf_regs]: "RX_ADDR_P2 = 0x0C"

definition RX_ADDR_P3 :: u8 where [nrf_regs]: "RX_ADDR_P3 = 0x0D"

definition RX_ADDR_P4 :: u8 where [nrf_regs]: "RX_ADDR_P4 = 0x0E"

definition RX_ADDR_P5 :: u8 where [nrf_regs]: "RX_ADDR_P5 = 0x0F"

definition RX_PW_P1 :: u8 where [nrf_regs]: "RX_PW_P1 = 0x12"

definition RX_PW_P2 :: u8 where [nrf_regs]: "RX_PW_P2 = 0x13"

definition RX_PW_P3 :: u8 where [nrf_regs]: "RX_PW_P3 = 0x14"

definition RX_PW_P4 :: u8 where [nrf_regs]: "RX_PW_P4 = 0x15"

definition RX_PW_P5 :: u8 where [nrf_regs]: "RX_PW_P5 = 0x16"

definition FIFO_STATUS :: u8 where [nrf_regs]: "FIFO_STATUS = 0x17"

definition FIFO_TX_REUSE :: u8 where [nrf_regs]: "FIFO_TX_REUSE = 0x40"

definition FIFO_TX_FULL :: u8 where [nrf_regs]: "FIFO_TX_FULL = 0x20"

definition FIFO_TX_EMPTY :: u8 where [nrf_regs]: "FIFO_TX_EMPTY = 0x10"

definition FIFO_RX_FULL :: u8 where [nrf_regs]: "FIFO_RX_FULL = 0x02"

definition FIFO_RX_EMPTY :: u8 where [nrf_regs]: "FIFO_RX_EMPTY = 0x01"

definition FEATURE :: u8 where [nrf_regs]: "FEATURE = 0x1D"

definition EN_DPL :: u8 where [nrf_regs]: "EN_DPL = 0x04"

definition EN_ACK_PAY :: u8 where [nrf_regs]: "EN_ACK_PAY = 0x02"

definition EN_DYN_ACK :: u8 where [nrf_regs]: "EN_DYN_ACK = 0x01"

section \<open>Command bytes\<close>

datatype radio_cmd =
    R_register u8 | W_register u8 | R_rx_payload | W_tx_payload | Flush_tx | Flush_rx | Reuse_tx_pl
  | R_rx_pl_wid | W_ack_payload u8 | W_tx_payload_noack | Nop

fun cmd_byte :: "radio_cmd \<Rightarrow> u8" where
  "cmd_byte (R_register a) = CMD_R_REGISTER OR a"
| "cmd_byte (W_register a) = CMD_W_REGISTER OR a"
| "cmd_byte R_rx_payload = CMD_R_RX_PAYLOAD"
| "cmd_byte W_tx_payload = CMD_W_TX_PAYLOAD"
| "cmd_byte Flush_tx = CMD_FLUSH_TX"
| "cmd_byte Flush_rx = CMD_FLUSH_RX"
| "cmd_byte Reuse_tx_pl = CMD_REUSE_TX_PL"
| "cmd_byte R_rx_pl_wid = CMD_R_RX_PL_WID"
| "cmd_byte (W_ack_payload p) = CMD_W_ACK_PAYLOAD OR p"
| "cmd_byte W_tx_payload_noack = CMD_W_TX_PAYLOAD_NOACK"
| "cmd_byte Nop = CMD_NOP"

text \<open>Register addresses have five bits, pipe numbers three.\<close>

fun cmd_ok :: "radio_cmd \<Rightarrow> bool" where
  "cmd_ok (R_register a) \<longleftrightarrow> a < 0x20"
| "cmd_ok (W_register a) \<longleftrightarrow> a < 0x20"
| "cmd_ok (W_ack_payload p) \<longleftrightarrow> p < 8"
| "cmd_ok _ \<longleftrightarrow> True"

definition cmd_of_byte :: "u8 \<Rightarrow> radio_cmd option" where
  "cmd_of_byte b =
     (if b AND 0xE0 = CMD_R_REGISTER then Some (R_register (b AND 0x1F))
      else if b AND 0xE0 = CMD_W_REGISTER then Some (W_register (b AND 0x1F))
      else if b AND 0xF8 = CMD_W_ACK_PAYLOAD then Some (W_ack_payload (b AND 0x07))
      else map_of (map (\<lambda>c. (cmd_byte c, c))
        [R_rx_payload, W_tx_payload, Flush_tx, Flush_rx, Reuse_tx_pl, R_rx_pl_wid, W_tx_payload_noack, Nop]) b)"

lemma small_word:
  fixes a :: u8
  assumes "unat a < n"
  shows "a \<in> of_nat ` set [0..<n]"
  using assms by (intro image_eqI [of _ _ "unat a"]) simp_all

text \<open>No two commands share a byte, whatever their register or pipe.\<close>

theorem command_roundtrip:
  assumes "cmd_ok c"
  shows "cmd_of_byte (cmd_byte c) = Some c"
proof -
  have reg: "(CMD_R_REGISTER OR a) AND 0xE0 = CMD_R_REGISTER \<and> (CMD_R_REGISTER OR a) AND 0x1F = a
      \<and> (CMD_W_REGISTER OR a) AND 0xE0 = CMD_W_REGISTER \<and> (CMD_W_REGISTER OR a) AND 0x1F = a"
    if "a < 0x20" for a :: u8
  proof -
    have "a \<in> of_nat ` set [0..<32]" using that by (intro small_word) (simp add: word_less_nat_alt)
    then show ?thesis by (auto simp: nrf_regs upt_rec)
  qed
  have pipe: "(CMD_W_ACK_PAYLOAD OR p) AND 0xE0 = 0xA0 \<and> (CMD_W_ACK_PAYLOAD OR p) AND 0xF8 = CMD_W_ACK_PAYLOAD
      \<and> (CMD_W_ACK_PAYLOAD OR p) AND 0x07 = p" if "p < 8" for p :: u8
  proof -
    have "p \<in> of_nat ` set [0..<8]" using that by (intro small_word) (simp add: word_less_nat_alt)
    then show ?thesis by (auto simp: nrf_regs upt_rec)
  qed
  show ?thesis
  proof (cases c)
    case (R_register a)
    then show ?thesis using assms reg [of a] by (simp add: cmd_of_byte_def)
  next
    case (W_register a)
    then show ?thesis using assms reg [of a] by (simp add: cmd_of_byte_def) (simp add: nrf_regs)
  next
    case (W_ack_payload p)
    then show ?thesis using assms pipe [of p] by (simp add: cmd_of_byte_def) (simp add: nrf_regs)
  qed (simp_all add: cmd_of_byte_def nrf_regs)
qed

theorem command_roundtrip_witness:
  "cmd_of_byte (cmd_byte (W_register CONFIG)) = Some (W_register CONFIG)"
  by (rule command_roundtrip) (simp add: nrf_regs)

section \<open>The register map\<close>

text \<open>The registers of the header in its order; those with fields, with the masks of their fields.\<close>

definition register_map :: "(u8 \<times> u8 list option) list" where
  "register_map =
    [(CONFIG, Some [MASK_RX_DR, MASK_TX_DS, MASK_MAX_RT, EN_CRC, CRCO, PWR_UP, PRIM_RX]),
     (EN_AA, Some [ENAA_P5, ENAA_P4, ENAA_P3, ENAA_P2, ENAA_P1, ENAA_P0]),
     (EN_RXADDR, Some [ERX_P5, ERX_P4, ERX_P3, ERX_P2, ERX_P1, ERX_P0]),
     (SETUP_AW, Some [AW_5_BYTES]), (SETUP_RETR, Some [ARD_MASK, ARC_MASK]), (RF_CH, Some [RF_CH_MASK]),
     (RF_SETUP, Some [CONT_WAVE, RF_DR_LOW, RF_DR_HIGH, RF_PWR_3]),
     (STATUS, Some [RX_DR, TX_DS, MAX_RT, RX_P_NO_MASK, TX_FULL]),
     (OBSERVE_TX, Some [PLOS_CNT_MASK, ARC_CNT_MASK]), (RPD, None),
     (RX_ADDR_P0, None), (RX_ADDR_P1, None), (RX_ADDR_P2, None), (RX_ADDR_P3, None), (RX_ADDR_P4, None),
     (RX_ADDR_P5, None), (TX_ADDR, None), (RX_PW_P0, None), (RX_PW_P1, None), (RX_PW_P2, None),
     (RX_PW_P3, None), (RX_PW_P4, None), (RX_PW_P5, None),
     (FIFO_STATUS, Some [FIFO_TX_REUSE, FIFO_TX_FULL, FIFO_TX_EMPTY, FIFO_RX_FULL, FIFO_RX_EMPTY]),
     (DYNPD, None), (FEATURE, Some [EN_DPL, EN_ACK_PAY, EN_DYN_ACK])]"

fun disjoint_masks :: "u8 list \<Rightarrow> bool" where
  "disjoint_masks [] \<longleftrightarrow> True"
| "disjoint_masks (m # ms) \<longleftrightarrow> list_all (\<lambda>k. m AND k = 0) ms \<and> disjoint_masks ms"

definition within_fields :: "u8 list option \<Rightarrow> bytes option \<Rightarrow> bool" where
  "within_fields fs v =
     (case fs of
        None \<Rightarrow> True
      | Some ms \<Rightarrow> (case v of None \<Rightarrow> True
          | Some bs \<Rightarrow> list_all (\<lambda>b. b AND NOT (foldr (OR) ms 0) = 0) bs))"

text \<open>
  Every register has an address of its own that fits a command byte, its fields do not overlap, the
  shifts are the positions of their masks, and after the configuration of the driver no register holds a bit
  outside its fields.
\<close>

theorem register_map_consistent:
  "distinct (map fst register_map) \<and> list_all (\<lambda>(a, ms). a < 0x20) register_map
   \<and> list_all (\<lambda>(a, ms). case ms of None \<Rightarrow> True | Some ms \<Rightarrow> disjoint_masks ms) register_map
   \<and> list_all (\<lambda>(m, s). m AND mask s = 0 \<and> drop_bit s m AND 1 = 1)
       [(ARD_MASK, ARD_SHIFT), (ARC_MASK, ARC_SHIFT), (RX_P_NO_MASK, RX_P_NO_SHIFT),
        (PLOS_CNT_MASK, PLOS_CNT_SHIFT), (ARC_CNT_MASK, ARC_CNT_SHIFT)]
   \<and> list_all (\<lambda>(a, ms). within_fields ms (cp_regs (chip_of chip_reset (nrf_radio_setup [])) a)) register_map"
proof -
  have i: "idle (chip_of chip_reset [])" by (simp add: chip_reset_def idle_def)
  show ?thesis
    unfolding setup_chip [OF i] register_map_def
    by (intro conjI) (simp_all add: nrf_regs within_fields_def chip_reset_def mask_eq_exp_minus_1)
qed

end
