(* ===== verification/Dfu.thy ===== *)
theory Dfu
  imports Prelude
begin

text \<open>
  The boot loader \<^verbatim>\<open>bootloader/usbdfu.c\<close>: the DFU class requests, the flash operations made when a
  status request completes, leaving to the application, and the main loop with its
  timeout. The USB stack and the flash controller belong to libopencm3: \<open>usbd_poll\<close> is the
  list of callbacks it makes, the calls into the library are logged in \<open>df_log\<close>. The numbers of the
  DFU states and of the status OK come from a libopencm3 header and are the parameters \<open>num\<close>
  and \<open>ok\<close>.
\<close>

section \<open>State\<close>

definition APP_ADDRESS :: u32 where
  "APP_ADDRESS = 0x08002000"

definition CMD_SETADDR :: u8 where
  "CMD_SETADDR = 0x21"

definition CMD_ERASE :: u8 where
  "CMD_ERASE = 0x41"

definition CONTROL_BUFFER :: nat where
  "CONTROL_BUFFER = 2048"

definition wTransferSize :: u16 where
  "wTransferSize = 2048"

datatype dfu_state =
    STATE_DFU_IDLE | STATE_DFU_DNLOAD_SYNC | STATE_DFU_DNBUSY | STATE_DFU_DNLOAD_IDLE
  | STATE_DFU_MANIFEST_SYNC | STATE_DFU_MANIFEST | STATE_DFU_ERROR

datatype dfu_request =
    DFU_DNLOAD | DFU_CLRSTATUS | DFU_ABORT | DFU_UPLOAD | DFU_GETSTATUS | DFU_GETSTATE | DFU_OTHER u8

text \<open>
  \<open>Load_msp\<close> loads the stack pointer from an address, \<open>Jump_through\<close> calls the function whose address
  is stored there.
\<close>

datatype dfu_call =
    Flash_unlock | Flash_lock | Flash_erase_page u32 | Flash_program_half_word u32 u16
  | Usbd_disconnect | Led_clear nat | Led_toggle nat | Clock_off string | Set_VTOR u32
  | Load_msp u32 | Jump_through u32

record dfu_sys =
  df_state :: dfu_state
  df_buf :: bytes
  df_len :: u16
  df_addr :: u32
  df_blocknum :: u16
  df_left :: bool
  df_log :: "dfu_call list"

record usb_setup_data =
  bmRequestType :: u8
  bRequest :: dfu_request
  wValue :: u16

definition dfu_calls :: "dfu_call list \<Rightarrow> dfu_sys \<Rightarrow> dfu_sys" where
  "dfu_calls es s = s\<lparr>df_log := df_log s @ es\<rparr>"

section \<open>Requests\<close>

text \<open>\<open>usbdfu_getstatus\<close>: the status byte, the poll timeout and the new state.\<close>

definition usbdfu_getstatus :: "u8 \<Rightarrow> dfu_sys \<Rightarrow> u8 \<times> u32 \<times> dfu_sys" where
  "usbdfu_getstatus ok s =
     (case df_state s of
        STATE_DFU_DNLOAD_SYNC \<Rightarrow> (ok, 100, s\<lparr>df_state := STATE_DFU_DNBUSY\<rparr>)
      | STATE_DFU_MANIFEST_SYNC \<Rightarrow> (ok, 0, s\<lparr>df_state := STATE_DFU_MANIFEST\<rparr>)
      | _ \<Rightarrow> (ok, 0, s))"

text \<open>What the callback leaves: return value, buffer, length, and whether it set \<open>complete\<close>.\<close>

record dfu_reply =
  dr_ret :: int
  dr_buf :: bytes
  dr_len :: "u16 option"
  dr_complete :: bool

text \<open>\<open>None\<close>: the callback would write through a null \<open>len\<close>.\<close>

definition usbdfu_control_request ::
    "u8 \<Rightarrow> (dfu_state \<Rightarrow> u8) \<Rightarrow> usb_setup_data \<Rightarrow> bytes \<Rightarrow> u16 option \<Rightarrow> dfu_sys \<Rightarrow> (dfu_reply \<times> dfu_sys) option"
where
  "usbdfu_control_request ok num req buf len s =
     (let reply = \<lparr>dr_ret = 1, dr_buf = buf, dr_len = len, dr_complete = False\<rparr>
      in if bmRequestType req AND 0x7F \<noteq> 0x21 then Some (reply\<lparr>dr_ret := 0\<rparr>, s)
         else case bRequest req of
           DFU_DNLOAD \<Rightarrow>
             (case len of
                None \<Rightarrow> Some (reply, s\<lparr>df_state := STATE_DFU_MANIFEST_SYNC\<rparr>)
              | Some n \<Rightarrow>
                  if n = 0 then Some (reply, s\<lparr>df_state := STATE_DFU_MANIFEST_SYNC\<rparr>)
                  else Some (reply, s\<lparr>df_blocknum := wValue req, df_len := n,
                         df_buf := memcpy_bytes (df_buf s) buf (unat n), df_state := STATE_DFU_DNLOAD_SYNC\<rparr>))
         | DFU_CLRSTATUS \<Rightarrow>
             Some (reply, if df_state s = STATE_DFU_ERROR then s\<lparr>df_state := STATE_DFU_IDLE\<rparr> else s)
         | DFU_ABORT \<Rightarrow> Some (reply, s\<lparr>df_state := STATE_DFU_IDLE\<rparr>)
         | DFU_UPLOAD \<Rightarrow> Some (reply\<lparr>dr_ret := 0\<rparr>, s)
         | DFU_GETSTATUS \<Rightarrow>
             (case len of
                None \<Rightarrow> None
              | Some n \<Rightarrow>
                  (let (status, bwPollTimeout, s) = usbdfu_getstatus ok s
                   in Some (reply\<lparr>dr_buf := buf[0 := status,
                              1 := ucast (bwPollTimeout AND 0xFF),
                              2 := ucast (drop_bit 8 bwPollTimeout AND 0xFF),
                              3 := ucast (drop_bit 16 bwPollTimeout AND 0xFF),
                              4 := num (df_state s), 5 := 0],
                            dr_len := Some 6, dr_complete := True\<rparr>, s)))
         | DFU_GETSTATE \<Rightarrow>
             (case len of
                None \<Rightarrow> None
              | Some n \<Rightarrow> Some (reply\<lparr>dr_buf := buf[0 := num (df_state s)], dr_len := Some 1\<rparr>, s))
         | DFU_OTHER r \<Rightarrow> Some (reply\<lparr>dr_ret := 0\<rparr>, s))"

section \<open>Completion of a status request\<close>

definition leave_bootloader :: "dfu_sys \<Rightarrow> dfu_sys" where
  "leave_bootloader s =
     (dfu_calls [Usbd_disconnect, Led_clear 14, Led_clear 15, Clock_off ''IOPC'', Clock_off ''AFIO'',
        Clock_off ''OTGFS'', Set_VTOR (APP_ADDRESS AND 0xFFFF), Load_msp APP_ADDRESS, Jump_through (APP_ADDRESS + 4)] s)
     \<lparr>df_left := True\<rparr>"

text \<open>The 32-bit word at \<open>prog.buf + 1\<close>.\<close>

definition prog_word :: "dfu_sys \<Rightarrow> u32" where
  "prog_word s = le32 (df_buf s ! 1) (df_buf s ! 2) (df_buf s ! 3) (df_buf s ! 4)"

text \<open>The programming loop from offset \<open>i\<close>; each turn programs one half word.\<close>

function program_loop :: "u32 \<Rightarrow> nat \<Rightarrow> dfu_sys \<Rightarrow> dfu_sys" where
  "program_loop baseaddr i s =
     (if i < unat (df_len s)
      then program_loop baseaddr (i + 2)
             (dfu_calls [Flash_program_half_word (baseaddr + of_nat i)
                (le16 (df_buf s ! i) (df_buf s ! (i + 1)))] s)
      else s)"
  by pat_completeness auto
termination
  by (relation "measure (\<lambda>(b, i, s). unat (df_len s) - i)") (auto simp: dfu_calls_def)

declare program_loop.simps [simp del]

definition usbdfu_getstatus_complete :: "dfu_sys \<Rightarrow> dfu_sys" where
  "usbdfu_getstatus_complete s =
     (case df_state s of
        STATE_DFU_DNBUSY \<Rightarrow>
          (let s = dfu_calls [Flash_unlock] s;
               s = (if df_blocknum s = 0
                    then if df_buf s ! 0 = CMD_ERASE
                         then (dfu_calls [Flash_erase_page (prog_word s)] s)\<lparr>df_addr := prog_word s\<rparr>
                         else if df_buf s ! 0 = CMD_SETADDR then s\<lparr>df_addr := prog_word s\<rparr>
                         else s
                    else program_loop
                           (df_addr s + (ucast (df_blocknum s) - 2) * ucast wTransferSize) 0 s);
               s = dfu_calls [Flash_lock] s
           in s\<lparr>df_state := STATE_DFU_DNLOAD_IDLE\<rparr>)
      | STATE_DFU_MANIFEST \<Rightarrow> leave_bootloader s
      | _ \<Rightarrow> s)"

section \<open>The main loop\<close>

text \<open>The callbacks of one \<open>usbd_poll\<close>. A request carries the data stage in the control buffer.\<close>

datatype usb_ev = Control usb_setup_data bytes "u16 option" | Status_complete

fun usb_event :: "u8 \<Rightarrow> (dfu_state \<Rightarrow> u8) \<Rightarrow> usb_ev \<Rightarrow> dfu_sys \<Rightarrow> dfu_sys" where
  "usb_event ok num (Control req buf len) s =
     (case usbdfu_control_request ok num req buf len s of None \<Rightarrow> s | Some (_, s) \<Rightarrow> s)"
| "usb_event ok num Status_complete s = usbdfu_getstatus_complete s"

text \<open>After leaving, the boot loader does not run any more.\<close>

definition usbd_poll :: "u8 \<Rightarrow> (dfu_state \<Rightarrow> u8) \<Rightarrow> usb_ev list \<Rightarrow> dfu_sys \<Rightarrow> dfu_sys" where
  "usbd_poll ok num evs s = fold (\<lambda>e s. if df_left s then s else usb_event ok num e s) evs s"

text \<open>\<open>app\<close> is the first word of the application, the initial stack pointer of its vector table.\<close>

definition dfu_iter ::
    "u8 \<Rightarrow> (dfu_state \<Rightarrow> u8) \<Rightarrow> u32 \<Rightarrow> usb_ev list \<Rightarrow> int \<times> int \<times> dfu_sys \<Rightarrow> int \<times> int \<times> dfu_sys" where
  "dfu_iter ok num app evs = (\<lambda>(i, timeout, s).
     if df_left s then (i, timeout, s)
     else let s = usbd_poll ok num evs s
       in if df_left s then (i, timeout, s)
          else if i \<ge> 80000
          then let s = dfu_calls [Led_toggle 14, Led_toggle 15] s
            in if df_state s = STATE_DFU_IDLE \<and> app AND 0x2FFE0000 = 0x20000000
               then if timeout > 13 then (0, timeout + 1, leave_bootloader s) else (0, timeout + 1, s)
               else (0, 0, s)
          else (i + 1, timeout, s))"

fun dfu_main :: "u8 \<Rightarrow> (dfu_state \<Rightarrow> u8) \<Rightarrow> u32 \<Rightarrow> (nat \<Rightarrow> usb_ev list) \<Rightarrow> nat \<Rightarrow> dfu_sys \<Rightarrow> int \<times> int \<times> dfu_sys" where
  "dfu_main ok num app host 0 s = (0, 0, s)"
| "dfu_main ok num app host (Suc n) s = dfu_iter ok num app (host n) (dfu_main ok num app host n s)"

definition dfu_boot :: dfu_sys where
  "dfu_boot = \<lparr>df_state = STATE_DFU_IDLE, df_buf = replicate CONTROL_BUFFER 0, df_len = 0, df_addr = 0,
     df_blocknum = 0, df_left = False, df_log = []\<rparr>"

section \<open>Flash lock\<close>

text \<open>\<open>flash_ok\<close>: every erase and program happens unlocked, and the flash ends locked.\<close>

fun flash_step :: "dfu_call \<Rightarrow> bool option \<Rightarrow> bool option" where
  "flash_step e None = None"
| "flash_step Flash_unlock (Some u) = Some True"
| "flash_step Flash_lock (Some u) = Some False"
| "flash_step (Flash_erase_page a) (Some u) = (if u then Some u else None)"
| "flash_step (Flash_program_half_word a w) (Some u) = (if u then Some u else None)"
| "flash_step (Jump_through a) (Some u) = (if u then None else Some u)"
| "flash_step _ (Some u) = Some u"

definition flash_run :: "dfu_call list \<Rightarrow> bool option \<Rightarrow> bool option" where
  "flash_run = fold flash_step"

lemma flash_run_append [simp]: "flash_run (xs @ ys) u = flash_run ys (flash_run xs u)"
  by (simp add: flash_run_def)

lemma flash_run_simps [simp]:
  "flash_run [] u = u" "flash_run (e # es) u = flash_run es (flash_step e u)"
  by (simp_all add: flash_run_def)

definition dfu_inv :: "dfu_sys \<Rightarrow> bool" where
  "dfu_inv s \<longleftrightarrow> flash_run (df_log s) (Some False) = Some False
     \<and> length (df_buf s) = CONTROL_BUFFER \<and> unat (df_len s) \<le> CONTROL_BUFFER \<and> df_state s \<noteq> STATE_DFU_ERROR"

text \<open>What the programming loop does: one half word per two bytes, in order.\<close>

lemma program_loop_log:
  "program_loop b i s = s\<lparr>df_log := df_log s @
     map (\<lambda>k. Flash_program_half_word (b + of_nat (i + 2 * k)) (le16 (df_buf s ! (i + 2 * k)) (df_buf s ! (i + 2 * k + 1))))
       [0..<(unat (df_len s) - i + 1) div 2]\<rparr>"
proof (induction b i s rule: program_loop.induct)
  case (1 b i s)
  show ?case
  proof (cases "i < unat (df_len s)")
    case False
    then show ?thesis by (subst program_loop.simps) simp
  next
    case True
    let ?f = "\<lambda>k. Flash_program_half_word (b + of_nat (i + 2 * k))
      (le16 (df_buf s ! (i + 2 * k)) (df_buf s ! (i + 2 * k + 1)))"
    let ?n = "(unat (df_len s) - (i + 2) + 1) div 2"
    have n: "(unat (df_len s) - i + 1) div 2 = Suc ?n" using True by presburger
    have m: "map ?f [0..<Suc ?n] = ?f 0 # map (\<lambda>k. ?f (Suc k)) [0..<?n]"
      by (simp only: upt_conv_Cons [of 0 "Suc ?n"] map_Suc_upt [symmetric] list.map map_map comp_def)
    show ?thesis
      using 1 [OF True] True unfolding n m
      by (subst program_loop.simps) (simp add: dfu_calls_def add.assoc)
  qed
qed

lemma flash_writes:
  "flash_run (map (\<lambda>k. Flash_program_half_word (a k) (w k)) ks) (Some True) = Some True"
  by (induction ks) simp_all

lemma program_loop_fields [simp]:
  "df_state (program_loop b i s) = df_state s" "df_buf (program_loop b i s) = df_buf s"
  "df_len (program_loop b i s) = df_len s" "df_addr (program_loop b i s) = df_addr s"
  "df_left (program_loop b i s) = df_left s" "df_blocknum (program_loop b i s) = df_blocknum s"
  by (simp_all add: program_loop_log)

text \<open>The data stage fits the control buffer, as the USB stack ensures.\<close>

fun wf_ev :: "usb_ev \<Rightarrow> bool" where
  "wf_ev (Control req buf (Some n)) \<longleftrightarrow> unat n \<le> CONTROL_BUFFER \<and> unat n \<le> length buf"
| "wf_ev _ \<longleftrightarrow> True"

lemma inv_complete: "dfu_inv s \<Longrightarrow> dfu_inv (usbdfu_getstatus_complete s)"
  by (auto simp: usbdfu_getstatus_complete_def dfu_inv_def dfu_calls_def leave_bootloader_def
      program_loop_log flash_writes Let_def split: dfu_state.split)

lemma inv_event:
  assumes "dfu_inv s" "wf_ev e"
  shows "dfu_inv (usb_event ok num e s)"
proof (cases e)
  case Status_complete
  then show ?thesis using assms inv_complete by simp
next
  case (Control req buf len)
  show ?thesis
  proof (cases len)
    case None
    then show ?thesis
      using assms Control
      by (auto simp: usbdfu_control_request_def dfu_inv_def Let_def split: dfu_request.split)
  next
    case (Some n)
    then have "length (memcpy_bytes (df_buf s) buf (unat n)) = CONTROL_BUFFER"
      using assms Control by (simp add: dfu_inv_def)
    then show ?thesis
      using assms Control Some
      by (auto simp: usbdfu_control_request_def dfu_inv_def usbdfu_getstatus_def Let_def
          split: dfu_request.split dfu_state.split)
  qed
qed

lemma inv_poll: "dfu_inv s \<Longrightarrow> \<forall>e\<in>set evs. wf_ev e \<Longrightarrow> dfu_inv (usbd_poll ok num evs s)"
  unfolding usbd_poll_def by (induction evs arbitrary: s) (simp_all add: inv_event)

lemma inv_iter:
  assumes "dfu_inv (snd (snd t))" "\<forall>e\<in>set evs. wf_ev e"
  shows "dfu_inv (snd (snd (dfu_iter ok num app evs t)))"
proof -
  obtain i timeout s where t: "t = (i, timeout, s)" by (cases t)
  have "dfu_inv (usbd_poll ok num evs s)" using inv_poll assms t by simp
  then show ?thesis
    using assms(1) by (simp add: t dfu_iter_def Let_def) (simp add: dfu_inv_def dfu_calls_def leave_bootloader_def)
qed

lemma boot_dfu_inv: "dfu_inv dfu_boot"
  by (simp add: dfu_inv_def dfu_boot_def)

lemma inv_main: "\<forall>k. \<forall>e\<in>set (host k). wf_ev e \<Longrightarrow> dfu_inv (snd (snd (dfu_main ok num app host n dfu_boot)))"
  by (induction n) (simp_all add: boot_dfu_inv inv_iter del: split_paired_All)

text \<open>
  C19. The flash lock: for every host and at every point of the main loop, every erase and every
  programmed half word lies between an unlock and the next lock, the flash is
  locked whenever the loop is at its top and when the application is entered, the download
  buffer has never been overrun, and the state machine has never entered the error state
  (so that \<open>DFU_CLRSTATUS\<close> has nothing to clear).
\<close>

theorem dfu_flash_locked:
  assumes "\<forall>k. \<forall>e\<in>set (host k). wf_ev e"
  shows "let s = snd (snd (dfu_main ok num app host n dfu_boot))
    in flash_run (df_log s) (Some False) = Some False \<and> length (df_buf s) = 2048
     \<and> unat (df_len s) \<le> 2048 \<and> df_state s \<noteq> STATE_DFU_ERROR"
  using inv_main [OF assms] by (simp add: Let_def dfu_inv_def CONTROL_BUFFER_def)

theorem dfu_flash_locked_witness:
  "flash_run (df_log (snd (snd (dfu_main 0 (\<lambda>s. 0) 0
      (\<lambda>k. [Control \<lparr>bmRequestType = 0x21, bRequest = DFU_DNLOAD, wValue = 2\<rparr> [1, 2] (Some 2)]) 7 dfu_boot))))
    (Some False) = Some False"
  using dfu_flash_locked
    [of "\<lambda>k. [Control \<lparr>bmRequestType = 0x21, bRequest = DFU_DNLOAD, wValue = 2\<rparr> [1, 2] (Some 2)]" 0 "\<lambda>s. 0" 0 7]
  by (simp add: Let_def CONTROL_BUFFER_def)

section \<open>Downloading\<close>

text \<open>The half words a log programs, and those an image at an address stands for.\<close>

fun programmed :: "dfu_call list \<Rightarrow> (u32 \<times> u16) list" where
  "programmed [] = []"
| "programmed (e # es) =
     (case e of Flash_program_half_word a w \<Rightarrow> (a, w) # programmed es | _ \<Rightarrow> programmed es)"

fun image_writes :: "u32 \<Rightarrow> bytes \<Rightarrow> (u32 \<times> u16) list" where
  "image_writes a (x # y # r) = (a, le16 x y) # image_writes (a + 2) r"
| "image_writes a r = []"

text \<open>A host sends a block and asks for the status; the status stage then completes.\<close>

definition send_block :: "u16 \<Rightarrow> bytes \<Rightarrow> usb_ev list" where
  "send_block bn d =
     [Control \<lparr>bmRequestType = 0x21, bRequest = DFU_DNLOAD, wValue = bn\<rparr> d (Some (of_nat (length d))),
      Control \<lparr>bmRequestType = 0xA1, bRequest = DFU_GETSTATUS, wValue = 0\<rparr> (replicate CONTROL_BUFFER 0) (Some 6),
      Status_complete]"

lemma programmed_append [simp]: "programmed (xs @ ys) = programmed xs @ programmed ys"
  by (induction xs) (simp_all split: dfu_call.split)

lemma programmed_writes:
  "programmed (map (\<lambda>k. Flash_program_half_word (a k) (w k)) ks) = map (\<lambda>k. (a k, w k)) ks"
  by (induction ks) simp_all

lemma image_writes_append:
  "even (length xs) \<Longrightarrow> image_writes a (xs @ ys) = image_writes a xs @ image_writes (a + of_nat (length xs)) ys"
  by (induction a xs rule: image_writes.induct) (simp_all add: add.assoc)

lemma image_writes_nth:
  "even (length d) \<Longrightarrow> image_writes a d =
     map (\<lambda>k. (a + of_nat (2 * k), le16 (d ! (2 * k)) (d ! (2 * k + 1)))) [0..<length d div 2]"
proof (induction a d rule: image_writes.induct)
  case (1 a x y r)
  have "[0..<length (x # y # r) div 2] = 0 # map Suc [0..<length r div 2]"
    by (simp add: upt_conv_Cons map_Suc_upt del: upt_Suc)
  then show ?case using 1 by (simp add: comp_def add.assoc)
qed simp_all

text \<open>One block: its effect on the whole state.\<close>

lemma send_block_effect:
  fixes bn :: u16
  assumes "dfu_inv s" "\<not> df_left s" "d \<noteq> []" "length d \<le> CONTROL_BUFFER"
  defines "s1 \<equiv> s\<lparr>df_blocknum := bn, df_len := of_nat (length d),
      df_buf := d @ drop (length d) (df_buf s), df_state := STATE_DFU_DNBUSY\<rparr>"
  shows "usbd_poll ok num (send_block bn d) s = usbdfu_getstatus_complete s1"
    and "unat (df_len s1) = length d"
proof -
  have l: "unat (of_nat (length d) :: u16) = length d"
    using assms(4) by (simp add: unat_of_nat CONTROL_BUFFER_def)
  then have nz: "(of_nat (length d) :: u16) \<noteq> 0"
    using assms(3) by (metis length_0_conv unat_0)
  show "usbd_poll ok num (send_block bn d) s = usbdfu_getstatus_complete s1"
    using assms(2) nz l
    by (simp add: usbd_poll_def send_block_def usbdfu_control_request_def usbdfu_getstatus_def s1_def
        memcpy_bytes_def Let_def)
  show "unat (df_len s1) = length d" using l by (simp add: s1_def)
qed

lemma program_block:
  assumes "dfu_inv s" "\<not> df_left s" "d \<noteq> []" "length d \<le> CONTROL_BUFFER" "even (length d)"
    and "bn \<noteq> 0"
  shows "let s' = usbd_poll ok num (send_block bn d) s
    in programmed (df_log s') = programmed (df_log s)
         @ image_writes (df_addr s + (ucast bn - 2) * 2048) d
     \<and> df_addr s' = df_addr s \<and> \<not> df_left s' \<and> dfu_inv s' \<and> df_state s' = STATE_DFU_DNLOAD_IDLE"
proof -
  note e = send_block_effect(1) [OF assms(1-4), of ok num bn] send_block_effect(2) [OF assms(1-4), of bn]
  have w: "\<forall>e\<in>set (send_block bn d). wf_ev e"
    using assms(4) by (simp add: send_block_def CONTROL_BUFFER_def unat_of_nat)
  have l: "unat (of_nat (length d) :: u16) = length d"
    using assms(4) by (simp add: unat_of_nat CONTROL_BUFFER_def)
  have n: "Suc (length d) div 2 = length d div 2" using assms(5) by simp
  have m: "map (\<lambda>k. (b + 2 * of_nat k, le16 ((d @ x) ! (2 * k)) ((d @ x) ! Suc (2 * k)))) [0..<length d div 2]
      = map (\<lambda>k. (b + 2 * of_nat k, le16 (d ! (2 * k)) (d ! Suc (2 * k)))) [0..<length d div 2]"
    for b :: u32 and x
    using assms(5) by (auto simp: nth_append)
  show ?thesis
    using inv_poll [OF assms(1) w, of ok num] assms(2,6) unfolding Let_def e(1)
    by (simp add: usbdfu_getstatus_complete_def dfu_calls_def program_loop_log programmed_writes
        l n m image_writes_nth [OF assms(5)] wTransferSize_def Let_def)
qed

text \<open>The command blocks.\<close>

lemma command_block:
  assumes "dfu_inv s" "\<not> df_left s" "c = CMD_ERASE \<or> c = CMD_SETADDR"
  shows "let s' = usbd_poll ok num (send_block 0 (c # bytes32 a)) s
    in df_log s' = df_log s @ [Flash_unlock] @ (if c = CMD_ERASE then [Flash_erase_page a] else []) @ [Flash_lock]
     \<and> df_addr s' = a \<and> \<not> df_left s' \<and> dfu_inv s' \<and> df_state s' = STATE_DFU_DNLOAD_IDLE"
proof -
  let ?d = "c # bytes32 a"
  have d: "?d \<noteq> []" "length ?d \<le> CONTROL_BUFFER" by (simp_all add: CONTROL_BUFFER_def)
  note e = send_block_effect(1) [OF assms(1,2) d, of ok num 0]
  have w: "\<forall>e\<in>set (send_block 0 ?d). wf_ev e"
    by (simp add: send_block_def CONTROL_BUFFER_def)
  have p: "prog_word (s\<lparr>df_blocknum := n, df_len := l, df_buf := ?d @ r, df_state := t, df_log := g\<rparr>) = a"
    for n l r t g
    by (simp add: prog_word_def bytes32_def)
  have ne: "CMD_ERASE \<noteq> CMD_SETADDR" by (simp add: CMD_ERASE_def CMD_SETADDR_def)
  show ?thesis
    using inv_poll [OF assms(1) w, of ok num] assms(2,3) ne unfolding Let_def e
    by (auto simp: usbdfu_getstatus_complete_def dfu_calls_def Let_def prog_word_def bytes32_def)
qed

text \<open>The blocks of an image, numbered from \<open>2 + k\<close>.\<close>

fun send_image :: "nat \<Rightarrow> bytes list \<Rightarrow> usb_ev list" where
  "send_image k [] = []"
| "send_image k (d # ds) = send_block (of_nat (2 + k)) d @ send_image (Suc k) ds"

fun wf_blocks :: "bytes list \<Rightarrow> bool" where
  "wf_blocks [] \<longleftrightarrow> True"
| "wf_blocks [d] \<longleftrightarrow> d \<noteq> [] \<and> even (length d) \<and> length d \<le> 2048"
| "wf_blocks (d # ds) \<longleftrightarrow> length d = 2048 \<and> wf_blocks ds"

lemma usbd_poll_append: "usbd_poll ok num (xs @ ys) s = usbd_poll ok num ys (usbd_poll ok num xs s)"
  by (simp add: usbd_poll_def)

lemma block_offset: "2 + k < 65536 \<Longrightarrow> (ucast (of_nat (2 + k) :: u16) - 2) * 2048 = (of_nat (2048 * k) :: u32)"
proof -
  assume "2 + k < 65536"
  then have "unat (of_nat (2 + k) :: u16) = 2 + k" by (simp only: unat_of_nat) simp
  then have "(ucast (of_nat (2 + k) :: u16) :: u32) = of_nat (2 + k)" by (metis of_nat_unat)
  then show ?thesis by (simp add: mult.commute)
qed

lemma block_number: "2 + k < 65536 \<Longrightarrow> (of_nat (2 + k) :: u16) \<noteq> 0"
proof -
  assume "2 + k < 65536"
  then have "unat (of_nat (2 + k) :: u16) = 2 + k" by (simp only: unat_of_nat) simp
  then show ?thesis by (metis add_is_0 unat_0 zero_neq_numeral)
qed

lemma image_download:
  assumes "dfu_inv s" "\<not> df_left s" "wf_blocks ds" "2 + k + length ds \<le> 65536"
  shows "let s' = usbd_poll ok num (send_image k ds) s
    in programmed (df_log s') = programmed (df_log s)
         @ image_writes (df_addr s + of_nat (2048 * k)) (concat ds)
     \<and> df_addr s' = df_addr s \<and> \<not> df_left s' \<and> dfu_inv s'"
  using assms
proof (induction ds arbitrary: k s rule: wf_blocks.induct)
  case 1
  then show ?case by (simp add: usbd_poll_def)
next
  case (2 d)
  have bn: "(of_nat (2 + k) :: u16) \<noteq> 0" using 2(4) by (intro block_number) simp
  show ?case
    using program_block [OF 2(1,2) _ _ _ bn, of d ok num] 2(3,4) block_offset [of k]
    by (simp add: CONTROL_BUFFER_def Let_def)
next
  case (3 d d' ds)
  let ?s = "usbd_poll ok num (send_block (of_nat (2 + k)) d) s"
  have bn: "(of_nat (2 + k) :: u16) \<noteq> 0" using 3(5) by (intro block_number) simp
  have ne: "d \<noteq> []" using 3(4) by (cases d) simp_all
  have b: "programmed (df_log ?s) = programmed (df_log s) @ image_writes (df_addr s + of_nat (2048 * k)) d"
      "df_addr ?s = df_addr s" "\<not> df_left ?s" "dfu_inv ?s"
    using program_block [OF 3(2,3) ne _ _ bn, of ok num] 3(4,5) block_offset [of k]
    by (auto simp: CONTROL_BUFFER_def Let_def)
  have "image_writes (df_addr s + of_nat (2048 * k)) (concat (d # d' # ds))
      = image_writes (df_addr s + of_nat (2048 * k)) d
        @ image_writes (df_addr s + of_nat (2048 * Suc k)) (concat (d' # ds))"
    using image_writes_append [of d "df_addr s + of_nat (2048 * k)" "concat (d' # ds)"] 3(4)
    by (simp add: algebra_simps)
  moreover have "send_image k (d # d' # ds) = send_block (of_nat (2 + k)) d @ send_image (Suc k) (d' # ds)"
    by (rule send_image.simps)
  ultimately show ?case
    using 3(1) [OF b(4,3), of "Suc k"] 3(4,5) b by (simp only: usbd_poll_append) (simp add: Let_def)
qed

text \<open>
  C15. A firmware download writes the image: after the command that sets the address \<open>a\<close> and the
  blocks of the image (2048 bytes each, the last one shorter and of even length), the half
  words programmed are those of the image, in order, at \<open>a\<close>, \<open>a + 2\<close>, ..., and nothing else
  is programmed.
\<close>

theorem dfu_download:
  assumes "dfu_inv s" and "\<not> df_left s" and "wf_blocks ds" and "length ds < 65534"
  shows "let s' = usbd_poll ok num (send_block 0 (CMD_SETADDR # bytes32 a) @ send_image 0 ds) s
    in programmed (df_log s') = programmed (df_log s) @ image_writes a (concat ds)
     \<and> df_addr s' = a \<and> \<not> df_left s' \<and> dfu_inv s'"
proof -
  let ?s = "usbd_poll ok num (send_block 0 (CMD_SETADDR # bytes32 a)) s"
  have c: "df_log ?s = df_log s @ [Flash_unlock, Flash_lock]" "df_addr ?s = a" "\<not> df_left ?s" "dfu_inv ?s"
    using command_block [OF assms(1,2), of CMD_SETADDR ok num a]
    by (simp_all add: Let_def CMD_SETADDR_def CMD_ERASE_def)
  have "programmed (df_log ?s) = programmed (df_log s)" by (simp add: c(1))
  then show ?thesis
    using image_download [OF c(4,3) assms(3), of 0 ok num] assms(4) c(2)
    by (simp add: usbd_poll_append Let_def)
qed

theorem dfu_download_witness:
  "programmed (df_log (usbd_poll 0 (\<lambda>s. 0)
      (send_block 0 (CMD_SETADDR # bytes32 APP_ADDRESS) @ send_image 0 [replicate 2048 0xAA, [0x34, 0x12]]) dfu_boot))
    = image_writes APP_ADDRESS (replicate 2048 0xAA @ [0x34, 0x12])"
  using dfu_download [OF boot_dfu_inv, of "[replicate 2048 0xAA, [0x34, 0x12]]" 0 "\<lambda>s. 0" APP_ADDRESS]
  by (simp add: Let_def dfu_boot_def)

text \<open>
  C35. The boot loader does not protect itself. An erase command erases the page at any
  address, the first pages of the flash (which hold the boot loader, and which its own DfuSe
  string declares read-only) included. A block is programmed relative to any address set before, whatever its number: at the address itself
  for block 2, and 2048 bytes below it for block 1, which for the application's own address is in the boot
  loader.
\<close>

theorem dfu_no_write_protection:
  assumes "dfu_inv s" and "\<not> df_left s" and "d \<noteq> []" and "length d \<le> CONTROL_BUFFER" and "even (length d)" and "bn \<noteq> 0"
  shows "df_log (usbd_poll ok num (send_block 0 (CMD_ERASE # bytes32 a)) s) =
      df_log s @ [Flash_unlock, Flash_erase_page a, Flash_lock]
    \<and> programmed (df_log (usbd_poll ok num (send_block 0 (CMD_SETADDR # bytes32 a) @ send_block bn d) s)) =
        programmed (df_log s) @ image_writes (if bn = 2 then a else a + (ucast bn - 2) * 2048) d
    \<and> APP_ADDRESS + (ucast (1 :: u16) - 2) * 2048 = 0x08001800"
proof -
  let ?s = "usbd_poll ok num (send_block 0 (CMD_SETADDR # bytes32 a)) s"
  note c = command_block [OF assms(1,2)]
  have s: "programmed (df_log ?s) = programmed (df_log s)" "df_addr ?s = a" "\<not> df_left ?s" "dfu_inv ?s"
    using c [of CMD_SETADDR ok num a] by (simp_all add: Let_def CMD_ERASE_def CMD_SETADDR_def)
  have "programmed (df_log (usbd_poll ok num (send_block bn d) ?s))
      = programmed (df_log s) @ image_writes (a + (ucast bn - 2) * 2048) d"
    using program_block [OF s(4,3) assms(3-6), of ok num] s(1,2) by (simp add: Let_def)
  then show ?thesis
    using c [of CMD_ERASE ok num a] by (simp add: Let_def usbd_poll_append APP_ADDRESS_def)
qed

theorem dfu_no_write_protection_witness:
  "df_log (usbd_poll 0 (\<lambda>s. 0) (send_block 0 (CMD_ERASE # bytes32 0x08000000)) dfu_boot) =
     [Flash_unlock, Flash_erase_page 0x08000000, Flash_lock]
   \<and> programmed (df_log (usbd_poll 0 (\<lambda>s. 0) (send_block 0 (CMD_SETADDR # bytes32 0x08000000) @ send_block 2 [1, 2]) dfu_boot)) =
     image_writes 0x08000000 [1, 2]"
  using dfu_no_write_protection [OF boot_dfu_inv, of "[1, 2]" 2 0 "\<lambda>s. 0" "0x08000000"]
  by (simp add: dfu_boot_def CONTROL_BUFFER_def)

section \<open>The timeout\<close>

lemma poll_silent [simp]: "usbd_poll ok num [] s = s"
  by (simp add: usbd_poll_def)

lemma main_idle:
  assumes "app AND 0x2FFE0000 = 0x20000000" "n < 1200015"
  shows "\<exists>s. dfu_main ok num app (\<lambda>k. []) n dfu_boot = (int (n mod 80001), int (n div 80001), s)
    \<and> \<not> df_left s \<and> df_state s = STATE_DFU_IDLE"
  using assms(2)
proof (induction n)
  case 0
  show ?case by (simp add: dfu_boot_def)
next
  case (Suc n)
  then obtain s where s: "dfu_main ok num app (\<lambda>k. []) n dfu_boot = (int (n mod 80001), int (n div 80001), s)"
      "\<not> df_left s" "df_state s = STATE_DFU_IDLE"
    by auto
  show ?case
  proof (cases "n mod 80001 = 80000")
    case True
    then have d: "Suc n mod 80001 = 0" "Suc n div 80001 = Suc (n div 80001)"
      by (simp_all add: mod_Suc div_Suc)
    then have "n div 80001 \<le> 13" using Suc.prems by linarith
    then show ?thesis
      using s d True assms(1) by (simp add: dfu_iter_def Let_def dfu_calls_def)
  next
    case False
    then have d: "Suc n mod 80001 = Suc (n mod 80001)" "Suc n div 80001 = n div 80001"
      by (simp_all add: mod_Suc div_Suc)
    have "n mod 80001 < 80000" using False mod_less_divisor [of 80001 n] by linarith
    then show ?thesis using s d by (simp add: dfu_iter_def)
  qed
qed

lemma left_stays:
  "df_left (snd (snd (dfu_main ok num app host m s))) \<Longrightarrow> m \<le> n \<Longrightarrow>
   dfu_main ok num app host n s = dfu_main ok num app host m s"
proof (induction n)
  case (Suc n)
  show ?case
  proof (cases "m = Suc n")
    case False
    then have "dfu_main ok num app host n s = dfu_main ok num app host m s" using Suc by simp
    then show ?thesis using Suc.prems(1) by (cases "dfu_main ok num app host m s") (simp add: dfu_iter_def)
  qed simp
qed simp

lemma main_no_app:
  assumes "app AND 0x2FFE0000 \<noteq> 0x20000000"
  shows "\<not> df_left (snd (snd (dfu_main ok num app (\<lambda>k. []) n dfu_boot)))"
proof (induction n)
  case (Suc n)
  then show ?case
    using assms by (cases "dfu_main ok num app (\<lambda>k. []) n dfu_boot") (simp add: dfu_iter_def Let_def dfu_calls_def)
qed (simp add: dfu_boot_def)

text \<open>
  C21. Without traffic from a host the boot loader starts the application after exactly 15
  periods of 80001 polls, provided the application looks valid (its initial stack pointer
  lies in RAM), and not before. Without a valid application it never leaves.
\<close>

theorem dfu_timeout:
  "df_left (snd (snd (dfu_main ok num app (\<lambda>k. []) n dfu_boot))) \<longleftrightarrow>
     app AND 0x2FFE0000 = 0x20000000 \<and> 15 * 80001 \<le> n"
proof (cases "app AND 0x2FFE0000 = 0x20000000")
  case False
  then show ?thesis using main_no_app by simp
next
  case True
  show ?thesis
  proof (cases "n < 1200015")
    case less: True
    then show ?thesis using main_idle [OF True less, of ok num] by auto
  next
    case False
    obtain s where s: "dfu_main ok num app (\<lambda>k. []) 1200014 dfu_boot = (80000, 14, s)"
        "\<not> df_left s" "df_state s = STATE_DFU_IDLE"
      using main_idle [OF True, of 1200014 ok num] by auto
    have "dfu_main ok num app (\<lambda>k. []) (Suc 1200014) dfu_boot =
        (0, 15, leave_bootloader (dfu_calls [Led_toggle 14, Led_toggle 15] s))"
      using s True by (simp only: dfu_main.simps(2)) (simp add: dfu_iter_def Let_def dfu_calls_def)
    then have l: "df_left (snd (snd (dfu_main ok num app (\<lambda>k. []) (Suc 1200014) dfu_boot)))"
      by (simp add: leave_bootloader_def)
    from left_stays [OF this, of n] show ?thesis using l False True by simp
  qed
qed

end
