(* ===== verification/Dfu_Usb.thy ===== *)
theory Dfu_Usb
  imports Dfu
begin

text \<open>
  What the boot loader tells the host about itself (the descriptors and strings of \<^verbatim>\<open>bootloader/usbdfu.c\<close>) and the
  set-up in its \<open>main\<close>. Sizes and type codes of descriptors come from libopencm3 headers and are arguments. The
  layout string is read by \<open>dfuse_layout\<close>, after the format ST's DfuSe tools use.
\<close>

section \<open>Descriptors\<close>

record usb_device_descriptor =
  dv_bLength :: u8
  dv_bDescriptorType :: u8
  dv_bcdUSB :: u16
  dv_bDeviceClass :: u8
  dv_bDeviceSubClass :: u8
  dv_bDeviceProtocol :: u8
  dv_bMaxPacketSize0 :: u8
  dv_idVendor :: u16
  dv_idProduct :: u16
  dv_bcdDevice :: u16
  dv_iManufacturer :: u8
  dv_iProduct :: u8
  dv_iSerialNumber :: u8
  dv_bNumConfigurations :: u8

definition dev :: "u8 \<Rightarrow> u8 \<Rightarrow> usb_device_descriptor" where
  "dev USB_DT_DEVICE_SIZE USB_DT_DEVICE =
     \<lparr>dv_bLength = USB_DT_DEVICE_SIZE, dv_bDescriptorType = USB_DT_DEVICE, dv_bcdUSB = 0x0200, dv_bDeviceClass = 0,
      dv_bDeviceSubClass = 0, dv_bDeviceProtocol = 0, dv_bMaxPacketSize0 = 64, dv_idVendor = 0x0483,
      dv_idProduct = 0xDF11, dv_bcdDevice = 0x0200, dv_iManufacturer = 1, dv_iProduct = 2, dv_iSerialNumber = 0,
      dv_bNumConfigurations = 1\<rparr>"

record usb_dfu_descriptor =
  du_bLength :: u8
  du_bDescriptorType :: u8
  du_bmAttributes :: u8
  du_wDetachTimeout :: u16
  du_wTransferSize :: u16
  du_bcdDFUVersion :: u16

definition dfu_function :: "u8 \<Rightarrow> u8 \<Rightarrow> u8 \<Rightarrow> u8 \<Rightarrow> usb_dfu_descriptor" where
  "dfu_function sz DFU_FUNCTIONAL USB_DFU_CAN_DOWNLOAD USB_DFU_WILL_DETACH =
     \<lparr>du_bLength = sz, du_bDescriptorType = DFU_FUNCTIONAL,
      du_bmAttributes = USB_DFU_CAN_DOWNLOAD OR USB_DFU_WILL_DETACH, du_wDetachTimeout = 255,
      du_wTransferSize = wTransferSize, du_bcdDFUVersion = 0x011A\<rparr>"

record usb_interface_descriptor =
  if_bLength :: u8
  if_bDescriptorType :: u8
  if_bInterfaceNumber :: u8
  if_bAlternateSetting :: u8
  if_bNumEndpoints :: u8
  if_bInterfaceClass :: u8
  if_bInterfaceSubClass :: u8
  if_bInterfaceProtocol :: u8
  if_iInterface :: u8
  if_extra :: "usb_dfu_descriptor list"

definition iface :: "u8 \<Rightarrow> u8 \<Rightarrow> usb_dfu_descriptor \<Rightarrow> usb_interface_descriptor" where
  "iface USB_DT_INTERFACE_SIZE USB_DT_INTERFACE func =
     \<lparr>if_bLength = USB_DT_INTERFACE_SIZE, if_bDescriptorType = USB_DT_INTERFACE, if_bInterfaceNumber = 0,
      if_bAlternateSetting = 0, if_bNumEndpoints = 0, if_bInterfaceClass = 0xFE, if_bInterfaceSubClass = 1,
      if_bInterfaceProtocol = 2, if_iInterface = 4, if_extra = [func]\<rparr>"

record usb_config_descriptor =
  cf_bLength :: u8
  cf_bDescriptorType :: u8
  cf_wTotalLength :: u16
  cf_bNumInterfaces :: u8
  cf_bConfigurationValue :: u8
  cf_iConfiguration :: u8
  cf_bmAttributes :: u8
  cf_bMaxPower :: u8
  cf_interface :: "usb_interface_descriptor list"

definition config :: "u8 \<Rightarrow> u8 \<Rightarrow> usb_interface_descriptor \<Rightarrow> usb_config_descriptor" where
  "config USB_DT_CONFIGURATION_SIZE USB_DT_CONFIGURATION itf =
     \<lparr>cf_bLength = USB_DT_CONFIGURATION_SIZE, cf_bDescriptorType = USB_DT_CONFIGURATION, cf_wTotalLength = 0,
      cf_bNumInterfaces = 1, cf_bConfigurationValue = 1, cf_iConfiguration = 0, cf_bmAttributes = 0xC0,
      cf_bMaxPower = 0x32, cf_interface = [itf]\<rparr>"

definition usb_strings :: "string list" where
  "usb_strings = [''www.fabiobaltieri.com'', ''STM32 DFU'', ''666'',
     ''@Internal Flash   /0x08000000/8*001Ka,120*001Kg'']"

text \<open>\<open>NUM_STRINGS\<close> is the count passed to \<open>usbd_init\<close>; a string index counts from 1, and 0 is no string.\<close>

definition NUM_STRINGS :: nat where
  "NUM_STRINGS = 4"

definition usb_string :: "u8 \<Rightarrow> string option" where
  "usb_string i = (if 0 < i \<and> unat i \<le> NUM_STRINGS then Some (usb_strings ! (unat i - 1)) else None)"

section \<open>Set-up\<close>

datatype setup_call =
    Clock_enable string | Afio_remap | Gpio_output nat | Gpio_set nat | Usbd_init nat | Usbd_set_disconnect bool
  | Nops nat | Usbd_set_control_buffer_size nat | Usbd_register_control_callback

definition dfu_setup :: "setup_call list" where
  "dfu_setup =
     [Clock_enable ''IOPA'', Clock_enable ''IOPC'', Clock_enable ''AFIO'', Afio_remap,
      Gpio_output 14, Gpio_output 15, Gpio_set 14, Gpio_set 15, Clock_enable ''OTGFS'',
      Usbd_init NUM_STRINGS, Usbd_set_disconnect True, Nops 8000, Usbd_set_disconnect False,
      Usbd_set_control_buffer_size CONTROL_BUFFER, Usbd_register_control_callback]"

text \<open>The peripheral a call needs; port C is \<open>IOPC\<close>.\<close>

fun call_needs :: "setup_call \<Rightarrow> string option" where
  "call_needs Afio_remap = Some ''AFIO''"
| "call_needs (Gpio_output n) = Some ''IOPC''"
| "call_needs (Gpio_set n) = Some ''IOPC''"
| "call_needs (Usbd_init n) = Some ''OTGFS''"
| "call_needs (Usbd_set_disconnect b) = Some ''OTGFS''"
| "call_needs (Usbd_set_control_buffer_size n) = Some ''OTGFS''"
| "call_needs Usbd_register_control_callback = Some ''OTGFS''"
| "call_needs c = None"

text \<open>The clocks that run after the calls; \<open>None\<close> if a call needs one that does not run.\<close>

fun clocks_after :: "setup_call list \<Rightarrow> string list \<Rightarrow> string list option" where
  "clocks_after [] on = Some on"
| "clocks_after (Clock_enable c # cs) on = clocks_after cs (on @ [c])"
| "clocks_after (c # cs) on =
     (case call_needs c of
        None \<Rightarrow> clocks_after cs on
      | Some p \<Rightarrow> if p \<in> set on then clocks_after cs on else None)"

fun clocks_off :: "dfu_call list \<Rightarrow> string list \<Rightarrow> string list" where
  "clocks_off [] on = on"
| "clocks_off (Clock_off c # cs) on = clocks_off cs (filter (\<lambda>d. d \<noteq> c) on)"
| "clocks_off (c # cs) on = clocks_off cs on"

section \<open>The layout string\<close>

definition is_dec :: "char \<Rightarrow> bool" where
  "is_dec c \<longleftrightarrow> c \<in> set ''0123456789''"

definition dec_value :: "string \<Rightarrow> nat" where
  "dec_value s = foldl (\<lambda>a c. 10 * a + (of_char c - 48)) 0 s"

definition hex_value :: "string \<Rightarrow> nat" where
  "hex_value s = foldl (\<lambda>a c. 16 * a + (if is_dec c then of_char c - 48 else of_char c - 55)) 0 s"

text \<open>One entry, as in \<open>8*001Ka\<close>: so many sectors of so many kilobytes, with the letter of their type.\<close>

definition dfuse_entry :: "string \<Rightarrow> (nat \<times> char) option" where
  "dfuse_entry s =
     (let n = takeWhile is_dec s; r = drop (length n) s;
          k = takeWhile is_dec (tl r); t = drop (length k) (tl r)
      in if r \<noteq> [] \<and> hd r = CHR ''*'' \<and> length t = 2 \<and> hd t = CHR ''K''
         then Some (dec_value n * (dec_value k * 1024), t ! 1) else None)"

fun dfuse_entries :: "nat \<Rightarrow> string list \<Rightarrow> (nat \<times> nat \<times> char) list option" where
  "dfuse_entries a [] = Some []"
| "dfuse_entries a (s # ss) =
     (case dfuse_entry s of
        None \<Rightarrow> None
      | Some (sz, t) \<Rightarrow> map_option ((#) (a, sz, t)) (dfuse_entries (a + sz) ss))"

text \<open>The parts of a string between separators.\<close>

fun split_at :: "char \<Rightarrow> string \<Rightarrow> string list" where
  "split_at sep [] = [[]]"
| "split_at sep (c # cs) =
     (if c = sep then [] # split_at sep cs
      else case split_at sep cs of [] \<Rightarrow> [[c]] | p # ps \<Rightarrow> (c # p) # ps)"

text \<open>The regions of a layout: address, size and type of each.\<close>

definition dfuse_layout :: "string \<Rightarrow> (nat \<times> nat \<times> char) list option" where
  "dfuse_layout s =
     (case split_at CHR ''/'' s of
        [name, addr, entries] \<Rightarrow>
          if take 1 name = ''@'' \<and> take 2 addr = ''0x''
          then dfuse_entries (hex_value (drop 2 addr)) (split_at CHR '','' entries) else None
      | _ \<Rightarrow> None)"

text \<open>
  What the boot loader declares fits what it does: every string its descriptors name exists; the interface string, read as a DfuSe
  layout, declares 8 KB of type \<open>a\<close> (readable only) from the start of the flash and 120 KB of type \<open>g\<close> (readable,
  erasable, writable) that begin exactly at the address of the application; and a transfer of the declared size fills the control buffer
  and the download buffer without overrunning them.
\<close>

theorem dfu_descriptors:
  "usb_string (dv_iManufacturer (dev l t)) = Some ''www.fabiobaltieri.com''
    \<and> usb_string (dv_iProduct (dev l t)) = Some ''STM32 DFU''
    \<and> usb_string (dv_iSerialNumber (dev l t)) = None \<and> dv_iSerialNumber (dev l t) = 0
    \<and> NUM_STRINGS = length usb_strings
    \<and> Option.bind (usb_string (if_iInterface (iface l t f))) dfuse_layout
        = Some [(0x08000000, 8 * 1024, CHR ''a''), (unat APP_ADDRESS, 120 * 1024, CHR ''g'')]
    \<and> if_bNumEndpoints (iface l t f) = 0
    \<and> length (cf_interface (config l t (iface l t f))) = unat (cf_bNumInterfaces (config l t (iface l t f)))
    \<and> unat (du_wTransferSize (dfu_function l t c w)) = CONTROL_BUFFER
    \<and> length (df_buf dfu_boot) = CONTROL_BUFFER"
proof -
  have "dfuse_layout ''@Internal Flash   /0x08000000/8*001Ka,120*001Kg''
      = Some [(0x08000000, 8 * 1024, CHR ''a''), (unat APP_ADDRESS, 120 * 1024, CHR ''g'')]"
    by (simp add: dfuse_layout_def dfuse_entry_def hex_value_def dec_value_def is_dec_def Let_def APP_ADDRESS_def)
  then show ?thesis
    by (simp add: dev_def iface_def config_def dfu_function_def usb_string_def usb_strings_def NUM_STRINGS_def
        wTransferSize_def CONTROL_BUFFER_def dfu_boot_def)
qed

text \<open>
  Set-up and departure of the boot loader: every peripheral is clocked before the first call that needs it, both LEDs are lit, and when the
  boot loader leaves it has switched off again all it used but port A, and darkened the LEDs, before it
  jumps to the application.
\<close>

theorem dfu_setup_departure:
  "clocks_after dfu_setup [] = Some [''IOPA'', ''IOPC'', ''AFIO'', ''OTGFS'']
    \<and> (\<exists>es. df_log (leave_bootloader s) = df_log s @ es @ [Load_msp APP_ADDRESS, Jump_through (APP_ADDRESS + 4)]
        \<and> clocks_off es [''IOPA'', ''IOPC'', ''AFIO'', ''OTGFS''] = [''IOPA'']
        \<and> hd es = Usbd_disconnect \<and> {Led_clear 14, Led_clear 15} \<subseteq> set es
        \<and> Set_VTOR 0x2000 \<in> set es)
    \<and> {Gpio_set 14, Gpio_set 15} \<subseteq> set dfu_setup"
proof -
  let ?es = "[Usbd_disconnect, Led_clear 14, Led_clear 15, Clock_off ''IOPC'', Clock_off ''AFIO'',
     Clock_off ''OTGFS'', Set_VTOR 0x2000]"
  have "df_log (leave_bootloader s) = df_log s @ ?es @ [Load_msp APP_ADDRESS, Jump_through (APP_ADDRESS + 4)]"
    by (simp add: leave_bootloader_def dfu_calls_def APP_ADDRESS_def)
  then show ?thesis
    by (intro conjI exI [of _ ?es]) (simp_all add: dfu_setup_def)
qed

end
