(* ===== verification/Dfu_Protocol.thy ===== *)
theory Dfu_Protocol
  imports Dfu
begin

text \<open>
  The boot loader against the protocol it implements. \<open>spec_next\<close> is the part of the state machine of the USB
  DFU 1.1 specification (section A.2) that a downloading host may use, with the DfuSe convention for block numbers
  and commands: for every state, which transfers a host may make, what the device answers and
  what happens to the flash. \<open>dfu_session\<close> is the device's side of a session: each control transfer
  runs \<open>usbdfu_control_request\<close> and, when that sets it, the completion callback. The theorem
  is a simulation: in every session that respects the protocol the device answers and programs
  exactly as specified.
\<close>

section \<open>Transfers\<close>

datatype dfu_xfer =
    Download u16 bytes | Download_end | Getstatus | Getstate | Abort | Clrstatus | Upload

text \<open>The set-up packet, the buffer and the length the USB stack passes; \<open>cb\<close> is its control buffer.\<close>

fun setup_of :: "bytes \<Rightarrow> dfu_xfer \<Rightarrow> usb_setup_data \<times> bytes \<times> u16 option" where
  "setup_of cb (Download n d) =
     (\<lparr>bmRequestType = 0x21, bRequest = DFU_DNLOAD, wValue = n\<rparr>, d, Some (of_nat (length d)))"
| "setup_of cb Download_end = (\<lparr>bmRequestType = 0x21, bRequest = DFU_DNLOAD, wValue = 0\<rparr>, cb, Some 0)"
| "setup_of cb Getstatus = (\<lparr>bmRequestType = 0xA1, bRequest = DFU_GETSTATUS, wValue = 0\<rparr>, cb, Some 6)"
| "setup_of cb Getstate = (\<lparr>bmRequestType = 0xA1, bRequest = DFU_GETSTATE, wValue = 0\<rparr>, cb, Some 1)"
| "setup_of cb Abort = (\<lparr>bmRequestType = 0x21, bRequest = DFU_ABORT, wValue = 0\<rparr>, cb, Some 0)"
| "setup_of cb Clrstatus = (\<lparr>bmRequestType = 0x21, bRequest = DFU_CLRSTATUS, wValue = 0\<rparr>, cb, Some 0)"
| "setup_of cb Upload = (\<lparr>bmRequestType = 0xA1, bRequest = DFU_UPLOAD, wValue = 0\<rparr>, cb, Some 0)"

text \<open>
  One control transfer: the answer is \<open>None\<close> for a stall, and otherwise the data of an IN transfer.
  The completion callback runs after the status stage. A device that has left does not answer.
\<close>

definition transfer ::
    "u8 \<Rightarrow> (dfu_state \<Rightarrow> u8) \<Rightarrow> bytes \<Rightarrow> dfu_xfer \<Rightarrow> dfu_sys \<Rightarrow> bytes option \<times> dfu_sys" where
  "transfer ok num cb x s =
     (if df_left s then (None, s)
      else let (req, buf, len) = setup_of cb x
        in case usbdfu_control_request ok num req buf len s of
             None \<Rightarrow> (None, s)
           | Some (r, s) \<Rightarrow>
               (if dr_ret r = 0 then None
                else Some (if bmRequestType req AND 0x80 = 0 then []
                           else case dr_len r of None \<Rightarrow> [] | Some n \<Rightarrow> take (unat n) (dr_buf r)),
                if dr_complete r then usbdfu_getstatus_complete s else s))"

fun dfu_session ::
    "u8 \<Rightarrow> (dfu_state \<Rightarrow> u8) \<Rightarrow> bytes \<Rightarrow> dfu_xfer list \<Rightarrow> dfu_sys \<Rightarrow> bytes option list \<times> dfu_sys" where
  "dfu_session ok num cb [] s = ([], s)"
| "dfu_session ok num cb (x # xs) s =
     (let (r, s) = transfer ok num cb x s; (rs, s) = dfu_session ok num cb xs s in (r # rs, s))"

section \<open>The specification\<close>

datatype flash_op = Erase u32 | Program u32 u16

text \<open>A block that has been sent waits in \<open>Sync_new\<close>; \<open>Sync_done\<close> is the wait for its end.\<close>

datatype spec_phase = Idle | Sync_new u16 bytes | Sync_done | Download_idle | Manifest_sync | Manifest

record dfu_spec =
  sp_phase :: spec_phase
  sp_addr :: u32
  sp_flash :: "flash_op list"

datatype spec_reply = Ack | Status u32 dfu_state | State dfu_state

text \<open>What a host may send: a command of five bytes as block 0, half words as blocks from 2 on.\<close>

definition block_ok :: "u16 \<Rightarrow> bytes \<Rightarrow> bool" where
  "block_ok n d \<longleftrightarrow>
     (if n = 0 then length d = 5 \<and> (d ! 0 = CMD_ERASE \<or> d ! 0 = CMD_SETADDR)
      else n \<noteq> 1 \<and> d \<noteq> [] \<and> even (length d) \<and> length d \<le> CONTROL_BUFFER)"

definition spec_block :: "u16 \<Rightarrow> bytes \<Rightarrow> dfu_spec \<Rightarrow> dfu_spec" where
  "spec_block n d sp =
     (let a = le32 (d ! 1) (d ! 2) (d ! 3) (d ! 4)
      in if n = 0
         then sp\<lparr>sp_addr := a, sp_flash := sp_flash sp @ (if d ! 0 = CMD_ERASE then [Erase a] else [])\<rparr>
         else sp\<lparr>sp_flash := sp_flash sp
                @ map (\<lambda>(a, w). Program a w) (image_writes (sp_addr sp + (ucast n - 2) * 2048) d)\<rparr>)"

text \<open>
  \<open>None\<close>: the host must not send this transfer now. After the status that announces \<open>dfuDNBUSY\<close> the device of
  the specification passes through \<open>dfuDNLOAD-SYNC\<close>; a \<open>DFU_GETSTATE\<close> there already shows \<open>dfuDNLOAD-IDLE\<close>, the
  shortcut the comment in the code names.
\<close>

fun spec_next :: "dfu_xfer \<Rightarrow> dfu_spec \<Rightarrow> (spec_reply \<times> dfu_spec) option" where
  "spec_next (Download n d) sp =
     (if (sp_phase sp = Idle \<or> sp_phase sp = Download_idle) \<and> block_ok n d
      then Some (Ack, sp\<lparr>sp_phase := Sync_new n d\<rparr>) else None)"
| "spec_next Download_end sp =
     (if sp_phase sp = Download_idle then Some (Ack, sp\<lparr>sp_phase := Manifest_sync\<rparr>) else None)"
| "spec_next Getstatus sp =
     (case sp_phase sp of
        Idle \<Rightarrow> Some (Status 0 STATE_DFU_IDLE, sp)
      | Sync_new n d \<Rightarrow> Some (Status 100 STATE_DFU_DNBUSY, (spec_block n d sp)\<lparr>sp_phase := Sync_done\<rparr>)
      | Sync_done \<Rightarrow> Some (Status 0 STATE_DFU_DNLOAD_IDLE, sp\<lparr>sp_phase := Download_idle\<rparr>)
      | Download_idle \<Rightarrow> Some (Status 0 STATE_DFU_DNLOAD_IDLE, sp)
      | Manifest_sync \<Rightarrow> Some (Status 0 STATE_DFU_MANIFEST, sp\<lparr>sp_phase := Manifest\<rparr>)
      | Manifest \<Rightarrow> None)"
| "spec_next Getstate sp =
     (case sp_phase sp of
        Idle \<Rightarrow> Some (State STATE_DFU_IDLE, sp)
      | Sync_new n d \<Rightarrow> Some (State STATE_DFU_DNLOAD_SYNC, sp)
      | Sync_done \<Rightarrow> Some (State STATE_DFU_DNLOAD_IDLE, sp)
      | Download_idle \<Rightarrow> Some (State STATE_DFU_DNLOAD_IDLE, sp)
      | Manifest_sync \<Rightarrow> Some (State STATE_DFU_MANIFEST_SYNC, sp)
      | Manifest \<Rightarrow> None)"
| "spec_next Abort sp =
     (if sp_phase sp = Idle \<or> sp_phase sp = Download_idle then Some (Ack, sp\<lparr>sp_phase := Idle\<rparr>) else None)"
| "spec_next Clrstatus sp = None"
| "spec_next Upload sp = None"

fun spec_run :: "dfu_xfer list \<Rightarrow> dfu_spec \<Rightarrow> (spec_reply list \<times> dfu_spec) option" where
  "spec_run [] sp = Some ([], sp)"
| "spec_run (x # xs) sp =
     (case spec_next x sp of
        None \<Rightarrow> None
      | Some (r, sp) \<Rightarrow> (case spec_run xs sp of None \<Rightarrow> None | Some (rs, sp) \<Rightarrow> Some (r # rs, sp)))"

definition spec_boot :: dfu_spec where
  "spec_boot = \<lparr>sp_phase = Idle, sp_addr = 0, sp_flash = []\<rparr>"

text \<open>Answers on the wire: a status is six bytes, with a poll timeout of 24 bits.\<close>

fun answer :: "u8 \<Rightarrow> (dfu_state \<Rightarrow> u8) \<Rightarrow> spec_reply \<Rightarrow> bytes" where
  "answer ok num Ack = []"
| "answer ok num (Status t st) = [ok, ucast t, ucast (drop_bit 8 t), ucast (drop_bit 16 t), num st, 0]"
| "answer ok num (State st) = [num st]"

section \<open>The simulation\<close>

fun flash_ops :: "dfu_call list \<Rightarrow> flash_op list" where
  "flash_ops [] = []"
| "flash_ops (e # es) =
     (case e of Flash_erase_page a \<Rightarrow> [Erase a] | Flash_program_half_word a w \<Rightarrow> [Program a w] | _ \<Rightarrow> []) @ flash_ops es"

lemma flash_ops_append [simp]: "flash_ops (xs @ ys) = flash_ops xs @ flash_ops ys"
  by (induction xs) simp_all

lemma flash_ops_writes:
  "flash_ops (map (\<lambda>k. Flash_program_half_word (a k) (w k)) ks) = map (\<lambda>k. Program (a k) (w k)) ks"
  by (induction ks) simp_all

text \<open>Which state of the code stands for which phase.\<close>

fun phase_sim :: "spec_phase \<Rightarrow> dfu_sys \<Rightarrow> bool" where
  "phase_sim Idle s \<longleftrightarrow> df_state s = STATE_DFU_IDLE \<and> \<not> df_left s"
| "phase_sim (Sync_new n d) s \<longleftrightarrow> df_state s = STATE_DFU_DNLOAD_SYNC \<and> \<not> df_left s \<and> block_ok n d
     \<and> df_blocknum s = n \<and> unat (df_len s) = length d \<and> take (length d) (df_buf s) = d"
| "phase_sim Sync_done s \<longleftrightarrow> df_state s = STATE_DFU_DNLOAD_IDLE \<and> \<not> df_left s"
| "phase_sim Download_idle s \<longleftrightarrow> df_state s = STATE_DFU_DNLOAD_IDLE \<and> \<not> df_left s"
| "phase_sim Manifest_sync s \<longleftrightarrow> df_state s = STATE_DFU_MANIFEST_SYNC \<and> \<not> df_left s"
| "phase_sim Manifest s \<longleftrightarrow> df_state s = STATE_DFU_MANIFEST \<and> df_left s"

definition dfu_sim :: "dfu_spec \<Rightarrow> dfu_sys \<Rightarrow> bool" where
  "dfu_sim sp s \<longleftrightarrow> phase_sim (sp_phase sp) s \<and> df_addr s = sp_addr sp \<and> flash_ops (df_log s) = sp_flash sp
     \<and> length (df_buf s) = CONTROL_BUFFER"

lemma take_nth: "take n xs = d \<Longrightarrow> k < n \<Longrightarrow> xs ! k = d ! k"
  by auto

lemma block_done:
  assumes "dfu_sim sp s" "sp_phase sp = Sync_new n d"
  shows "dfu_sim ((spec_block n d sp)\<lparr>sp_phase := Sync_done\<rparr>)
    (usbdfu_getstatus_complete (s\<lparr>df_state := STATE_DFU_DNBUSY\<rparr>))"
proof -
  let ?s = "s\<lparr>df_state := STATE_DFU_DNBUSY, df_log := df_log s @ [Flash_unlock]\<rparr>"
  have s: "\<not> df_left s" "block_ok n d" "df_blocknum s = n" "unat (df_len s) = length d"
    "take (length d) (df_buf s) = d" "df_addr s = sp_addr sp" "flash_ops (df_log s) = sp_flash sp"
    "length (df_buf s) = CONTROL_BUFFER"
    using assms by (simp_all add: dfu_sim_def)
  have nth: "df_buf s ! k = d ! k" if "k < length d" for k by (rule take_nth [OF s(5) that])
  show ?thesis
  proof (cases "n = 0")
    case True
    then have "length d = 5" "d ! 0 = CMD_ERASE \<or> d ! 0 = CMD_SETADDR" using s(2) by (simp_all add: block_ok_def)
    moreover have "CMD_SETADDR \<noteq> CMD_ERASE" by (simp add: CMD_ERASE_def CMD_SETADDR_def)
    ultimately show ?thesis
      using s True
      by (auto simp: usbdfu_getstatus_complete_def dfu_calls_def prog_word_def nth dfu_sim_def spec_block_def Let_def)
  next
    case False
    then have d: "even (length d)" using s(2) by (simp add: block_ok_def)
    have half: "Suc (length d) div 2 = length d div 2" using d by simp
    have m: "map (\<lambda>k. Program (b + 2 * of_nat k) (le16 (df_buf s ! (2 * k)) (df_buf s ! Suc (2 * k)))) [0..<length d div 2]
        = map (\<lambda>(a, w). Program a w) (image_writes b d)" for b
      unfolding image_writes_nth [OF d] using d by (auto simp: nth)
    show ?thesis
      using s False
      by (simp add: usbdfu_getstatus_complete_def dfu_calls_def program_loop_log flash_ops_writes half m
          dfu_sim_def spec_block_def Let_def wTransferSize_def)
  qed
qed

lemma block_sent:
  assumes "block_ok n d"
  shows "unat (of_nat (length d) :: u16) = length d" "(of_nat (length d) :: u16) \<noteq> 0" "length d \<le> CONTROL_BUFFER"
proof -
  have "d \<noteq> []" and l: "length d \<le> CONTROL_BUFFER"
    using assms by (auto simp: block_ok_def CONTROL_BUFFER_def split: if_splits)
  then show "unat (of_nat (length d) :: u16) = length d"
    by (simp add: unat_of_nat CONTROL_BUFFER_def)
  then show "(of_nat (length d) :: u16) \<noteq> 0" using \<open>d \<noteq> []\<close> by (metis length_0_conv unat_0)
  show "length d \<le> CONTROL_BUFFER" by (rule l)
qed

lemma transfer_sim:
  assumes "dfu_sim sp s" "spec_next x sp = Some (r, sp')" "6 \<le> length cb"
  shows "\<exists>s'. transfer ok num cb x s = (Some (answer ok num r), s') \<and> dfu_sim sp' s'"
proof -
  obtain c0 c1 c2 c3 c4 c5 cs where cb: "cb = c0 # c1 # c2 # c3 # c4 # c5 # cs"
    using assms(3) by (auto simp: numeral_eq_Suc Suc_le_length_iff)
  note defs = transfer_def usbdfu_control_request_def usbdfu_getstatus_def Let_def
  show ?thesis
  proof (cases x)
    case (Download n d)
    then have p: "sp_phase sp = Idle \<or> sp_phase sp = Download_idle" and b: "block_ok n d"
      and r: "r = Ack" "sp' = sp\<lparr>sp_phase := Sync_new n d\<rparr>"
      using assms(2) by (auto split: if_splits)
    have "\<not> df_left s" using p assms(1) by (auto simp: dfu_sim_def)
    then show ?thesis
      using assms(1) b r block_sent [OF b] unfolding Download
      by (simp add: defs dfu_sim_def memcpy_bytes_def)
  next
    case Getstatus
    then show ?thesis
      using assms(1,2) cb block_done [OF assms(1)]
      by (cases "sp_phase sp")
        (auto simp: defs dfu_sim_def usbdfu_getstatus_complete_def leave_bootloader_def dfu_calls_def)
  next
    case Getstate
    then show ?thesis
      using assms(1,2) cb by (cases "sp_phase sp") (auto simp: defs dfu_sim_def)
  qed (use assms(1,2) in \<open>auto simp: defs dfu_sim_def split: if_splits\<close>)
qed

lemma session_sim:
  assumes "dfu_sim sp s" "spec_run xs sp = Some (rs, sp')" "6 \<le> length cb"
  shows "\<exists>s'. dfu_session ok num cb xs s = (map (\<lambda>r. Some (answer ok num r)) rs, s') \<and> dfu_sim sp' s'"
  using assms(1,2)
proof (induction xs arbitrary: sp s rs)
  case (Cons x xs)
  then obtain r sp1 rs1 where x: "spec_next x sp = Some (r, sp1)" "spec_run xs sp1 = Some (rs1, sp')" "rs = r # rs1"
    by (auto split: option.splits)
  obtain s1 where "transfer ok num cb x s = (Some (answer ok num r), s1)" "dfu_sim sp1 s1"
    using transfer_sim [OF Cons.prems(1) x(1) assms(3)] by blast
  then show ?case using Cons.IH [OF _ x(2), of s1] x(3) by auto
qed simp

section \<open>Refinement\<close>

text \<open>
  C14. The boot loader implements the download part of USB DFU 1.1 with the DfuSe commands: in every session in which
  the host keeps to the protocol, the device never stalls, every answer is the specified one byte for byte (a block is
  announced as busy with a poll timeout of 100 ms, then as done), the erase and program operations on
  the flash are exactly those of the blocks sent, in order, and the device leaves for the application
  exactly when the status that ends a download has been read.
\<close>

theorem dfu_refines_protocol:
  assumes "spec_run xs spec_boot = Some (rs, sp)" and "6 \<le> length cb"
  shows "\<exists>s. dfu_session ok num cb xs dfu_boot = (map (\<lambda>r. Some (answer ok num r)) rs, s)
    \<and> flash_ops (df_log s) = sp_flash sp \<and> df_addr s = sp_addr sp
    \<and> (df_left s \<longleftrightarrow> sp_phase sp = Manifest)"
proof -
  have "dfu_sim spec_boot dfu_boot" by (simp add: dfu_sim_def spec_boot_def dfu_boot_def)
  then obtain s where s: "dfu_session ok num cb xs dfu_boot = (map (\<lambda>r. Some (answer ok num r)) rs, s)" "dfu_sim sp s"
    using session_sim [OF _ assms] by blast
  moreover have "df_left s \<longleftrightarrow> sp_phase sp = Manifest"
    using s(2) by (cases "sp_phase sp") (simp_all add: dfu_sim_def)
  ultimately show ?thesis by (auto simp: dfu_sim_def)
qed

text \<open>A page is erased, two half words are programmed at its start, and the application is entered.\<close>

definition demo_session :: "dfu_xfer list" where
  "demo_session = [Getstatus, Download 0 [CMD_ERASE, 0, 0x20, 0, 0x08], Getstate, Getstatus, Getstatus,
     Download 2 [1, 2, 3, 4], Getstatus, Getstatus, Download_end, Getstatus]"

lemma demo_protocol:
  "spec_run demo_session spec_boot = Some ([Status 0 STATE_DFU_IDLE, Ack, State STATE_DFU_DNLOAD_SYNC,
     Status 100 STATE_DFU_DNBUSY, Status 0 STATE_DFU_DNLOAD_IDLE, Ack, Status 100 STATE_DFU_DNBUSY,
     Status 0 STATE_DFU_DNLOAD_IDLE, Ack, Status 0 STATE_DFU_MANIFEST],
     \<lparr>sp_phase = Manifest, sp_addr = 0x08002000,
      sp_flash = [Erase 0x08002000, Program 0x08002000 0x0201, Program 0x08002002 0x0403]\<rparr>)"
  by (simp add: demo_session_def spec_boot_def block_ok_def spec_block_def CONTROL_BUFFER_def CMD_ERASE_def
      le32_def le16_def Let_def)

theorem dfu_refines_protocol_witness:
  "\<exists>rs s. dfu_session 0 (\<lambda>st. 2) (replicate 2048 0) demo_session dfu_boot = (rs, s)
    \<and> flash_ops (df_log s) = [Erase 0x08002000, Program 0x08002000 0x0201, Program 0x08002002 0x0403] \<and> df_left s"
  using dfu_refines_protocol [OF demo_protocol, of "replicate 2048 0" 0 "\<lambda>st. 2"] by auto

end
