(* ===== verification/Connections.thy ===== *)
theory Connections
  imports Net_Stream "HOL-Library.Sublist"
begin

text \<open>
  The life of an lwIP connection, as the code relies on it: made, bound and listening for the
  connection of a server; accepted, used, closed and deleted for that of a client. \<open>conn_run\<close>
  replays a list of calls and fails on a call that does not fit the phase of its connection: a
  use before the connection exists, after it is closed or deleted, a second close, a deletion
  without a close. The locale \<open>conn_server\<close> states what one turn of a server promises and gives
  what follows for whole runs; both servers of the firmware interpret it in \<^verbatim>\<open>Servers\<close>.
\<close>

section \<open>Phases\<close>

datatype conn_op =
    Op_new netconn | Op_bind netconn | Op_listen netconn
  | Op_accept netconn | Op_write netconn | Op_close netconn | Op_delete netconn

datatype conn_phase = Made | Bound | Listening | Connected | Shut

type_synonym conn_map = "netconn \<rightharpoonup> conn_phase"

fun conn_of :: "conn_op \<Rightarrow> netconn" where
  "conn_of (Op_new c) = c"
| "conn_of (Op_bind c) = c"
| "conn_of (Op_listen c) = c"
| "conn_of (Op_accept c) = c"
| "conn_of (Op_write c) = c"
| "conn_of (Op_close c) = c"
| "conn_of (Op_delete c) = c"

text \<open>The phase a call needs and the phase it leaves; \<open>None\<close> is a connection that does not exist.\<close>

fun phases :: "conn_op \<Rightarrow> conn_phase option \<times> conn_phase option" where
  "phases (Op_new c) = (None, Some Made)"
| "phases (Op_bind c) = (Some Made, Some Bound)"
| "phases (Op_listen c) = (Some Bound, Some Listening)"
| "phases (Op_accept c) = (None, Some Connected)"
| "phases (Op_write c) = (Some Connected, Some Connected)"
| "phases (Op_close c) = (Some Connected, Some Shut)"
| "phases (Op_delete c) = (Some Shut, None)"

definition conn_step :: "conn_op \<Rightarrow> conn_map \<Rightarrow> conn_map option" where
  "conn_step e m =
     (if m (conn_of e) = fst (phases e) then Some (m(conn_of e := snd (phases e))) else None)"

fun conn_run :: "conn_op list \<Rightarrow> conn_map \<Rightarrow> conn_map option" where
  "conn_run [] m = Some m"
| "conn_run (e # es) m = (case conn_step e m of None \<Rightarrow> None | Some m \<Rightarrow> conn_run es m)"

fun opens :: "conn_op list \<Rightarrow> nat" where
  "opens [] = 0"
| "opens (e # es) = (if fst (phases e) = None then 1 else 0) + opens es"

lemma conn_run_append:
  "conn_run (xs @ ys) m = (case conn_run xs m of None \<Rightarrow> None | Some m \<Rightarrow> conn_run ys m)"
  by (induction xs arbitrary: m) (simp_all split: option.split)

lemma opens_append [simp]: "opens (xs @ ys) = opens xs + opens ys"
  by (induction xs) simp_all

lemma conn_step_size:
  assumes "conn_step e m = Some m'" "finite (dom m)"
  shows "finite (dom m') \<and> card (dom m') \<le> card (dom m) + (if fst (phases e) = None then 1 else 0)"
proof -
  have m': "m' = m(conn_of e := snd (phases e))" "m (conn_of e) = fst (phases e)"
    using assms(1) by (simp_all add: conn_step_def split: if_splits)
  have "dom m' \<subseteq> insert (conn_of e) (dom m)" unfolding m' by auto
  then have f: "finite (dom m')" "card (dom m') \<le> card (insert (conn_of e) (dom m))"
    using assms(2) by (auto intro: finite_subset card_mono)
  moreover have "card (insert (conn_of e) (dom m)) \<le> card (dom m) + 1"
    by (metis Suc_eq_plus1 add_le_cancel_left assms(2) card_insert_if le_add2 order.refl plus_1_eq_Suc)
  moreover have "insert (conn_of e) (dom m) = dom m" if "fst (phases e) \<noteq> None"
    using m'(2) that by (auto simp: dom_def)
  ultimately show ?thesis by (cases "fst (phases e) = None") auto
qed

text \<open>The number of connections grows only by calls that make one.\<close>

lemma conn_run_size:
  "conn_run es m = Some m' \<Longrightarrow> finite (dom m) \<Longrightarrow> finite (dom m') \<and> card (dom m') \<le> card (dom m) + opens es"
proof (induction es arbitrary: m)
  case (Cons e es)
  then obtain m1 where "conn_step e m = Some m1" "conn_run es m1 = Some m'"
    by (simp split: option.splits)
  then show ?case
    using Cons.IH [of m1] conn_step_size [of e m m1] Cons.prems(2) by fastforce
qed simp

text \<open>Every prefix of a legal run is legal, and no larger than the calls in it allow.\<close>

lemma conn_run_prefix:
  assumes "conn_run es m = Some m'" "finite (dom m)" "prefix p es"
  shows "\<exists>m1. conn_run p m = Some m1 \<and> finite (dom m1) \<and> card (dom m1) \<le> card (dom m) + opens es"
proof -
  obtain q where es: "es = p @ q" using assms(3) by (auto simp: prefix_def)
  then obtain m1 where m1: "conn_run p m = Some m1"
    using assms(1) by (auto simp: conn_run_append split: option.splits)
  then show ?thesis using conn_run_size [OF m1 assms(2)] es by auto
qed

text \<open>The calls of a log, through a view of its entries.\<close>

definition conn_log :: "('e \<Rightarrow> conn_op option) \<Rightarrow> 'e list \<Rightarrow> conn_op list" where
  "conn_log view es = List.map_filter view es"

lemma conn_log_simps [simp]:
  "conn_log view [] = []" "conn_log view (xs @ ys) = conn_log view xs @ conn_log view ys"
  "conn_log view (e # es) = (case view e of None \<Rightarrow> conn_log view es | Some x \<Rightarrow> x # conn_log view es)"
  by (simp_all add: conn_log_def map_filter_def split: option.split)

section \<open>Servers\<close>

fun turns :: "('t \<Rightarrow> 's \<Rightarrow> 's option) \<Rightarrow> 't list \<Rightarrow> 's \<Rightarrow> 's option" where
  "turns step [] s = Some s"
| "turns step (t # ts) s = (case step t s of None \<Rightarrow> None | Some s \<Rightarrow> turns step ts s)"

fun all_fit :: "('t \<Rightarrow> 's \<Rightarrow> 's option) \<Rightarrow> ('t \<Rightarrow> 's \<Rightarrow> bool) \<Rightarrow> 't list \<Rightarrow> 's \<Rightarrow> bool" where
  "all_fit step fits [] s \<longleftrightarrow> True"
| "all_fit step fits (t # ts) s \<longleftrightarrow>
     fits t s \<and> (case step t s of None \<Rightarrow> True | Some s \<Rightarrow> all_fit step fits ts s)"

text \<open>
  The contract: \<open>calls\<close> is the history of a state, \<open>conns\<close> the connections it holds; a turn that
  fits and returns appends a legal piece of history that opens at most one connection.
\<close>

locale conn_server =
  fixes step :: "'t \<Rightarrow> 's \<Rightarrow> 's option" and calls :: "'s \<Rightarrow> conn_op list" and conns :: "'s \<Rightarrow> conn_map"
    and inv :: "'s \<Rightarrow> bool" and fits :: "'t \<Rightarrow> 's \<Rightarrow> bool" and limit :: nat
  assumes step_inv: "inv s \<Longrightarrow> fits t s \<Longrightarrow> step t s = Some s' \<Longrightarrow> inv s'"
    and step_calls: "inv s \<Longrightarrow> fits t s \<Longrightarrow> step t s = Some s' \<Longrightarrow>
      \<exists>d. calls s' = calls s @ d \<and> conn_run d (conns s) = Some (conns s') \<and> opens d \<le> 1"
    and inv_conns: "inv s \<Longrightarrow> finite (dom (conns s)) \<and> card (dom (conns s)) \<le> limit"
begin

lemma turns_calls:
  assumes "turns step ts s = Some s'" "inv s" "all_fit step fits ts s"
  shows "inv s' \<and> (\<exists>d. calls s' = calls s @ d \<and> conn_run d (conns s) = Some (conns s')
    \<and> (\<forall>p. prefix p d \<longrightarrow> (\<exists>m. conn_run p (conns s) = Some m \<and> finite (dom m) \<and> card (dom m) \<le> limit + 1)))"
  using assms
proof (induction ts arbitrary: s)
  case Nil
  have "card (dom (conns s)) \<le> limit + 1" using inv_conns [OF Nil.prems(2)] by simp
  then show ?case using Nil inv_conns by (simp add: prefix_Nil)
next
  case (Cons t ts)
  then obtain s1 where s1: "step t s = Some s1" "turns step ts s1 = Some s'" "fits t s" "all_fit step fits ts s1"
    by (simp split: option.splits)
  note inv1 = step_inv [OF Cons.prems(2) s1(3,1)]
  obtain d where d: "calls s1 = calls s @ d" "conn_run d (conns s) = Some (conns s1)" "opens d \<le> 1"
    using step_calls [OF Cons.prems(2) s1(3,1)] by blast
  obtain e where e: "inv s'" "calls s' = calls s1 @ e" "conn_run e (conns s1) = Some (conns s')"
    "\<And>p. prefix p e \<Longrightarrow> \<exists>m. conn_run p (conns s1) = Some m \<and> finite (dom m) \<and> card (dom m) \<le> limit + 1"
    using Cons.IH [OF s1(2) inv1 s1(4)] by blast
  have "\<exists>m. conn_run p (conns s) = Some m \<and> finite (dom m) \<and> card (dom m) \<le> limit + 1" if "prefix p (d @ e)" for p
    using that unfolding prefix_append
  proof
    assume p: "prefix p d"
    obtain m where "conn_run p (conns s) = Some m" "finite (dom m)" "card (dom m) \<le> card (dom (conns s)) + opens d"
      using conn_run_prefix [OF d(2) _ p] inv_conns [OF Cons.prems(2)] by blast
    then show ?thesis using d(3) inv_conns [OF Cons.prems(2)] by force
  next
    assume "\<exists>q. p = d @ q \<and> prefix q e"
    then show ?thesis using d(2) e(4) by (auto simp: conn_run_append)
  qed
  moreover have "conn_run (d @ e) (conns s) = Some (conns s')" using d(2) e(3) by (simp add: conn_run_append)
  ultimately show ?case using d(1) e(1,2) by (intro conjI exI [of _ "d @ e"]) simp_all
qed

end

end
