(* ===== verification/Servers.thy ===== *)
theory Servers
  imports Httpd_Props Rawd Connections
begin

text \<open>
  The two server threads of the firmware as a whole: \<open>httpd_loop\<close> and \<open>rawd_loop\<close> make, bind and
  listen on a connection and then serve whoever \<open>netconn_accept\<close> gives. Both interpret the
  contract of \<^verbatim>\<open>Connections\<close> with the calls in their logs.
\<close>

section \<open>The web server\<close>

fun net_op :: "net_call \<Rightarrow> conn_op option" where
  "net_op (Netconn_new nc) = Some (Op_new nc)"
| "net_op (Netconn_bind nc port) = Some (Op_bind nc)"
| "net_op (Netconn_listen nc) = Some (Op_listen nc)"
| "net_op (Netconn_accepted nc) = Some (Op_accept nc)"
| "net_op (Netconn_write nc b) = Some (Op_write nc)"
| "net_op (Netconn_close nc) = Some (Op_close nc)"
| "net_op (Netconn_delete nc) = Some (Op_delete nc)"
| "net_op Netbuf_delete = None"
| "net_op Blink_red = None"

definition http_step :: "printf \<Rightarrow> 'm mbox_ops \<Rightarrow> 'm http_turn \<Rightarrow> 'm http_sys \<Rightarrow> 'm http_sys option" where
  "http_step pf ops t sys =
     (case httpd_turn pf ops (ht_now t) (ht_msg t) (ht_accepted t)
             (sys\<lparr>hs_tbl := ht_tbl t, hs_nrf := ht_nrf t\<rparr>) of
        Inl f \<Rightarrow> None | Inr sys \<Rightarrow> Some sys)"

definition http_calls :: "'m http_sys \<Rightarrow> conn_op list" where
  "http_calls sys = conn_log net_op (ns_log (hs_net sys))"

definition buffer_ok :: "'m http_sys \<Rightarrow> bool" where
  "buffer_ok sys \<longleftrightarrow> length (ns_buf (hs_net sys)) = NET_BUF_SIZE"

text \<open>What lwIP accepts is not the listening connection, which is in use.\<close>

definition other_client :: "netconn \<Rightarrow> 'm http_turn \<Rightarrow> bool" where
  "other_client l t \<longleftrightarrow> (case ht_accepted t of None \<Rightarrow> True | Some (nc, received) \<Rightarrow> nc \<noteq> l)"

lemma serve_turns:
  "httpd_serve pf ops ts sys = Inr sys' \<longleftrightarrow> turns (http_step pf ops) ts sys = Some sys'"
  by (induction ts arbitrary: sys) (simp_all add: http_step_def split: sum.split)

lemma list_all_fit: "list_all P ts \<Longrightarrow> all_fit step (\<lambda>t s. P t) ts s"
  by (induction ts arbitrary: s) (simp_all split: option.split)

text \<open>The phases of a client's connection through a turn.\<close>

lemma write_run:
  "m nc = Some Connected \<Longrightarrow> conn_run (conn_log net_op (map (Netconn_write nc) ws)) m = Some m"
  by (induction ws) (simp_all add: conn_step_def fun_upd_idem)

lemma write_opens: "opens (conn_log net_op (map (Netconn_write nc) ws)) = 0"
  by (induction ws) simp_all

lemma session_run:
  assumes "m nc = None"
  shows "conn_run (Op_accept nc # conn_log net_op (map (Netconn_write nc) ws)
      @ conn_log net_op (map (Netconn_write nc) vs) @ [Op_close nc, Op_delete nc]) m = Some m"
proof -
  have "m(nc := None) = m" using assms by (simp add: fun_upd_idem)
  then show ?thesis using assms by (simp add: conn_step_def conn_run_append write_run)
qed

lemma turn_calls:
  assumes "buffer_ok sys" "other_client l t" "http_step pf ops t sys = Some sys'"
  shows "buffer_ok sys' \<and> (\<exists>d. http_calls sys' = http_calls sys @ d
    \<and> conn_run d [l \<mapsto> Listening] = Some [l \<mapsto> Listening] \<and> opens d \<le> 1)"
proof (cases "ht_accepted t")
  case None
  then show ?thesis
    using assms by (auto simp: http_step_def httpd_turn_def http_calls_def buffer_ok_def)
next
  case (Some a)
  then obtain nc received where a: "ht_accepted t = Some (nc, received)" by (cases a) auto
  let ?s0 = "sys_call (Netconn_accepted nc) (sys\<lparr>hs_tbl := ht_tbl t, hs_nrf := ht_nrf t\<rparr>)"
  obtain sys1 where p: "httpd_process pf ops (ht_now t) (ht_msg t) nc received ?s0 = Inr sys1"
    and sys': "sys' = sys_call (Netconn_delete nc) sys1"
    using assms(3) a by (auto simp: http_step_def httpd_turn_def split: sum.splits)
  have m: "[l \<mapsto> Listening] nc = None" using assms(2) a by (simp add: other_client_def)
  have buf: "length (ns_buf (hs_net ?s0)) = NET_BUF_SIZE"
    using assms(1) by (simp add: buffer_ok_def sys_call_def net_call_def)
  from p buf show ?thesis
  proof (cases rule: process_calls)
    case 1
    then show ?thesis
      using session_run [where m = "[l \<mapsto> Listening]", OF m, of "[]" "[]"] unfolding sys' http_calls_def buffer_ok_def
      by (intro conjI exI [of _ "[Op_accept nc, Op_close nc, Op_delete nc]"])
        (simp_all add: sys_call_def net_call_def)
  next
    case (2 ws last)
    then show ?thesis
      using session_run [where m = "[l \<mapsto> Listening]", OF m, of ws last] unfolding sys' http_calls_def buffer_ok_def
      by (intro conjI exI [of _ "Op_accept nc # conn_log net_op (map (Netconn_write nc) ws)
            @ conn_log net_op (map (Netconn_write nc) last) @ [Op_close nc, Op_delete nc]"])
        (simp_all add: sys_call_def net_call_def write_opens)
  qed
qed

interpretation http: conn_server "http_step pf ops" http_calls "\<lambda>sys. [l \<mapsto> Listening]" buffer_ok
    "\<lambda>t sys. other_client l t" 1
  for pf :: printf and ops :: "'m mbox_ops" and l :: netconn
  by unfold_locales (use turn_calls [where pf = pf and ops = ops and l = l] in auto)

lemma listen_run:
  "conn_run [Op_new l, Op_bind l, Op_listen l] Map.empty = Some [l \<mapsto> Listening]"
  by (simp add: conn_step_def)

text \<open>A server that has started from nothing stays within its limit at every moment.\<close>

lemma listen_prefix:
  assumes "prefix p ([Op_new l, Op_bind l, Op_listen l] @ d)"
    and "\<And>q. prefix q d \<Longrightarrow>
      \<exists>m. conn_run q [l \<mapsto> Listening] = Some m \<and> finite (dom m) \<and> card (dom m) \<le> k" and "1 \<le> k"
  shows "\<exists>m. conn_run p Map.empty = Some m \<and> finite (dom m) \<and> card (dom m) \<le> k"
  using assms(1) unfolding prefix_append
proof
  assume "prefix p [Op_new l, Op_bind l, Op_listen l]"
  then show ?thesis using conn_run_prefix [OF listen_run] assms(3) by fastforce
next
  assume "\<exists>q. p = [Op_new l, Op_bind l, Op_listen l] @ q \<and> prefix q d"
  then show ?thesis using assms(2) listen_run by (auto simp: conn_run_append simp del: conn_run.simps append.simps)
qed

section \<open>The raw frame server\<close>

fun rawd_op :: "rawd_call \<Rightarrow> conn_op option" where
  "rawd_op (Rawd_new nc) = Some (Op_new nc)"
| "rawd_op (Rawd_bind nc port) = Some (Op_bind nc)"
| "rawd_op (Rawd_listen nc) = Some (Op_listen nc)"
| "rawd_op (Accepted nc) = Some (Op_accept nc)"
| "rawd_op (Rawd_write nc b) = Some (Op_write nc)"
| "rawd_op (Rawd_close nc) = Some (Op_close nc)"
| "rawd_op (Rawd_delete nc) = Some (Op_delete nc)"
| "rawd_op Mtx_lock = None"
| "rawd_op Mtx_unlock = None"

definition rawd_calls :: "rawd_st \<Rightarrow> conn_op list" where
  "rawd_calls s = conn_log rawd_op (rw_log s)"

text \<open>The turns of the server's loop never make a listening connection, and delete what they close at once.\<close>

fun plain :: "rawd_call \<Rightarrow> bool" where
  "plain Mtx_lock \<longleftrightarrow> True"
| "plain Mtx_unlock \<longleftrightarrow> True"
| "plain (Accepted c) \<longleftrightarrow> True"
| "plain (Rawd_write c b) \<longleftrightarrow> True"
| "plain (Rawd_close c) \<longleftrightarrow> False"
| "plain (Rawd_delete c) \<longleftrightarrow> False"
| "plain (Rawd_new c) \<longleftrightarrow> False"
| "plain (Rawd_bind c port) \<longleftrightarrow> False"
| "plain (Rawd_listen c) \<longleftrightarrow> False"

inductive paired :: "rawd_call list \<Rightarrow> bool" where
  nil [simp]: "paired []"
| plain [simp]: "plain e \<Longrightarrow> paired es \<Longrightarrow> paired (e # es)"
| pair [simp]: "paired es \<Longrightarrow> paired (Rawd_close c # Rawd_delete c # es)"

lemma paired_append: "paired xs \<Longrightarrow> paired ys \<Longrightarrow> paired (xs @ ys)"
  by (induction rule: paired.induct) simp_all

lemma paired_writes: "paired (map (\<lambda>c. Rawd_write c b) cs)"
  by (induction cs) simp_all

definition held :: "netconn \<Rightarrow> netconn set \<Rightarrow> conn_map" where
  "held l S = (\<lambda>c. if c \<in> S then Some Connected else None)(l \<mapsto> Listening)"

lemma owned_None [simp]: "fold owned_step es None = None"
  by (induction es) simp_all

text \<open>A paired log that respects ownership respects the phases.\<close>

lemma paired_run:
  assumes "paired es" "fold owned_step es (Some S) = Some S'" "l \<notin> S" "Accepted l \<notin> set es"
  shows "conn_run (conn_log rawd_op es) (held l S) = Some (held l S') \<and> l \<notin> S'"
  using assms
proof (induction arbitrary: S rule: paired.induct)
  case (plain e es)
  show ?case
  proof (cases e)
    case (Accepted c)
    then have c: "c \<notin> S" "c \<noteq> l" using plain.prems by (auto split: if_splits)
    have "(held l S)(c \<mapsto> Connected) = held l (insert c S)" "held l S c = None"
      using c by (auto simp: held_def fun_eq_iff)
    then show ?thesis
      using plain.IH [of "insert c S"] plain.prems c Accepted by (simp add: conn_step_def)
  next
    case (Rawd_write c b)
    then have c: "c \<in> S" "c \<noteq> l" using plain.prems by (auto split: if_splits)
    have "(held l S)(c \<mapsto> Connected) = held l S" "held l S c = Some Connected"
      using c by (auto simp: held_def fun_eq_iff)
    then show ?thesis
      using plain.IH [of S] plain.prems c Rawd_write by (simp add: conn_step_def)
  qed (use plain in simp_all)
next
  case (pair es c)
  then have c: "c \<in> S" "c \<noteq> l" by (auto split: if_splits)
  have "(held l S)(c := None) = held l (S - {c})" "held l S c = Some Connected"
    using c by (auto simp: held_def fun_eq_iff)
  then show ?case
    using pair.IH [of "S - {c}"] pair.prems c by (simp add: conn_step_def)
qed simp

text \<open>What each operation appends to the log.\<close>

definition appends :: "(conn_op list \<Rightarrow> bool) \<Rightarrow> rawd_st \<Rightarrow> rawd_st \<Rightarrow> bool" where
  "appends P s s' \<longleftrightarrow> (\<exists>d. rw_log s' = rw_log s @ d \<and> paired d \<and> P (conn_log rawd_op d))"

abbreviation quiet :: "conn_op list \<Rightarrow> bool" where
  "quiet es \<equiv> opens es = 0"

lemma appends_refl: "rw_log s' = rw_log s \<Longrightarrow> appends quiet s s'"
  unfolding appends_def by (intro exI [of _ "[]"]) simp

lemma appends_trans: "appends quiet s s1 \<Longrightarrow> appends quiet s1 s2 \<Longrightarrow> appends quiet s s2"
  unfolding appends_def by (elim exE conjE, rule_tac x = "d @ da" in exI) (simp add: paired_append)

lemma appends_list:
  "rw_log s' = rw_log s @ d \<Longrightarrow> paired d \<Longrightarrow> opens (conn_log rawd_op d) = 0 \<Longrightarrow> appends quiet s s'"
  unfolding appends_def by blast

lemma scan_appends: "rawd_new_scan est i n free s = (f, s') \<Longrightarrow> appends quiet s s'"
proof (induction n arbitrary: i free s)
  case 0
  then show ?case by (simp add: appends_refl)
next
  case (Suc n)
  show ?case
  proof (cases "rw_ncs s ! i")
    case None
    then show ?thesis using Suc.prems Suc.IH by simp
  next
    case (Some nc)
    let ?s = "(rawd_call (Rawd_delete nc) (rawd_call (Rawd_close nc) s))\<lparr>rw_ncs := (rw_ncs s)[i := None]\<rparr>"
    have "appends quiet s ?s" by (rule appends_list [of _ _ "[Rawd_close nc, Rawd_delete nc]"]) simp_all
    then show ?thesis
      using Suc.prems Some Suc.IH [of "i + 1" free s] Suc.IH [of "i + 1" "int i" ?s] appends_trans
      by (auto split: if_splits)
  qed
qed

lemma section_appends:
  assumes "rawd_new_section est nc s = (greet, s')"
  shows "appends quiet s s'"
proof -
  obtain f s1 where sc: "rawd_new_scan est 0 NC_COUNT (- 1) (rawd_call Mtx_lock s) = (f, s1)" by fastforce
  have "appends quiet s (rawd_call Mtx_lock s)" by (rule appends_list [of _ _ "[Mtx_lock]"]) simp_all
  then have s1: "appends quiet s s1" using scan_appends [OF sc] appends_trans by blast
  have "appends quiet s1 s'"
  proof (cases "f < 0")
    case True
    then show ?thesis
      using assms
      by (intro appends_list [of _ _ "[Rawd_write nc RAWD_FULL, Rawd_close nc, Rawd_delete nc, Mtx_unlock]"])
        (auto simp: rawd_new_section_def sc)
  next
    case False
    then show ?thesis
      using assms by (intro appends_list [of _ _ "[Mtx_unlock]"]) (auto simp: rawd_new_section_def sc)
  qed
  then show ?thesis using s1 appends_trans by blast
qed

lemma ready_appends: "appends quiet s (rawd_new_ready greet s)"
proof (cases greet)
  case (Some nc)
  then show ?thesis
    by (intro appends_list [of _ _ "[Rawd_write nc RAWD_READY]"]) (simp_all add: rawd_new_ready_def)
qed (simp add: rawd_new_ready_def appends_refl)

lemma push_appends: "appends quiet s (rawd_push_section est s)" "appends quiet s (rawd_push_copy f s)"
proof -
  have q: "opens (conn_log rawd_op (map (\<lambda>c. Rawd_write c b) cs)) = 0" for b cs
    by (induction cs) simp_all
  show "appends quiet s (rawd_push_section est s)"
    by (intro appends_list [of _ _ "Mtx_lock # map (\<lambda>nc. Rawd_write nc (raw_of_frame (rw_frame s)))
          (filter est (List.map_filter id (rw_ncs s))) @ [Mtx_unlock]"])
      (simp_all add: rawd_push_section_def push_slots_effect q paired_append paired_writes)
  show "appends quiet s (rawd_push_copy f s)"
    by (intro appends_list [of _ _ "[Mtx_lock, Mtx_unlock]"]) (simp_all add: rawd_push_copy_def)
qed

text \<open>A step that is enabled and does not hand out the listening connection.\<close>

definition rawd_fits :: "netconn \<Rightarrow> rawd_ev \<Rightarrow> rawd_st \<Rightarrow> bool" where
  "rawd_fits l e s \<longleftrightarrow>
     rawd_enabled e s \<and> (case e of Client est accepted \<Rightarrow> accepted \<noteq> Some l | _ \<Rightarrow> True)"

definition rawd_holds :: "netconn \<Rightarrow> rawd_st \<Rightarrow> bool" where
  "rawd_holds l s \<longleftrightarrow> rawd_ok s \<and> l \<notin> stored s"

lemma step_appends:
  obtains d where "rw_log (rawd_step e s) = rw_log s @ d" "paired d" "opens (conn_log rawd_op d) \<le> 1"
    "\<And>l. rawd_fits l e s \<Longrightarrow> Accepted l \<notin> set d"
proof -
  have q: "Accepted l \<notin> set d" if "opens (conn_log rawd_op d) = 0" for l d
    using that by (induction d) (auto split: option.splits if_splits)
  have keep: "appends quiet s s1 \<Longrightarrow> rw_log s2 = rw_log s1 \<Longrightarrow> appends quiet s s2" for s1 s2
    by (simp add: appends_def)
  consider est nc where "e = Client est (Some nc)" | "appends quiet s (rawd_step e s)"
  proof (cases e)
    case (Client est a)
    then show thesis using that appends_refl by (cases a) simp_all
  next
    case (Push_send est)
    then show thesis using that keep [OF push_appends(1)] appends_refl by simp
  qed (use that keep [OF push_appends(2)] keep [OF ready_appends] appends_refl in
      \<open>simp_all add: rawd_push_signal_def rawd_push_wait_def\<close>)
  then show thesis
  proof cases
    case 1
    obtain greet s1 where sec: "rawd_new_section est nc (rawd_call (Accepted nc) s) = (greet, s1)" by fastforce
    obtain d where d: "rw_log (rawd_step e s) = (rw_log s @ [Accepted nc]) @ d" "paired d"
      "opens (conn_log rawd_op d) = 0"
      using section_appends [OF sec] 1 by (auto simp: appends_def sec)
    then show thesis using 1 q by (intro that [of "Accepted nc # d"]) (auto simp: rawd_fits_def)
  next
    case 2
    then obtain d where "rw_log (rawd_step e s) = rw_log s @ d" "paired d" "opens (conn_log rawd_op d) = 0"
      by (auto simp: appends_def)
    then show thesis using q by (intro that [of d]) auto
  qed
qed

lemma card_slots: "finite (slots ncs) \<and> card (slots ncs) \<le> length ncs"
proof -
  have "slots ncs \<subseteq> the ` set ncs" unfolding slots_def by force
  then have "finite (slots ncs)" "card (slots ncs) \<le> card (the ` set ncs)"
    by (auto intro: finite_subset card_mono)
  moreover have "card (the ` set ncs) \<le> length ncs"
    by (meson card_image_le card_length finite_set le_trans)
  ultimately show ?thesis by simp
qed

lemma held_size:
  assumes "length (rw_ncs s) = NC_COUNT"
  shows "finite (dom (held l (stored s))) \<and> card (dom (held l (stored s))) \<le> NC_COUNT + 1"
proof -
  have f: "finite (stored s)" "card (stored s) \<le> NC_COUNT"
    using card_slots [of "rw_ncs s"] assms by (simp_all add: stored_def)
  moreover have "dom (held l (stored s)) = insert l (stored s)" by (auto simp: held_def split: if_splits)
  ultimately show ?thesis using f card_insert_le_m1 [of "NC_COUNT + 1" "stored s" l] by simp
qed

lemma rawd_turn_calls:
  assumes "rawd_holds l s" "rawd_fits l e s"
  shows "rawd_holds l (rawd_step e s) \<and> (\<exists>d. rawd_calls (rawd_step e s) = rawd_calls s @ d
    \<and> conn_run d (held l (stored s)) = Some (held l (stored (rawd_step e s))) \<and> opens d \<le> 1)"
proof -
  obtain d where d: "rw_log (rawd_step e s) = rw_log s @ d" "paired d" "opens (conn_log rawd_op d) \<le> 1"
    "Accepted l \<notin> set d"
    by (rule step_appends [of e s]) (use assms(2) in blast)
  have inv: "rawd_ok s" "rawd_ok (rawd_step e s)"
    using assms rawd_ok_step by (auto simp: rawd_holds_def rawd_fits_def)
  then have "fold owned_step d (Some (stored s)) = Some (stored (rawd_step e s))"
    using d(1) by (simp add: rawd_ok_def rawd_inv_def)
  then have "conn_run (conn_log rawd_op d) (held l (stored s)) = Some (held l (stored (rawd_step e s)))
      \<and> l \<notin> stored (rawd_step e s)"
    using paired_run [OF d(2)] assms(1) d(4) by (simp add: rawd_holds_def)
  then show ?thesis
    using inv d by (auto simp: rawd_holds_def rawd_calls_def)
qed

abbreviation rawd_try :: "rawd_ev \<Rightarrow> rawd_st \<Rightarrow> rawd_st option" where
  "rawd_try e s \<equiv> Some (rawd_step e s)"

interpretation rawd: conn_server rawd_try rawd_calls "\<lambda>s. held l (stored s)" "rawd_holds l" "rawd_fits l"
    "NC_COUNT + 1"
  for l :: netconn
  by unfold_locales (use rawd_turn_calls [of l] held_size [of _ l] in \<open>auto simp: rawd_holds_def rawd_ok_def rawd_inv_def\<close>)

lemma turns_rawd: "turns rawd_try es s = Some (rawd_run es s)"
  by (induction es arbitrary: s) simp_all

section \<open>Whole runs\<close>

text \<open>The calls are legal, and at every moment at most \<open>k\<close> connections exist.\<close>

definition at_most :: "nat \<Rightarrow> conn_op list \<Rightarrow> bool" where
  "at_most k es \<longleftrightarrow> (\<forall>p. prefix p es \<longrightarrow>
     (\<exists>m. conn_run p Map.empty = Some m \<and> finite (dom m) \<and> card (dom m) \<le> k))"

lemma httpd_started:
  "httpd_loop pf ops (Some l) ts sys = Inr (r, sys') \<longleftrightarrow> r = None
     \<and> turns (http_step pf ops) ts
         (sys_call (Netconn_listen l) (sys_call (Netconn_bind l HTTPD_PORT) (sys_call (Netconn_new l) sys))) = Some sys'"
  by (auto simp: httpd_loop_def serve_turns [symmetric] split: sum.splits)

lemma httpd_loop_run:
  assumes "httpd_loop pf ops (Some l) ts sys = Inr (r, sys')"
    and "buffer_ok sys" "ns_log (hs_net sys) = []" "list_all (other_client l) ts"
  shows "r = None \<and> conn_run (http_calls sys') Map.empty = Some [l \<mapsto> Listening] \<and> at_most 2 (http_calls sys')"
proof -
  let ?s = "sys_call (Netconn_listen l) (sys_call (Netconn_bind l HTTPD_PORT) (sys_call (Netconn_new l) sys))"
  have t: "r = None" "turns (http_step pf ops) ts ?s = Some sys'"
    using assms(1) unfolding httpd_started by simp_all
  have b: "buffer_ok ?s" "http_calls ?s = [Op_new l, Op_bind l, Op_listen l]"
    using assms(2,3) by (simp_all add: buffer_ok_def http_calls_def sys_call_def net_call_def)
  obtain d where d: "http_calls sys' = [Op_new l, Op_bind l, Op_listen l] @ d"
    "conn_run d [l \<mapsto> Listening] = Some [l \<mapsto> Listening]"
    "\<And>p. prefix p d \<Longrightarrow> \<exists>m. conn_run p [l \<mapsto> Listening] = Some m \<and> finite (dom m) \<and> card (dom m) \<le> 2"
    using http.turns_calls [OF t(2) b(1) list_all_fit [OF assms(4)]] b(2)
    by (auto simp: numeral_2_eq_2)
  have "conn_run (http_calls sys') Map.empty = Some [l \<mapsto> Listening]"
    unfolding d(1) conn_run_append listen_run using d(2) by simp
  moreover have "at_most 2 (http_calls sys')"
    unfolding d(1) at_most_def using listen_prefix d(3) by (metis one_le_numeral)
  ultimately show ?thesis using t(1) by simp
qed

definition rawd_listening :: "netconn \<Rightarrow> rawd_st" where
  "rawd_listening l =
     rawd_call (Rawd_listen l) (rawd_call (Rawd_bind l RAW_PORT) (rawd_call (Rawd_new l) rawd_boot))"

lemma rawd_loop_run:
  assumes "all_fit rawd_try (rawd_fits l) es (rawd_listening l)"
    and "rawd_loop (Some l) es rawd_boot = (r, s)"
  shows "r = None \<and> conn_run (rawd_calls s) Map.empty = Some (held l (stored s)) \<and> at_most 5 (rawd_calls s)"
proof -
  have s: "r = None" "turns rawd_try es (rawd_listening l) = Some s"
    using assms(2) by (simp_all add: rawd_loop_def rawd_listening_def turns_rawd)
  have log: "rw_log rawd_boot = []" by (simp add: rawd_boot_def rawd_init_def)
  have g: "rw_greet rawd_boot = None" by (simp add: rawd_boot_def rawd_init_def)
  have st: "stored rawd_boot = {}" using rawd_boot_inv log by (simp add: rawd_inv_def owned_def)
  have b: "rawd_holds l (rawd_listening l)" "rawd_calls (rawd_listening l) = [Op_new l, Op_bind l, Op_listen l]"
    "held l (stored (rawd_listening l)) = [l \<mapsto> Listening]"
    using rawd_boot_ok log st g
    by (auto simp: rawd_holds_def rawd_ok_def rawd_inv_def rawd_listening_def rawd_calls_def held_def owned_def)
  obtain d where d: "rawd_calls s = [Op_new l, Op_bind l, Op_listen l] @ d"
    "conn_run d [l \<mapsto> Listening] = Some (held l (stored s))"
    "\<And>p. prefix p d \<Longrightarrow> \<exists>m. conn_run p [l \<mapsto> Listening] = Some m \<and> finite (dom m) \<and> card (dom m) \<le> 5"
    using rawd.turns_calls [OF s(2) b(1) assms(1)] b(2,3) by (auto simp: NC_COUNT_def)
  have "conn_run (rawd_calls s) Map.empty = Some (held l (stored s))"
    unfolding d(1) conn_run_append listen_run using d(2) by simp
  moreover have "at_most 5 (rawd_calls s)"
    unfolding d(1) at_most_def using listen_prefix d(3) by (metis one_le_numeral)
  ultimately show ?thesis using s(1) by simp
qed

text \<open>A failed accept, a client that goes away, and one that does not speak HTTP; both have the same address.\<close>

definition demo_turn :: "(netconn \<times> bytes option) option \<Rightarrow> (nat \<times> nat list) http_turn" where
  "demo_turn a = \<lparr>ht_now = 0, ht_msg = replicate 16 0, ht_tbl = hs_tbl demo_sys, ht_nrf = hs_nrf demo_sys,
     ht_accepted = a\<rparr>"

lemma demo_turn_simps [simp]:
  "ht_msg (demo_turn a) = replicate 16 0" "ht_nrf (demo_turn a) = hs_nrf demo_sys"
  "ht_accepted (demo_turn a) = a"
  by (simp_all add: demo_turn_def)

lemma demo_ok: "buffer_ok demo_sys" "ns_log (hs_net demo_sys) = []"
  by (simp_all add: buffer_ok_def demo_sys_def net_zero_def)

section \<open>Answers\<close>

text \<open>
  A turn that can be served: what was received, if anything, is a well-formed request, and a message
  to be sent finds a place in the radio's queue.
\<close>

definition servable :: "'m mbox_ops \<Rightarrow> 'm http_turn \<Rightarrow> bool" where
  "servable ops t \<longleftrightarrow> length (ht_msg t) = PAYLOADSZ \<and>
     (case ht_accepted t of
        Some (nc, Some buf) \<Rightarrow>
          length buf < 65536 \<and> (\<exists>m u h b. buf = segment m u h b \<and> wf_parts m u h
            \<and> (case http_sends u b of None \<Rightarrow> True | Some d \<Rightarrow> nrf_send ops d (ht_nrf t) \<noteq> None))
      | _ \<Rightarrow> True)"

definition answered :: "printf \<Rightarrow> 'm http_turn \<Rightarrow> net_call list \<Rightarrow> bool" where
  "answered pf t calls \<longleftrightarrow>
     (case ht_accepted t of
        None \<Rightarrow> calls = []
      | Some (nc, None) \<Rightarrow> calls = [Netconn_accepted nc, Netconn_close nc, Netbuf_delete, Netconn_delete nc]
      | Some (nc, Some buf) \<Rightarrow>
          (\<exists>m u h b ws last. buf = segment m u h b \<and> wf_parts m u h
            \<and> calls = [Netconn_accepted nc, Blink_red] @ map (Netconn_write nc) ws @ [Netbuf_delete]
                @ map (Netconn_write nc) last @ [Netconn_close nc, Netconn_delete nc]
            \<and> concat (ws @ last) = http_reply pf (ht_now t) (ht_tbl t) u b))"

lemma turn_answered:
  assumes "printf_laws pf" "servable ops t" "buffer_ok sys"
  shows "\<exists>sys' calls. http_step pf ops t sys = Some sys' \<and> buffer_ok sys'
    \<and> ns_log (hs_net sys') = ns_log (hs_net sys) @ calls \<and> answered pf t calls"
proof -
  consider "ht_accepted t = None" | nc where "ht_accepted t = Some (nc, None)"
    | nc buf where "ht_accepted t = Some (nc, Some buf)"
    by (metis option.exhaust prod.exhaust)
  then show ?thesis
  proof cases
    case 1
    then show ?thesis
      using assms(3) by (simp add: http_step_def httpd_turn_def answered_def buffer_ok_def)
  next
    case 2
    then show ?thesis
      using assms(3) by (simp add: http_step_def httpd_turn_def httpd_process_def http_bailout_def
          answered_def buffer_ok_def sys_call_def net_call_def)
  next
    case 3
    let ?s0 = "sys_call (Netconn_accepted nc) (sys\<lparr>hs_tbl := ht_tbl t, hs_nrf := ht_nrf t\<rparr>)"
    have s0: "hs_nrf ?s0 = ht_nrf t" "hs_tbl ?s0 = ht_tbl t" "length (ns_buf (hs_net ?s0)) = 512"
      "ns_log (hs_net ?s0) = ns_log (hs_net sys) @ [Netconn_accepted nc]"
      using assms(3) by (simp_all add: sys_call_def net_call_def buffer_ok_def NET_BUF_SIZE_def)
    obtain m u h b where q: "buf = segment m u h b" "wf_parts m u h" "length buf < 65536"
      "case http_sends u b of None \<Rightarrow> True | Some d \<Rightarrow> nrf_send ops d (ht_nrf t) \<noteq> None"
      using assms(2) 3 by (auto simp: servable_def)
    have msg: "length (ht_msg t) = PAYLOADSZ" using assms(2) by (simp add: servable_def)
    obtain nrf where nrf: "case http_sends u b of None \<Rightarrow> nrf = hs_nrf ?s0
        | Some d \<Rightarrow> nrf_send ops d (hs_nrf ?s0) = Some nrf"
      using q(4) unfolding s0 by (cases "http_sends u b") auto
    obtain sys1 ws last where r: "httpd_process pf ops (ht_now t) (ht_msg t) nc (Some buf) ?s0 = Inr sys1"
      "ns_log (hs_net sys1) = ns_log (hs_net ?s0) @ [Blink_red] @ map (Netconn_write nc) ws
        @ [Netbuf_delete] @ map (Netconn_write nc) last @ [Netconn_close nc]"
      "concat (ws @ last) = http_reply pf (ht_now t) (ht_tbl t) u b"
      using serve_run [OF assms(1) q(2) _ s0(3) msg nrf, where now = "ht_now t" and nc = nc] q(1,3)
      unfolding s0(2) by blast
    have "length (ns_buf (hs_net sys1)) = NET_BUF_SIZE"
      by (rule process_calls [OF r(1)]) (use s0(3) in \<open>simp_all add: NET_BUF_SIZE_def\<close>)
    then have "buffer_ok (sys_call (Netconn_delete nc) sys1)"
      by (simp add: buffer_ok_def sys_call_def net_call_def)
    moreover have "http_step pf ops t sys = Some (sys_call (Netconn_delete nc) sys1)"
      using 3 r(1) by (simp add: http_step_def httpd_turn_def)
    moreover have "ns_log (hs_net (sys_call (Netconn_delete nc) sys1)) = ns_log (hs_net sys)
        @ [Netconn_accepted nc, Blink_red] @ map (Netconn_write nc) ws @ [Netbuf_delete]
        @ map (Netconn_write nc) last @ [Netconn_close nc, Netconn_delete nc]"
      using r(2) s0(4) by (simp add: sys_call_def net_call_def)
    ultimately show ?thesis
      using 3 q(1,2) r(3) unfolding answered_def by fastforce
  qed
qed

text \<open>A turn that can be handled: one that can be served, or a request that the parser rejects.\<close>

definition handled :: "'m mbox_ops \<Rightarrow> 'm http_turn \<Rightarrow> bool" where
  "handled ops t \<longleftrightarrow> servable ops t
     \<or> (case ht_accepted t of Some (nc, Some buf) \<Rightarrow> parse_request buf = Inr None | _ \<Rightarrow> False)"

lemma turn_handled:
  assumes "printf_laws pf" "handled ops t" "buffer_ok sys"
  shows "\<exists>sys'. http_step pf ops t sys = Some sys' \<and> buffer_ok sys'"
proof (cases "servable ops t")
  case True
  then show ?thesis using turn_answered [OF assms(1) _ assms(3)] by blast
next
  case False
  then obtain nc buf where "ht_accepted t = Some (nc, Some buf)" "parse_request buf = Inr None"
    using assms(2) by (auto simp: handled_def split: option.splits)
  then show ?thesis
    using assms(3) by (simp add: http_step_def httpd_turn_def httpd_process_def http_bailout_def
        buffer_ok_def sys_call_def net_call_def)
qed

lemma handled_serve:
  assumes "printf_laws pf" "list_all (handled ops) ts" "buffer_ok sys"
  shows "\<exists>sys'. turns (http_step pf ops) ts sys = Some sys'"
  using assms(2,3)
proof (induction ts arbitrary: sys)
  case (Cons t ts)
  then show ?case using turn_handled [OF assms(1), of ops t sys] by auto
qed simp

lemma handled_loop:
  assumes "printf_laws pf" "list_all (handled ops) ts" "buffer_ok sys"
  shows "\<exists>sys'. httpd_loop pf ops (Some l) ts sys = Inr (None, sys')"
  unfolding httpd_started
  by (simp add: handled_serve [OF assms(1,2)] assms(3) [unfolded buffer_ok_def] buffer_ok_def sys_call_def net_call_def)

lemma serve_answered:
  assumes "printf_laws pf" "list_all (servable ops) ts" "buffer_ok sys"
  shows "\<exists>sys' calls. turns (http_step pf ops) ts sys = Some sys'
    \<and> ns_log (hs_net sys') = ns_log (hs_net sys) @ concat calls \<and> list_all2 (answered pf) ts calls"
  using assms(2,3)
proof (induction ts arbitrary: sys)
  case (Cons t ts)
  obtain s1 c where s1: "http_step pf ops t sys = Some s1" "buffer_ok s1"
    "ns_log (hs_net s1) = ns_log (hs_net sys) @ c" "answered pf t c"
    using turn_answered [OF assms(1)] Cons.prems by force
  obtain s2 cs where "turns (http_step pf ops) ts s1 = Some s2"
    "ns_log (hs_net s2) = ns_log (hs_net s1) @ concat cs" "list_all2 (answered pf) ts cs"
    using Cons.IH [OF _ s1(2)] Cons.prems by auto
  then show ?case using s1 by (intro exI [of _ s2] exI [of _ "c # cs"]) simp
qed (auto intro!: exI [of _ "[]"])

text \<open>
  C20. The web server thread over every history of failed accepts, clients that go away, requests in the
  grammar (those to \<^verbatim>\<open>/sendraw\<close> finding a place in the radio's queue) and requests that the parser
  rejects; what is left out are the requests that the parser reads past their end. If \<open>netconn_new\<close>
  fails the thread returns 1 without a call. Otherwise it goes on serving; every call fits the phase of its connection (no
  use before accept, no write after close, one close, then one deletion), at every moment it holds
  at most its listening connection and one client's, and between turns only the listening one, so
  no connection is leaked.
\<close>

theorem httpd_loop_protocol:
  assumes "printf_laws pf" and "list_all (handled ops) ts"
    and "buffer_ok sys" and "ns_log (hs_net sys) = []"
    and "\<forall>l. new = Some l \<longrightarrow> list_all (other_client l) ts"
  shows "\<exists>sys'. httpd_loop pf ops new ts sys = Inr (case new of None \<Rightarrow> Some 1 | Some l \<Rightarrow> None, sys')
    \<and> conn_run (http_calls sys') Map.empty = Some (case new of None \<Rightarrow> Map.empty | Some l \<Rightarrow> [l \<mapsto> Listening])
    \<and> at_most 2 (http_calls sys')"
proof (cases new)
  case None
  then have "httpd_loop pf ops new ts sys = Inr (Some 1, sys)" "http_calls sys = []"
    using assms(4) by (simp_all add: httpd_loop_def http_calls_def)
  then show ?thesis using None by (simp add: at_most_def)
next
  case (Some l)
  obtain sys' where "httpd_loop pf ops (Some l) ts sys = Inr (None, sys')"
    using handled_loop [OF assms(1-3)] by blast
  then show ?thesis using httpd_loop_run [of pf ops l ts sys None sys'] assms Some by simp
qed

theorem httpd_loop_protocol_witness:
  "\<exists>sys'. httpd_loop plain_printf fifo_ops (Some 1)
       (map demo_turn [None, Some (9, None), Some (9, Some (str ''HELO''))]) demo_sys = Inr (None, sys')
    \<and> conn_run (http_calls sys') Map.empty = Some [1 \<mapsto> Listening] \<and> at_most 2 (http_calls sys')"
proof -
  let ?ts = "map demo_turn [None, Some (9, None), Some (9, Some (str ''HELO''))]"
  have "parse_request (str ''HELO'') = Inr None"
    by (simp add: parse_request_def cut_method_def Let_def unat_len)
  then have h: "list_all (handled fifo_ops) ?ts"
    by (simp add: handled_def servable_def PAYLOADSZ_def)
  have "\<forall>l. Some 1 = Some l \<longrightarrow> list_all (other_client l) ?ts"
    by (simp add: other_client_def)
  from httpd_loop_protocol [OF plain.printf_laws_axioms h demo_ok this] show ?thesis by simp
qed

text \<open>
  C9. The web server answers all its clients: over any history of well-formed requests, failed accepts
  and clients that go away, with the table and the radio changed by the other threads between
  the turns, it never stops, and its calls are those of the start, then for each client in the order
  of acceptance a complete exchange whose writes concatenate to the response of its path for the
  table of that turn.
\<close>

theorem httpd_loop_serves:
  assumes "printf_laws pf" "list_all (servable ops) ts" "buffer_ok sys"
  shows "\<exists>sys' calls. httpd_loop pf ops (Some l) ts sys = Inr (None, sys')
    \<and> ns_log (hs_net sys') = ns_log (hs_net sys)
        @ [Netconn_new l, Netconn_bind l 80, Netconn_listen l] @ concat calls
    \<and> list_all2 (answered pf) ts calls"
proof -
  let ?s = "sys_call (Netconn_listen l) (sys_call (Netconn_bind l HTTPD_PORT) (sys_call (Netconn_new l) sys))"
  have b: "buffer_ok ?s"
    "ns_log (hs_net ?s) = ns_log (hs_net sys) @ [Netconn_new l, Netconn_bind l 80, Netconn_listen l]"
    using assms(3) by (simp_all add: buffer_ok_def sys_call_def net_call_def HTTPD_PORT_def)
  show ?thesis using serve_answered [OF assms(1,2) b(1)] unfolding httpd_started b(2) by simp
qed

text \<open>Three clients: a page, a page that does not exist, and one that goes away.\<close>

definition demo_request :: "string \<Rightarrow> bytes" where
  "demo_request u = segment HTTP_GET (str u) (str ''Host: x'') []"

lemma demo_servable:
  assumes "url_ok (str u)" "length u < 100" "str u \<noteq> []" "route (str u) \<noteq> Some Path_sendraw"
  shows "servable fifo_ops (demo_turn (Some (nc, Some (demo_request u))))"
proof -
  have w: "wf_parts HTTP_GET (str u) (str ''Host: x'')"
    unfolding wf_parts_def
    by (intro conjI assms hdr_ok_plain) (simp_all add: str_def url_char_def)
  have "http_sends (str u) [] = None" using assms(4) by (simp add: http_sends_def)
  then have "\<exists>m v h b. demo_request u = segment m v h b \<and> wf_parts m v h
    \<and> (case http_sends v b of None \<Rightarrow> True | Some d \<Rightarrow> nrf_send fifo_ops d (hs_nrf demo_sys) \<noteq> None)"
    using w by (intro exI [of _ HTTP_GET] exI [of _ "str u"] exI [of _ "str ''Host: x''"] exI [of _ "[]"])
      (simp add: demo_request_def)
  then show ?thesis
    using assms(2) unfolding servable_def demo_turn_simps
    by (simp add: PAYLOADSZ_def) (simp add: demo_request_def segment_def)
qed

theorem httpd_loop_serves_witness:
  "\<exists>sys' calls. httpd_loop plain_printf fifo_ops (Some 1)
       (map demo_turn [Some (9, Some (demo_request ''/json'')), Some (7, Some (demo_request ''/x'')), Some (9, None)])
       demo_sys = Inr (None, sys')
    \<and> ns_log (hs_net sys') = [Netconn_new 1, Netconn_bind 1 80, Netconn_listen 1] @ concat calls
    \<and> length calls = 3"
proof -
  let ?ts = "map demo_turn [Some (9, Some (demo_request ''/json'')), Some (7, Some (demo_request ''/x'')), Some (9, None)]"
  have u: "url_ok (str ''/json'')" "url_ok (str ''/x'')"
    by (intro url_ok_plain; simp add: str_def url_char_def)+
  have r: "route (str ''/json'') \<noteq> Some Path_sendraw" "route (str ''/x'') \<noteq> Some Path_sendraw"
    by (simp_all add: route_def paths_def str_def)
  have "servable fifo_ops (demo_turn (Some (9, None)))" by (simp add: servable_def demo_turn_def PAYLOADSZ_def)
  moreover have "servable fifo_ops (demo_turn (Some (9, Some (demo_request ''/json''))))"
    by (rule demo_servable [OF u(1) _ _ r(1)]) (simp_all add: str_def)
  moreover have "servable fifo_ops (demo_turn (Some (7, Some (demo_request ''/x''))))"
    by (rule demo_servable [OF u(2) _ _ r(2)]) (simp_all add: str_def)
  ultimately have "list_all (servable fifo_ops) ?ts" by simp
  from httpd_loop_serves [OF plain.printf_laws_axioms this demo_ok(1), of 1] show ?thesis
    using demo_ok(2) by (force dest: list_all2_lengthD)
qed

end
