(* ===== verification/Board.thy ===== *)
theory Board
  imports Prelude
begin

text \<open>
  The pins of the board: the values of \<^verbatim>\<open>firmware/board.h\<close> that \<open>main.c\<close> collects in
  \<open>pal_default_config\<close>, the macros that drive single pads, and the external interrupt channels of
  \<open>main.c\<close>. The meaning of the configuration nibbles is the table in the comment of
  \<open>board.h\<close>; the output latch (\<open>ODR\<close>) is changed by the three pad operations of the PAL driver.
\<close>

section \<open>Initial values\<close>

definition VAL_GPIOACRL :: u32 where "VAL_GPIOACRL = 0x44828B48"
definition VAL_GPIOACRH :: u32 where "VAL_GPIOACRH = 0x84444442"
definition VAL_GPIOAODR :: u32 where "VAL_GPIOAODR = 0xFFFFFFEF"
definition VAL_GPIOBCRL :: u32 where "VAL_GPIOBCRL = 0x4A211488"
definition VAL_GPIOBCRH :: u32 where "VAL_GPIOBCRH = 0x88BBB894"
definition VAL_GPIOBODR :: u32 where "VAL_GPIOBODR = 0xFFFFFFCF"
definition VAL_GPIOCCRL :: u32 where "VAL_GPIOCCRL = 0x884488B8"
definition VAL_GPIOCCRH :: u32 where "VAL_GPIOCCRH = 0x228B8B88"
definition VAL_GPIOCODR :: u32 where "VAL_GPIOCODR = 0xFFFF3FFF"
definition VAL_GPIODCRL :: u32 where "VAL_GPIODCRL = 0x88888888"
definition VAL_GPIODCRH :: u32 where "VAL_GPIODCRH = 0x88888888"
definition VAL_GPIODODR :: u32 where "VAL_GPIODODR = 0xFFFFFFFF"
definition VAL_GPIOECRL :: u32 where "VAL_GPIOECRL = 0x88888888"
definition VAL_GPIOECRH :: u32 where "VAL_GPIOECRH = 0x88888888"
definition VAL_GPIOEODR :: u32 where "VAL_GPIOEODR = 0xFFFFFFFF"

lemmas val_gpio_defs =
  VAL_GPIOACRL_def VAL_GPIOACRH_def VAL_GPIOAODR_def VAL_GPIOBCRL_def VAL_GPIOBCRH_def VAL_GPIOBODR_def
  VAL_GPIOCCRL_def VAL_GPIOCCRH_def VAL_GPIOCODR_def VAL_GPIODCRL_def VAL_GPIODCRH_def VAL_GPIODODR_def
  VAL_GPIOECRL_def VAL_GPIOECRH_def VAL_GPIOEODR_def

datatype gpio = GPIOA | GPIOB | GPIOC | GPIOD | GPIOE

record gpio_setup =
  gp_odr :: u32
  gp_crl :: u32
  gp_crh :: u32

fun pal_default_config :: "gpio \<Rightarrow> gpio_setup" where
  "pal_default_config GPIOA = \<lparr>gp_odr = VAL_GPIOAODR, gp_crl = VAL_GPIOACRL, gp_crh = VAL_GPIOACRH\<rparr>"
| "pal_default_config GPIOB = \<lparr>gp_odr = VAL_GPIOBODR, gp_crl = VAL_GPIOBCRL, gp_crh = VAL_GPIOBCRH\<rparr>"
| "pal_default_config GPIOC = \<lparr>gp_odr = VAL_GPIOCODR, gp_crl = VAL_GPIOCCRL, gp_crh = VAL_GPIOCCRH\<rparr>"
| "pal_default_config GPIOD = \<lparr>gp_odr = VAL_GPIODODR, gp_crl = VAL_GPIODCRL, gp_crh = VAL_GPIODCRH\<rparr>"
| "pal_default_config GPIOE = \<lparr>gp_odr = VAL_GPIOEODR, gp_crl = VAL_GPIOECRL, gp_crh = VAL_GPIOECRH\<rparr>"

text \<open>The modes, by the value of the nibble as the comment in \<open>board.h\<close> lists them.\<close>

datatype pin_mode =
    Analog_input | Push_pull nat | Digital_input | Open_drain nat | Pulled_input
  | Alternate_push_pull nat | Reserved_mode | Alternate_open_drain nat

definition pin_modes :: "pin_mode list" where
  "pin_modes = [Analog_input, Push_pull 10, Push_pull 2, Push_pull 50, Digital_input,
     Open_drain 10, Open_drain 2, Open_drain 50, Pulled_input,
     Alternate_push_pull 10, Alternate_push_pull 2, Alternate_push_pull 50, Reserved_mode,
     Alternate_open_drain 10, Alternate_open_drain 2, Alternate_open_drain 50]"

text \<open>Pads 0 to 7 have their nibbles in \<open>CRL\<close>, lowest pad first, pads 8 to 15 in \<open>CRH\<close>.\<close>

definition pad_mode :: "gpio \<Rightarrow> nat \<Rightarrow> pin_mode" where
  "pad_mode port pad =
     (let c = pal_default_config port;
          cr = (if pad < 8 then gp_crl c else gp_crh c)
      in pin_modes ! (unat cr div 16 ^ (pad mod 8) mod 16))"

section \<open>Pads\<close>

definition LED_STATUS_GPIO :: gpio where "LED_STATUS_GPIO = GPIOC"
definition LED_STATUS_RED :: nat where "LED_STATUS_RED = 15"
definition LED_STATUS_GREEN :: nat where "LED_STATUS_GREEN = 14"
definition LED_RF_GPIO :: gpio where "LED_RF_GPIO = GPIOB"
definition LED_RF :: nat where "LED_RF = 5"
definition CAN_SHDN_GPIO :: gpio where "CAN_SHDN_GPIO = GPIOA"
definition CAN_SHDN :: nat where "CAN_SHDN = 8"
definition ETH_RST_GPIO :: gpio where "ETH_RST_GPIO = GPIOA"
definition ETH_RST :: nat where "ETH_RST = 4"
definition RF_GPIO :: gpio where "RF_GPIO = GPIOB"
definition RF_CSN :: nat where "RF_CSN = 3"
definition RF_CE :: nat where "RF_CE = 4"

lemmas pad_defs =
  LED_STATUS_GPIO_def LED_STATUS_RED_def LED_STATUS_GREEN_def LED_RF_GPIO_def LED_RF_def
  CAN_SHDN_GPIO_def CAN_SHDN_def ETH_RST_GPIO_def ETH_RST_def RF_GPIO_def RF_CSN_def RF_CE_def

type_synonym latch = "gpio \<Rightarrow> u32"

definition palSetPad :: "gpio \<Rightarrow> nat \<Rightarrow> latch \<Rightarrow> latch" where
  "palSetPad port pad odr = odr(port := set_bit pad (odr port))"

definition palClearPad :: "gpio \<Rightarrow> nat \<Rightarrow> latch \<Rightarrow> latch" where
  "palClearPad port pad odr = odr(port := unset_bit pad (odr port))"

definition palTogglePad :: "gpio \<Rightarrow> nat \<Rightarrow> latch \<Rightarrow> latch" where
  "palTogglePad port pad odr = odr(port := flip_bit pad (odr port))"

definition led_red_on :: "latch \<Rightarrow> latch" where
  "led_red_on = palSetPad LED_STATUS_GPIO LED_STATUS_RED"
definition led_red_off :: "latch \<Rightarrow> latch" where
  "led_red_off = palClearPad LED_STATUS_GPIO LED_STATUS_RED"
definition led_red_toggle :: "latch \<Rightarrow> latch" where
  "led_red_toggle = palTogglePad LED_STATUS_GPIO LED_STATUS_RED"
definition led_green_on :: "latch \<Rightarrow> latch" where
  "led_green_on = palSetPad LED_STATUS_GPIO LED_STATUS_GREEN"
definition led_green_off :: "latch \<Rightarrow> latch" where
  "led_green_off = palClearPad LED_STATUS_GPIO LED_STATUS_GREEN"
definition led_green_toggle :: "latch \<Rightarrow> latch" where
  "led_green_toggle = palTogglePad LED_STATUS_GPIO LED_STATUS_GREEN"
definition led_rf_on :: "latch \<Rightarrow> latch" where
  "led_rf_on = palSetPad LED_RF_GPIO LED_RF"
definition led_rf_off :: "latch \<Rightarrow> latch" where
  "led_rf_off = palClearPad LED_RF_GPIO LED_RF"
definition can_xcvr_enable :: "latch \<Rightarrow> latch" where
  "can_xcvr_enable = palClearPad CAN_SHDN_GPIO CAN_SHDN"
definition can_xcvr_disable :: "latch \<Rightarrow> latch" where
  "can_xcvr_disable = palSetPad CAN_SHDN_GPIO CAN_SHDN"
definition eth_reset_l :: "latch \<Rightarrow> latch" where
  "eth_reset_l = palClearPad ETH_RST_GPIO ETH_RST"
definition eth_reset_h :: "latch \<Rightarrow> latch" where
  "eth_reset_h = palSetPad ETH_RST_GPIO ETH_RST"

text \<open>The macros by their pad, and the level each gives it.\<close>

definition pad_macros :: "((latch \<Rightarrow> latch) \<times> gpio \<times> nat \<times> bool) list" where
  "pad_macros =
     [(led_red_on, GPIOC, 15, True), (led_red_off, GPIOC, 15, False),
      (led_green_on, GPIOC, 14, True), (led_green_off, GPIOC, 14, False),
      (led_rf_on, GPIOB, 5, True), (led_rf_off, GPIOB, 5, False),
      (can_xcvr_enable, GPIOA, 8, False), (can_xcvr_disable, GPIOA, 8, True),
      (eth_reset_l, GPIOA, 4, False), (eth_reset_h, GPIOA, 4, True)]"

definition boot_latch :: latch where
  "boot_latch port = gp_odr (pal_default_config port)"

text \<open>The output pads of the firmware: LEDs, CAN transceiver, Ethernet reset, radio.\<close>

definition output_pads :: "(gpio \<times> nat) list" where
  "output_pads = [(LED_STATUS_GPIO, LED_STATUS_RED), (LED_STATUS_GPIO, LED_STATUS_GREEN), (LED_RF_GPIO, LED_RF),
     (CAN_SHDN_GPIO, CAN_SHDN), (ETH_RST_GPIO, ETH_RST), (RF_GPIO, RF_CSN), (RF_GPIO, RF_CE)]"

section \<open>External interrupts\<close>

datatype ext_mode = EXT_CH_MODE_DISABLED | EXT_falling_autostart gpio

datatype ext_cb = Eth_ext_irq | Nrf_ext_irq

definition extcfg :: "(ext_mode \<times> ext_cb option) list" where
  "extcfg =
     [(EXT_CH_MODE_DISABLED, None), (EXT_CH_MODE_DISABLED, None),
      (EXT_CH_MODE_DISABLED, None), (EXT_CH_MODE_DISABLED, None),
      (EXT_CH_MODE_DISABLED, None), (EXT_falling_autostart GPIOA, Some Eth_ext_irq),
      (EXT_CH_MODE_DISABLED, None), (EXT_CH_MODE_DISABLED, None),
      (EXT_CH_MODE_DISABLED, None), (EXT_CH_MODE_DISABLED, None),
      (EXT_CH_MODE_DISABLED, None), (EXT_CH_MODE_DISABLED, None),
      (EXT_CH_MODE_DISABLED, None), (EXT_CH_MODE_DISABLED, None),
      (EXT_CH_MODE_DISABLED, None), (EXT_falling_autostart GPIOA, Some Nrf_ext_irq),
      (EXT_CH_MODE_DISABLED, None), (EXT_CH_MODE_DISABLED, None),
      (EXT_CH_MODE_DISABLED, None), (EXT_CH_MODE_DISABLED, None)]"

text \<open>The remapping \<open>boardInit\<close> adds to the register \<open>MAPR\<close>; the masks are those of the device header.\<close>

definition boardInit :: "u32 \<Rightarrow> u32 \<Rightarrow> u32 \<Rightarrow> u32 \<Rightarrow> u32 \<Rightarrow> u32" where
  "boardInit SWJ_CFG_DISABLE USART1_REMAP SPI3_REMAP CAN_REMAP_REMAP2 MAPR =
     MAPR OR (SWJ_CFG_DISABLE OR USART1_REMAP OR SPI3_REMAP OR CAN_REMAP_REMAP2)"

lemmas pad_macro_defs =
  led_red_on_def led_red_off_def led_red_toggle_def led_green_on_def led_green_off_def led_green_toggle_def
  led_rf_on_def led_rf_off_def can_xcvr_enable_def can_xcvr_disable_def eth_reset_l_def eth_reset_h_def pad_defs

lemma pad_bits:
  "pad < 32 \<Longrightarrow> bit (palSetPad port pad odr port') pad' = (if port' = port \<and> pad' = pad then True else bit (odr port') pad')"
  "bit (palClearPad port pad odr port') pad' = (if port' = port \<and> pad' = pad then False else bit (odr port') pad')"
  by (auto simp: palSetPad_def palClearPad_def bit_set_bit_iff bit_unset_bit_iff)

lemma palTogglePad_twice: "palTogglePad port pad (palTogglePad port pad odr) = odr"
  by (rule ext) (auto simp: palTogglePad_def intro!: bit_word_eqI simp: bit_flip_bit_iff)

lemma palTogglePad_bit: "pad < 32 \<Longrightarrow> bit (palTogglePad port pad odr port) pad = (\<not> bit (odr port) pad)"
  by (simp add: palTogglePad_def bit_flip_bit_iff)

section \<open>What the configuration gives\<close>

fun is_push_pull :: "pin_mode \<Rightarrow> bool" where
  "is_push_pull (Push_pull n) = True"
| "is_push_pull m = False"

fun is_input :: "pin_mode \<Rightarrow> bool" where
  "is_input Digital_input = True"
| "is_input Pulled_input = True"
| "is_input m = False"

text \<open>
  The pins are configured for what drives them: every pad a macro changes is a push-pull
  output; at boot the LEDs are dark, the CAN transceiver is shut down, the Ethernet chip is held in
  reset and the radio is deselected with its enable low; no pad has the reserved mode. The enabled interrupt channels are
  exactly 5 and 15, on pads PA5 and PA15, which are pulled-up inputs, and channel
  15 runs the handler that kicks the radio thread.
\<close>

theorem board_pins:
  "list_all (\<lambda>(port, pad). is_push_pull (pad_mode port pad)) output_pads
    \<and> map (\<lambda>(port, pad). bit (boot_latch port) pad) output_pads
        = [False, False, False, True, False, True, False]
    \<and> (\<forall>port. list_all (\<lambda>pad. pad_mode port pad \<noteq> Reserved_mode) [0..<16])
    \<and> map (\<lambda>n. (n, extcfg ! n)) (filter (\<lambda>n. fst (extcfg ! n) \<noteq> EXT_CH_MODE_DISABLED) [0..<length extcfg])
        = [(5, EXT_falling_autostart GPIOA, Some Eth_ext_irq), (15, EXT_falling_autostart GPIOA, Some Nrf_ext_irq)]
    \<and> pad_mode GPIOA 5 = Pulled_input \<and> pad_mode GPIOA 15 = Pulled_input
    \<and> bit (boot_latch GPIOA) 5 \<and> bit (boot_latch GPIOA) 15"
proof -
  have "list_all (\<lambda>pad. pad_mode port pad \<noteq> Reserved_mode) [0..<16]" for port
    by (cases port) (simp_all add: pad_mode_def pin_modes_def val_gpio_defs upt_rec)
  moreover have "list_all (\<lambda>(port, pad). is_push_pull (pad_mode port pad)) output_pads"
    by (simp add: output_pads_def pad_defs pad_mode_def pin_modes_def val_gpio_defs)
  moreover have "map (\<lambda>(port, pad). bit (boot_latch port) pad) output_pads
      = [False, False, False, True, False, True, False]"
    by (simp add: output_pads_def pad_defs boot_latch_def val_gpio_defs)
  moreover have "map (\<lambda>n. (n, extcfg ! n)) (filter (\<lambda>n. fst (extcfg ! n) \<noteq> EXT_CH_MODE_DISABLED) [0..<length extcfg])
      = [(5, EXT_falling_autostart GPIOA, Some Eth_ext_irq), (15, EXT_falling_autostart GPIOA, Some Nrf_ext_irq)]"
    by (simp add: extcfg_def upt_rec)
  moreover have "pad_mode GPIOA 5 = Pulled_input" "pad_mode GPIOA 15 = Pulled_input"
    "bit (boot_latch GPIOA) 5" "bit (boot_latch GPIOA) 15"
    by (simp_all add: pad_mode_def pin_modes_def boot_latch_def val_gpio_defs)
  ultimately show ?thesis by blast
qed

text \<open>
  The pad macros change one pad each: a macro gives its own pad its level and leaves every other
  pad of every port as it was; a toggle inverts its pad, and twice is nothing.
\<close>

theorem pad_macros_effect:
  "list_all (\<lambda>(f, port, pad, level). \<forall>odr port' pad'.
      bit (f odr port') pad' = (if port' = port \<and> pad' = pad then level else bit (odr port') pad')) pad_macros
    \<and> (\<forall>odr. led_red_toggle (led_red_toggle odr) = odr \<and> led_green_toggle (led_green_toggle odr) = odr)
    \<and> (\<forall>odr. bit (led_red_toggle odr GPIOC) 15 = (\<not> bit (odr GPIOC) 15)
         \<and> bit (led_green_toggle odr GPIOC) 14 = (\<not> bit (odr GPIOC) 14))"
proof (intro conjI allI)
  show "list_all (\<lambda>(f, port, pad, level). \<forall>odr port' pad'.
      bit (f odr port') pad' = (if port' = port \<and> pad' = pad then level else bit (odr port') pad')) pad_macros"
    by (simp add: pad_macros_def pad_macro_defs pad_bits)
qed (simp_all add: pad_macro_defs palTogglePad_twice palTogglePad_bit)

end
