(* ===== verification/Config.thy ===== *)
theory Config
  imports Servers Board
begin

text \<open>
  The options the firmware gives to lwIP and to the clock driver: the part of
  \<^verbatim>\<open>firmware/lwipopts.h\<close> whose comments state a constraint between options, and the clock settings of
  \<^verbatim>\<open>firmware/mcuconf.h\<close>. Options defined from the segment size are functions of it, as
  the macros are. The theorems show that the constraints in the comments hold, that lwIP's pools cover the connections the
  servers own at any moment (with \<^verbatim>\<open>Servers\<close>), and which frequencies the clock settings give.
\<close>

section \<open>Memory and TCP options\<close>

definition MEMP_NUM_TCP_PCB :: nat where "MEMP_NUM_TCP_PCB = 10"
definition MEMP_NUM_TCP_PCB_LISTEN :: nat where "MEMP_NUM_TCP_PCB_LISTEN = 8"
definition MEMP_NUM_NETCONN :: nat where "MEMP_NUM_NETCONN = 10"
definition PBUF_POOL_SIZE :: nat where "PBUF_POOL_SIZE = 16"
definition IP_REASS_MAX_PBUFS :: nat where "IP_REASS_MAX_PBUFS = 10"
definition TCP_MSS :: nat where "TCP_MSS = 536"
definition ETH_PAD_SIZE :: nat where "ETH_PAD_SIZE = 0"
definition LWIP_ARP :: nat where "LWIP_ARP = 1"
definition IP_REASSEMBLY :: nat where "IP_REASSEMBLY = 1"
definition LWIP_DHCP :: nat where "LWIP_DHCP = 1"
definition LWIP_AUTOIP :: nat where "LWIP_AUTOIP = 0"
definition LWIP_IGMP :: nat where "LWIP_IGMP = 0"
definition LWIP_DNS :: nat where "LWIP_DNS = 1"
definition LWIP_TCP :: nat where "LWIP_TCP = 1"
definition PPP_SUPPORT :: nat where "PPP_SUPPORT = 0"

definition MEMP_NUM_SYS_TIMEOUT :: nat where
  "MEMP_NUM_SYS_TIMEOUT =
     LWIP_TCP + IP_REASSEMBLY + LWIP_ARP + 2 * LWIP_DHCP + LWIP_AUTOIP + LWIP_IGMP + LWIP_DNS + PPP_SUPPORT"

definition TCP_WND :: "nat \<Rightarrow> nat" where
  "TCP_WND mss = 4 * mss"

definition TCP_SND_BUF :: "nat \<Rightarrow> nat" where
  "TCP_SND_BUF mss = 2 * mss"

definition TCP_SND_QUEUELEN :: "nat \<Rightarrow> nat" where
  "TCP_SND_QUEUELEN mss = (4 * TCP_SND_BUF mss + (mss - 1)) div mss"

definition TCP_SNDLOWAT :: "nat \<Rightarrow> nat" where
  "TCP_SNDLOWAT mss = min (max (TCP_SND_BUF mss div 2) (2 * mss + 1)) (TCP_SND_BUF mss - 1)"

definition TCP_SNDQUEUELOWAT :: "nat \<Rightarrow> nat" where
  "TCP_SNDQUEUELOWAT mss = max (TCP_SND_QUEUELEN mss div 2) 5"

definition TCP_OVERSIZE :: "nat \<Rightarrow> nat" where
  "TCP_OVERSIZE mss = mss"

definition TCP_WND_UPDATE_THRESHOLD :: "nat \<Rightarrow> nat" where
  "TCP_WND_UPDATE_THRESHOLD mss = TCP_WND mss div 4"

definition PBUF_LINK_HLEN :: nat where
  "PBUF_LINK_HLEN = 14 + ETH_PAD_SIZE"

text \<open>\<open>align\<close> is lwIP's \<open>LWIP_MEM_ALIGN_SIZE\<close>, which rounds up to the alignment.\<close>

definition PBUF_POOL_BUFSIZE :: "(nat \<Rightarrow> nat) \<Rightarrow> nat \<Rightarrow> nat" where
  "PBUF_POOL_BUFSIZE align mss = align (mss + 40 + PBUF_LINK_HLEN)"

lemma queuelen_8: "0 < mss \<Longrightarrow> TCP_SND_QUEUELEN mss = 8"
proof -
  assume "0 < mss"
  then have "(mss * 8 + (mss - 1)) div mss = 8"
    by (simp only: div_mult_self4) simp
  moreover have "4 * TCP_SND_BUF mss + (mss - 1) = mss * 8 + (mss - 1)" by (simp add: TCP_SND_BUF_def)
  ultimately show ?thesis by (simp only: TCP_SND_QUEUELEN_def)
qed

text \<open>
  The constraints the comments of \<open>lwipopts.h\<close> place on the options hold, for the segment size in use and
  for every other positive one: window and send buffer of at least two segments, a send queue of at least twice the buffer in
  segments, low-water marks below the buffer and the queue, a pool buffer that holds a full frame, and
  more pool buffers than reassembly may keep.
\<close>

theorem lwip_option_constraints:
  assumes "0 < mss" and "\<forall>n. n \<le> align n"
  shows "2 * mss \<le> TCP_WND mss \<and> 2 * mss \<le> TCP_SND_BUF mss
    \<and> 2 * TCP_SND_BUF mss div mss \<le> TCP_SND_QUEUELEN mss
    \<and> TCP_SNDLOWAT mss < TCP_SND_BUF mss \<and> TCP_SNDQUEUELOWAT mss < TCP_SND_QUEUELEN mss
    \<and> TCP_OVERSIZE mss \<le> mss \<and> TCP_WND_UPDATE_THRESHOLD mss \<le> TCP_WND mss
    \<and> mss + 20 + 20 + 14 \<le> PBUF_POOL_BUFSIZE align mss
    \<and> IP_REASS_MAX_PBUFS < PBUF_POOL_SIZE
    \<and> TCP_SNDLOWAT TCP_MSS = 1071 \<and> TCP_SND_QUEUELEN TCP_MSS = 8 \<and> MEMP_NUM_SYS_TIMEOUT = 6"
proof -
  have "mss + 40 + 14 \<le> PBUF_POOL_BUFSIZE align mss"
    using assms(2) by (simp add: PBUF_POOL_BUFSIZE_def PBUF_LINK_HLEN_def ETH_PAD_SIZE_def)
  then show ?thesis
    using assms(1) queuelen_8 [of mss] queuelen_8 [of TCP_MSS]
    by (simp add: TCP_WND_def TCP_SND_BUF_def TCP_SNDLOWAT_def TCP_SNDQUEUELOWAT_def TCP_OVERSIZE_def
        TCP_WND_UPDATE_THRESHOLD_def IP_REASS_MAX_PBUFS_def PBUF_POOL_SIZE_def TCP_MSS_def MEMP_NUM_SYS_TIMEOUT_def
        LWIP_TCP_def IP_REASSEMBLY_def LWIP_ARP_def LWIP_DHCP_def LWIP_AUTOIP_def LWIP_IGMP_def LWIP_DNS_def
        PPP_SUPPORT_def)
qed

theorem lwip_option_constraints_witness:
  "536 + 20 + 20 + 14 \<le> PBUF_POOL_BUFSIZE (\<lambda>n. (n + 3) div 4 * 4) 536"
proof -
  have "\<forall>n :: nat. n \<le> (n + 3) div 4 * 4" by (intro allI) linarith
  from lwip_option_constraints [OF _ this, of 536] show ?thesis by simp
qed

section \<open>Connections and lwIP's pools\<close>

text \<open>
  C37. The two servers' connections fit lwIP's pools together. For every history of the web server as in its protocol
  theorem (no request read past its end, room in the radio's queue) and every history of the frame server, both loops go
  on, and whatever moment the one is at and whatever moment the other, their calls so far are legal and the connections they hold, the
  two listening ones included, are no more than the netconns, the TCP connections and the listeners
  configured. Counted are connections the servers have accepted and not deleted; those that wait in lwIP to
  be accepted are not in the model.
\<close>

theorem netconn_pool_suffices:
  assumes "printf_laws pf" and "list_all (handled ops) ts"
    and "buffer_ok sys" "ns_log (hs_net sys) = []" "list_all (other_client l) ts"
    and "all_fit rawd_try (rawd_fits k) es (rawd_listening k)"
  shows "\<exists>sys' s'. httpd_loop pf ops (Some l) ts sys = Inr (None, sys') \<and> rawd_loop (Some k) es rawd_boot = (None, s')
    \<and> (\<forall>p q. prefix p (http_calls sys') \<and> prefix q (rawd_calls s') \<longrightarrow>
         (\<exists>m n. conn_run p Map.empty = Some m \<and> conn_run q Map.empty = Some n
            \<and> card (dom m) + card (dom n) \<le> min MEMP_NUM_NETCONN (min MEMP_NUM_TCP_PCB MEMP_NUM_TCP_PCB_LISTEN)))"
proof -
  obtain sys' where h: "httpd_loop pf ops (Some l) ts sys = Inr (None, sys')"
    using handled_loop [OF assms(1-3)] by blast
  obtain q s' where r: "rawd_loop (Some k) es rawd_boot = (q, s')" by fastforce
  note w = httpd_loop_run [OF h assms(3-5)] and f = rawd_loop_run [OF assms(6) r]
  have "\<exists>m n. conn_run p Map.empty = Some m \<and> conn_run q Map.empty = Some n
      \<and> card (dom m) + card (dom n) \<le> min MEMP_NUM_NETCONN (min MEMP_NUM_TCP_PCB MEMP_NUM_TCP_PCB_LISTEN)"
    if pq: "prefix p (http_calls sys')" "prefix q (rawd_calls s')" for p q
  proof -
    obtain m where m: "conn_run p Map.empty = Some m" "card (dom m) \<le> 2"
      using w pq(1) unfolding at_most_def by blast
    obtain n where n: "conn_run q Map.empty = Some n" "card (dom n) \<le> 5"
      using f pq(2) unfolding at_most_def by blast
    show ?thesis
      using m n by (simp add: MEMP_NUM_NETCONN_def MEMP_NUM_TCP_PCB_def MEMP_NUM_TCP_PCB_LISTEN_def)
  qed
  then show ?thesis using h r f by blast
qed

text \<open>A failed accept of one server; two clients of the other, a frame, and the first client leaving.\<close>

theorem netconn_pool_suffices_witness:
  "\<exists>sys' s'. httpd_loop plain_printf fifo_ops (Some 5) [demo_turn (Some (9, None))] demo_sys = Inr (None, sys')
    \<and> rawd_loop (Some 6) rawd_demo rawd_boot = (None, s')
    \<and> (\<exists>m n. conn_run (http_calls sys') Map.empty = Some m \<and> conn_run (rawd_calls s') Map.empty = Some n
         \<and> card (dom m) + card (dom n) \<le> 8)"
proof -
  have h: "list_all (handled fifo_ops) [demo_turn (Some (9, None))]"
    by (simp add: handled_def servable_def PAYLOADSZ_def)
  have t: "list_all (other_client 5) [demo_turn (Some (9, None))]" by (simp add: other_client_def)
  have f: "all_fit rawd_try (rawd_fits 6) rawd_demo (rawd_listening 6)"
    by (simp add: rawd_demo_def rawd_eval rawd_fits_def rawd_listening_def wf_raw_def PAYLOADSZ_def)
  have "min MEMP_NUM_NETCONN (min MEMP_NUM_TCP_PCB MEMP_NUM_TCP_PCB_LISTEN) = 8"
    by (simp add: MEMP_NUM_NETCONN_def MEMP_NUM_TCP_PCB_def MEMP_NUM_TCP_PCB_LISTEN_def)
  with netconn_pool_suffices [OF plain.printf_laws_axioms h demo_ok t f] show ?thesis by fastforce
qed

section \<open>Clocks\<close>

text \<open>The clock settings; frequencies in Hz.\<close>

definition STM32_HSECLK :: nat where "STM32_HSECLK = 25000000"

record clock_config =
  ck_PREDIV1_VALUE :: nat
  ck_PLLMUL_VALUE :: nat
  ck_PREDIV2_VALUE :: nat
  ck_PLL2MUL_VALUE :: nat
  ck_PLL3MUL_VALUE :: nat
  ck_HPRE :: nat
  ck_PPRE1 :: nat
  ck_PPRE2 :: nat
  ck_OTGFSPRE :: nat

definition mcuconf :: clock_config where
  "mcuconf = \<lparr>ck_PREDIV1_VALUE = 5, ck_PLLMUL_VALUE = 9, ck_PREDIV2_VALUE = 5, ck_PLL2MUL_VALUE = 8,
     ck_PLL3MUL_VALUE = 10, ck_HPRE = 1, ck_PPRE1 = 2, ck_PPRE2 = 2, ck_OTGFSPRE = 3\<rparr>"

text \<open>
  The clock tree of the device, with the system clock taken from the PLL, the PLL from PREDIV1 and
  PREDIV1 from PLL2, as the settings select: the frequencies are related as its reference manual says. The USB divider
  applies to twice the PLL output; the MCO pin carries PLL3.
\<close>

record clock_tree =
  ct_pll2 :: nat
  ct_pll :: nat
  ct_sysclk :: nat
  ct_hclk :: nat
  ct_pclk1 :: nat
  ct_pclk2 :: nat
  ct_usb :: nat
  ct_mco :: nat

definition f107_clocks :: "nat \<Rightarrow> clock_config \<Rightarrow> clock_tree \<Rightarrow> bool" where
  "f107_clocks hse c t \<longleftrightarrow>
     ct_pll2 t * ck_PREDIV2_VALUE c = hse * ck_PLL2MUL_VALUE c
     \<and> ct_pll t * ck_PREDIV1_VALUE c = ct_pll2 t * ck_PLLMUL_VALUE c
     \<and> ct_sysclk t = ct_pll t \<and> ct_hclk t * ck_HPRE c = ct_sysclk t
     \<and> ct_pclk1 t * ck_PPRE1 c = ct_hclk t \<and> ct_pclk2 t * ck_PPRE2 c = ct_hclk t
     \<and> ct_usb t * ck_OTGFSPRE c = 2 * ct_pll t
     \<and> ct_mco t * ck_PREDIV2_VALUE c = hse * ck_PLL3MUL_VALUE c"

text \<open>
  \<open>spicfg\<close> of \<^verbatim>\<open>nrf24l01p.c\<close>: no end callback, the pin of the radio's chip select, and the CR1 register, for
  the bit \<open>SPI_CR1_BR_0\<close> of a header of the device. The rate field of CR1 is bits 3 to 5 and divides the bus
  clock by \<open>2 ^ (rate + 1)\<close> (STM32 reference manual).
\<close>

record spi_config =
  sc_end_cb :: "string option"
  sc_ssport :: gpio
  sc_sspad :: nat
  sc_cr1 :: u16

definition spicfg :: "u16 \<Rightarrow> spi_config" where
  "spicfg SPI_CR1_BR_0 =
     \<lparr>sc_end_cb = None, sc_ssport = RF_GPIO, sc_sspad = RF_CSN, sc_cr1 = SPI_CR1_BR_0\<rparr>"

definition spi_clock :: "nat \<Rightarrow> spi_config \<Rightarrow> nat" where
  "spi_clock pclk c = pclk div 2 ^ (unat (drop_bit 3 (sc_cr1 c) AND 7) + 1)"

text \<open>
  The clock settings give the frequencies the board needs: 72 MHz for the processor, at most 36 MHz on the first peripheral
  bus, exactly 48 MHz for USB and 50 MHz on MCO for the Ethernet chip; the SPI bus
  runs at the 9 MHz the comment in \<open>nrf24l01p.c\<close> names, under the 10 MHz of the radio, and selects the
  radio by one of the output pins.
\<close>

theorem clock_frequencies:
  assumes "f107_clocks STM32_HSECLK mcuconf t" and "SPI_CR1_BR_0 = 0x0008"
  shows "ct_sysclk t = 72000000 \<and> ct_pclk1 t = 36000000 \<and> ct_usb t = 48000000 \<and> ct_mco t = 50000000
    \<and> spi_clock (ct_pclk1 t) (spicfg SPI_CR1_BR_0) = 9000000
    \<and> (sc_ssport (spicfg SPI_CR1_BR_0), sc_sspad (spicfg SPI_CR1_BR_0)) \<in> set output_pads"
proof -
  have "ct_sysclk t = 72000000 \<and> ct_pclk1 t = 36000000 \<and> ct_usb t = 48000000 \<and> ct_mco t = 50000000"
    using assms(1) unfolding f107_clocks_def mcuconf_def STM32_HSECLK_def clock_config.simps by linarith
  then show ?thesis
    using assms(2) by (simp add: spi_clock_def spicfg_def output_pads_def)
qed

theorem clock_frequencies_witness:
  "spi_clock 36000000 (spicfg 0x0008) = 9000000"
proof -
  let ?t = "\<lparr>ct_pll2 = 40000000, ct_pll = 72000000, ct_sysclk = 72000000, ct_hclk = 72000000, ct_pclk1 = 36000000,
     ct_pclk2 = 36000000, ct_usb = 48000000, ct_mco = 50000000\<rparr>"
  have "f107_clocks STM32_HSECLK mcuconf ?t" by (simp add: f107_clocks_def mcuconf_def STM32_HSECLK_def)
  from clock_frequencies [OF this, of "0x0008"] show ?thesis by simp
qed

end
