(* ===== verification/Lwip_Options.thy ===== *)
theory Lwip_Options
  imports Config
begin

text \<open>
  All options of \<^verbatim>\<open>firmware/lwipopts.h\<close> with a value, one list per section of the header, in the order of the file. The
  body of a macro is kept as an expression, because the preprocessor replaces the names in it where the macro is
  used, not where it is defined (\<open>TCP_WND\<close> refers to \<open>TCP_MSS\<close>, which comes later); \<open>c_expand\<close> computes the value at
  the place of use, \<open>lwipopts\<close> the options left by the header's two conditionals, which are
  decided with what is defined above them. What lwIP, ChibiOS and the C library define (the debug flags, \<open>LOWPRIO\<close>,
  \<open>INT_MAX\<close>, a size, and the macros \<open>LWIP_MAX\<close>, \<open>LWIP_MIN\<close> and \<open>LWIP_MEM_ALIGN_SIZE\<close>) are parameters.
  The two function-like macros of the header, which rename \<open>memcpy\<close>, are left out. The lemmas show that nesting is bounded
  so that the fuel does not matter, the theorem that every option has a value and that the values fit each other.
\<close>

section \<open>Macro bodies and their expansion\<close>

datatype c_exp =
    CNum int | CStr string | CMac string | CCall string "c_exp list"
  | CAdd c_exp c_exp | CSub c_exp c_exp | CMul c_exp c_exp | CDiv c_exp c_exp
  | COr c_exp c_exp | CAnd c_exp c_exp | CEq c_exp c_exp | CNot c_exp

type_synonym c_options = "(string \<times> c_exp) list"

definition c_both :: "(int \<Rightarrow> int \<Rightarrow> int) \<Rightarrow> int option \<Rightarrow> int option \<Rightarrow> int option" where
  "c_both g a b = (case (a, b) of (Some x, Some y) \<Rightarrow> Some (g x y) | _ \<Rightarrow> None)"

text \<open>Division truncates and has no value for a zero divisor; truth values are 0 and 1.\<close>

definition c_quotient :: "int option \<Rightarrow> int option \<Rightarrow> int option" where
  "c_quotient a b = (case (a, b) of (Some x, Some y) \<Rightarrow>
       if y = 0 then None else Some (sgn x * sgn y * (\<bar>x\<bar> div \<bar>y\<bar>)) | _ \<Rightarrow> None)"

text \<open>
  \<open>lib\<close> gives the names defined elsewhere and \<open>fn\<close> the function-like macros; \<open>k\<close> bounds how deep names nest.
\<close>

fun c_expand :: "nat \<Rightarrow> (string \<Rightarrow> int option) \<Rightarrow> (string \<Rightarrow> int list \<Rightarrow> int option) \<Rightarrow> c_options \<Rightarrow> c_exp \<Rightarrow> int option" where
  "c_expand k lib fn os (CNum n) = Some n"
| "c_expand k lib fn os (CStr s) = None"
| "c_expand k lib fn os (CMac n) =
     (case map_of os n of
        None \<Rightarrow> lib n
      | Some e \<Rightarrow> (case k of 0 \<Rightarrow> None | Suc j \<Rightarrow> c_expand j lib fn os e))"
| "c_expand k lib fn os (CCall g es) = Option.bind (those (map (\<lambda>e. c_expand k lib fn os e) es)) (fn g)"
| "c_expand k lib fn os (CAdd a b) = c_both (+) (c_expand k lib fn os a) (c_expand k lib fn os b)"
| "c_expand k lib fn os (CSub a b) = c_both (-) (c_expand k lib fn os a) (c_expand k lib fn os b)"
| "c_expand k lib fn os (CMul a b) = c_both (*) (c_expand k lib fn os a) (c_expand k lib fn os b)"
| "c_expand k lib fn os (CDiv a b) = c_quotient (c_expand k lib fn os a) (c_expand k lib fn os b)"
| "c_expand k lib fn os (COr a b) =
     c_both (\<lambda>x y. of_bool (x \<noteq> 0 \<or> y \<noteq> 0)) (c_expand k lib fn os a) (c_expand k lib fn os b)"
| "c_expand k lib fn os (CAnd a b) =
     c_both (\<lambda>x y. of_bool (x \<noteq> 0 \<and> y \<noteq> 0)) (c_expand k lib fn os a) (c_expand k lib fn os b)"
| "c_expand k lib fn os (CEq a b) = c_both (\<lambda>x y. of_bool (x = y)) (c_expand k lib fn os a) (c_expand k lib fn os b)"
| "c_expand k lib fn os (CNot a) = map_option (\<lambda>x. of_bool (x = 0)) (c_expand k lib fn os a)"

text \<open>More fuel never changes a value.\<close>

lemma c_both_mono:
  "(\<And>x. a = Some x \<Longrightarrow> a' = Some x) \<Longrightarrow> (\<And>y. b = Some y \<Longrightarrow> b' = Some y)
   \<Longrightarrow> c_both g a b = Some v \<Longrightarrow> c_both g a' b' = Some v"
  by (cases a; cases b) (simp_all add: c_both_def)

lemma c_quotient_mono:
  "(\<And>x. a = Some x \<Longrightarrow> a' = Some x) \<Longrightarrow> (\<And>y. b = Some y \<Longrightarrow> b' = Some y)
   \<Longrightarrow> c_quotient a b = Some v \<Longrightarrow> c_quotient a' b' = Some v"
  by (cases a; cases b) (simp_all add: c_quotient_def)

lemma map_option_mono:
  "(\<And>x. a = Some x \<Longrightarrow> a' = Some x) \<Longrightarrow> map_option g a = Some v \<Longrightarrow> map_option g a' = Some v"
  by auto

lemma those_map_mono:
  "those (map f es) = Some vs \<Longrightarrow> (\<And>e v. e \<in> set es \<Longrightarrow> f e = Some v \<Longrightarrow> g e = Some v)
   \<Longrightarrow> those (map g es) = Some vs"
  by (induction es arbitrary: vs) (auto split: option.splits)

lemma c_expand_Suc: "c_expand k lib fn os e = Some v \<Longrightarrow> c_expand (Suc k) lib fn os e = Some v"
proof (induction k lib fn os e arbitrary: v rule: c_expand.induct)
  case (3 k lib fn os n)
  then show ?case by (cases k) (simp_all split: option.splits)
next
  case (4 k lib fn os g es)
  then obtain vs where vs: "those (map (\<lambda>e. c_expand k lib fn os e) es) = Some vs" "fn g vs = Some v"
    by (auto simp: Option.bind_eq_Some_conv)
  from vs(1) have "those (map (\<lambda>e. c_expand (Suc k) lib fn os e) es) = Some vs"
    by (rule those_map_mono) (rule 4(1))
  with vs(2) show ?case by simp
next
  case 5 then show ?case unfolding c_expand.simps by (rule c_both_mono)
next
  case 6 then show ?case unfolding c_expand.simps by (rule c_both_mono)
next
  case 7 then show ?case unfolding c_expand.simps by (rule c_both_mono)
next
  case 8 then show ?case unfolding c_expand.simps by (rule c_quotient_mono)
next
  case 9 then show ?case unfolding c_expand.simps by (rule c_both_mono)
next
  case 10 then show ?case unfolding c_expand.simps by (rule c_both_mono)
next
  case 11 then show ?case unfolding c_expand.simps by (rule c_both_mono)
next
  case 12 then show ?case unfolding c_expand.simps by (rule map_option_mono)
qed simp_all

lemma c_expand_more_fuel:
  "k \<le> m \<Longrightarrow> c_expand k lib fn os e = Some v \<Longrightarrow> c_expand m lib fn os e = Some v"
  by (induction m rule: dec_induct) (simp_all add: c_expand_Suc)

section \<open>The sections of the header\<close>

definition lwip_platform_specific_locking :: "c_options" where
  "lwip_platform_specific_locking =
    [(''SYS_LIGHTWEIGHT_PROT'', CNum 0), (''NO_SYS'', CNum 0), (''NO_SYS_NO_TIMERS'', CNum 0)]"

definition lwip_memory :: "c_options" where
  "lwip_memory =
    [(''MEM_LIBC_MALLOC'', CNum 0), (''MEMP_MEM_MALLOC'', CNum 0), (''MEM_ALIGNMENT'', CNum 4),
     (''MEM_SIZE'', CNum 1600), (''MEMP_SEPARATE_POOLS'', CNum 0), (''MEMP_OVERFLOW_CHECK'', CNum 0),
     (''MEMP_SANITY_CHECK'', CNum 0), (''MEM_USE_POOLS'', CNum 0), (''MEM_USE_POOLS_TRY_BIGGER_POOL'', CNum 0),
     (''MEMP_USE_CUSTOM_POOLS'', CNum 0), (''LWIP_ALLOW_MEM_FREE_FROM_OTHER_CONTEXT'', CNum 0)]"

definition lwip_internal_memory_pool_sizes :: "c_options" where
  "lwip_internal_memory_pool_sizes =
    [(''MEMP_NUM_PBUF'', CNum 16), (''MEMP_NUM_RAW_PCB'', CNum 4), (''MEMP_NUM_UDP_PCB'', CNum 4),
     (''MEMP_NUM_TCP_PCB'', CNum 10), (''MEMP_NUM_TCP_PCB_LISTEN'', CNum 8), (''MEMP_NUM_TCP_SEG'', CNum 16),
     (''MEMP_NUM_REASSDATA'', CNum 5), (''MEMP_NUM_FRAG_PBUF'', CNum 15), (''MEMP_NUM_ARP_QUEUE'', CNum 30),
     (''MEMP_NUM_IGMP_GROUP'', CNum 8),
     (''MEMP_NUM_SYS_TIMEOUT'', CAdd (CAdd (CAdd (CAdd (CAdd (CAdd (CAdd (CMac ''LWIP_TCP'') (CMac
         ''IP_REASSEMBLY'')) (CMac ''LWIP_ARP'')) (CMul (CNum 2) (CMac ''LWIP_DHCP''))) (CMac ''LWIP_AUTOIP''))
         (CMac ''LWIP_IGMP'')) (CMac ''LWIP_DNS'')) (CMac ''PPP_SUPPORT'')),
     (''MEMP_NUM_NETBUF'', CNum 2), (''MEMP_NUM_NETCONN'', CNum 10), (''MEMP_NUM_TCPIP_MSG_API'', CNum 8),
     (''MEMP_NUM_TCPIP_MSG_INPKT'', CNum 8), (''MEMP_NUM_SNMP_NODE'', CNum 50),
     (''MEMP_NUM_SNMP_ROOTNODE'', CNum 30), (''MEMP_NUM_SNMP_VARBIND'', CNum 2),
     (''MEMP_NUM_SNMP_VALUE'', CNum 3), (''MEMP_NUM_NETDB'', CNum 1), (''MEMP_NUM_LOCALHOSTLIST'', CNum 1),
     (''MEMP_NUM_PPPOE_INTERFACES'', CNum 1), (''PBUF_POOL_SIZE'', CNum 16)]"

definition lwip_arp :: "c_options" where
  "lwip_arp =
    [(''LWIP_ARP'', CNum 1), (''ARP_TABLE_SIZE'', CNum 10), (''ARP_QUEUEING'', CNum 0),
     (''ETHARP_TRUST_IP_MAC'', CNum 0), (''ETHARP_SUPPORT_VLAN'', CNum 0),
     (''LWIP_ETHERNET'', COr (CMac ''LWIP_ARP'') (CMac ''PPPOE_SUPPORT'')), (''ETH_PAD_SIZE'', CNum 0),
     (''ETHARP_SUPPORT_STATIC_ENTRIES'', CNum 0)]"

definition lwip_ip :: "c_options" where
  "lwip_ip =
    [(''IP_FORWARD'', CNum 0), (''IP_OPTIONS_ALLOWED'', CNum 1), (''IP_REASSEMBLY'', CNum 1),
     (''IP_FRAG'', CNum 1), (''IP_REASS_MAXAGE'', CNum 3), (''IP_REASS_MAX_PBUFS'', CNum 10),
     (''IP_FRAG_USES_STATIC_BUF'', CNum 0), (''IP_FRAG_MAX_MTU'', CNum 1500), (''IP_DEFAULT_TTL'', CNum 255),
     (''IP_SOF_BROADCAST'', CNum 0), (''IP_SOF_BROADCAST_RECV'', CNum 0),
     (''IP_FORWARD_ALLOW_TX_ON_RX_NETIF'', CNum 0), (''LWIP_RANDOMIZE_INITIAL_LOCAL_PORTS'', CNum 0)]"

definition lwip_icmp :: "c_options" where
  "lwip_icmp =
    [(''LWIP_ICMP'', CNum 1), (''ICMP_TTL'', CMac ''IP_DEFAULT_TTL''), (''LWIP_BROADCAST_PING'', CNum 0),
     (''LWIP_MULTICAST_PING'', CNum 0)]"

definition lwip_raw :: "c_options" where
  "lwip_raw =
    [(''LWIP_RAW'', CNum 1), (''RAW_TTL'', CMac ''IP_DEFAULT_TTL'')]"

definition lwip_dhcp :: "c_options" where
  "lwip_dhcp =
    [(''LWIP_DHCP'', CNum 1), (''DHCP_DOES_ARP_CHECK'', CAnd (CMac ''LWIP_DHCP'') (CMac ''LWIP_ARP''))]"

definition lwip_autoip :: "c_options" where
  "lwip_autoip =
    [(''LWIP_AUTOIP'', CNum 0), (''LWIP_DHCP_AUTOIP_COOP'', CNum 0), (''LWIP_DHCP_AUTOIP_COOP_TRIES'', CNum 9)]"

definition lwip_snmp :: "c_options" where
  "lwip_snmp =
    [(''LWIP_SNMP'', CNum 0), (''SNMP_CONCURRENT_REQUESTS'', CNum 1), (''SNMP_TRAP_DESTINATIONS'', CNum 1),
     (''SNMP_PRIVATE_MIB'', CNum 0), (''SNMP_SAFE_REQUESTS'', CNum 1),
     (''SNMP_MAX_OCTET_STRING_LEN'', CNum 127), (''SNMP_MAX_TREE_DEPTH'', CNum 15),
     (''SNMP_MAX_VALUE_SIZE'', CCall ''LWIP_MAX'' [CAdd (CMac ''SNMP_MAX_OCTET_STRING_LEN'') (CNum 1), CMul (CMac
         ''sizeof s32_t'') (CMac ''SNMP_MAX_TREE_DEPTH'')])]"

definition lwip_igmp :: "c_options" where
  "lwip_igmp =
    [(''LWIP_IGMP'', CNum 0)]"

definition lwip_dns :: "c_options" where
  "lwip_dns =
    [(''LWIP_DNS'', CNum 1), (''DNS_TABLE_SIZE'', CNum 4), (''DNS_MAX_NAME_LENGTH'', CNum 256),
     (''DNS_MAX_SERVERS'', CNum 2), (''DNS_DOES_NAME_CHECK'', CNum 1), (''DNS_MSG_SIZE'', CNum 512),
     (''DNS_LOCAL_HOSTLIST'', CNum 0), (''DNS_LOCAL_HOSTLIST_IS_DYNAMIC'', CNum 0)]"

definition lwip_udp :: "c_options" where
  "lwip_udp =
    [(''LWIP_UDP'', CNum 1), (''LWIP_UDPLITE'', CNum 0), (''UDP_TTL'', CMac ''IP_DEFAULT_TTL''),
     (''LWIP_NETBUF_RECVINFO'', CNum 0)]"

definition lwip_tcp :: "c_options" where
  "lwip_tcp =
    [(''LWIP_TCP'', CNum 1), (''TCP_TTL'', CMac ''IP_DEFAULT_TTL''),
     (''TCP_WND'', CMul (CNum 4) (CMac ''TCP_MSS'')), (''TCP_MAXRTX'', CNum 12), (''TCP_SYNMAXRTX'', CNum 6),
     (''TCP_QUEUE_OOSEQ'', CMac ''LWIP_TCP''), (''TCP_MSS'', CNum 536),
     (''TCP_CALCULATE_EFF_SEND_MSS'', CNum 1), (''TCP_SND_BUF'', CMul (CNum 2) (CMac ''TCP_MSS'')),
     (''TCP_SND_QUEUELEN'', CDiv (CAdd (CMul (CNum 4) (CMac ''TCP_SND_BUF'')) (CSub (CMac ''TCP_MSS'') (CNum 1)))
         (CMac ''TCP_MSS'')),
     (''TCP_SNDLOWAT'', CCall ''LWIP_MIN'' [CCall ''LWIP_MAX'' [CDiv (CMac ''TCP_SND_BUF'') (CNum 2), CAdd (CMul
         (CNum 2) (CMac ''TCP_MSS'')) (CNum 1)], CSub (CMac ''TCP_SND_BUF'') (CNum 1)]),
     (''TCP_SNDQUEUELOWAT'', CCall ''LWIP_MAX'' [CDiv (CMac ''TCP_SND_QUEUELEN'') (CNum 2), CNum 5]),
     (''TCP_OOSEQ_MAX_BYTES'', CNum 0), (''TCP_OOSEQ_MAX_PBUFS'', CNum 0), (''TCP_LISTEN_BACKLOG'', CNum 0),
     (''TCP_DEFAULT_LISTEN_BACKLOG'', CNum 255), (''TCP_OVERSIZE'', CMac ''TCP_MSS''),
     (''LWIP_TCP_TIMESTAMPS'', CNum 0), (''TCP_WND_UPDATE_THRESHOLD'', CDiv (CMac ''TCP_WND'') (CNum 4)),
     (''LWIP_EVENT_API'', CNum 0), (''LWIP_CALLBACK_API'', CNum 1)]"

definition lwip_pbuf :: "c_options" where
  "lwip_pbuf =
    [(''PBUF_LINK_HLEN'', CAdd (CNum 14) (CMac ''ETH_PAD_SIZE'')),
     (''PBUF_POOL_BUFSIZE'', CCall ''LWIP_MEM_ALIGN_SIZE'' [CAdd (CAdd (CMac ''TCP_MSS'') (CNum 40)) (CMac
         ''PBUF_LINK_HLEN'')])]"

definition lwip_network_interfaces :: "c_options" where
  "lwip_network_interfaces =
    [(''LWIP_NETIF_HOSTNAME'', CNum 1), (''NETIF_HOSTNAME'', CStr ''nrf-ethernet''),
     (''LWIP_NETIF_API'', CNum 0), (''LWIP_NETIF_STATUS_CALLBACK'', CNum 0),
     (''LWIP_NETIF_LINK_CALLBACK'', CNum 0), (''LWIP_NETIF_REMOVE_CALLBACK'', CNum 0),
     (''LWIP_NETIF_HWADDRHINT'', CNum 0), (''LWIP_NETIF_LOOPBACK'', CNum 0),
     (''LWIP_LOOPBACK_MAX_PBUFS'', CNum 0), (''LWIP_NETIF_LOOPBACK_MULTITHREADING'', CNot (CMac ''NO_SYS'')),
     (''LWIP_NETIF_TX_SINGLE_PBUF'', CNum 0)]"

definition lwip_loopif :: "c_options" where
  "lwip_loopif =
    [(''LWIP_HAVE_LOOPIF'', CNum 0)]"

definition lwip_slipif :: "c_options" where
  "lwip_slipif =
    [(''LWIP_HAVE_SLIPIF'', CNum 0)]"

definition lwip_thread :: "c_options" where
  "lwip_thread =
    [(''TCPIP_THREAD_NAME'', CStr ''tcpip_thread''), (''LWIP_THREAD_STACK_SIZE'', CNum 1536),
     (''TCPIP_THREAD_STACKSIZE'', CNum 1024), (''TCPIP_THREAD_PRIO'', CAdd (CMac ''LOWPRIO'') (CNum 1)),
     (''TCPIP_MBOX_SIZE'', CMac ''MEMP_NUM_PBUF''), (''SLIPIF_THREAD_NAME'', CStr ''slipif_loop''),
     (''SLIPIF_THREAD_STACKSIZE'', CNum 1024), (''SLIPIF_THREAD_PRIO'', CAdd (CMac ''LOWPRIO'') (CNum 1)),
     (''PPP_THREAD_NAME'', CStr ''pppInputThread''), (''PPP_THREAD_STACKSIZE'', CNum 1024),
     (''PPP_THREAD_PRIO'', CAdd (CMac ''LOWPRIO'') (CNum 1)), (''DEFAULT_THREAD_NAME'', CStr ''lwIP''),
     (''DEFAULT_THREAD_STACKSIZE'', CNum 1024), (''DEFAULT_THREAD_PRIO'', CAdd (CMac ''LOWPRIO'') (CNum 1)),
     (''DEFAULT_RAW_RECVMBOX_SIZE'', CNum 4), (''DEFAULT_UDP_RECVMBOX_SIZE'', CNum 4),
     (''DEFAULT_TCP_RECVMBOX_SIZE'', CNum 40), (''DEFAULT_ACCEPTMBOX_SIZE'', CNum 4)]"

definition lwip_sequential_layer :: "c_options" where
  "lwip_sequential_layer =
    [(''LWIP_TCPIP_CORE_LOCKING'', CNum 0), (''LWIP_TCPIP_CORE_LOCKING_INPUT'', CNum 0),
     (''LWIP_NETCONN'', CNum 1), (''LWIP_TCPIP_TIMEOUT'', CNum 1)]"

definition lwip_socket :: "c_options" where
  "lwip_socket =
    [(''LWIP_SOCKET'', CNum 1), (''LWIP_COMPAT_SOCKETS'', CNum 1), (''LWIP_POSIX_SOCKETS_IO_NAMES'', CNum 1),
     (''LWIP_TCP_KEEPALIVE'', CNum 0), (''LWIP_SO_SNDTIMEO'', CNum 0), (''LWIP_SO_RCVTIMEO'', CNum 0),
     (''LWIP_SO_RCVBUF'', CNum 0), (''RECV_BUFSIZE_DEFAULT'', CMac ''INT_MAX''), (''SO_REUSE'', CNum 0),
     (''SO_REUSE_RXTOALL'', CNum 0)]"

definition lwip_statistics :: "c_options" where
  "lwip_statistics =
    [(''LWIP_STATS'', CNum 1)]"

definition lwip_statistics_on :: "c_options" where
  "lwip_statistics_on =
    [(''LWIP_STATS_DISPLAY'', CNum 0), (''LINK_STATS'', CNum 1), (''ETHARP_STATS'', CMac ''LWIP_ARP''),
     (''IP_STATS'', CNum 1), (''IPFRAG_STATS'', COr (CMac ''IP_REASSEMBLY'') (CMac ''IP_FRAG'')),
     (''ICMP_STATS'', CNum 1), (''IGMP_STATS'', CMac ''LWIP_IGMP''), (''UDP_STATS'', CMac ''LWIP_UDP''),
     (''TCP_STATS'', CMac ''LWIP_TCP''),
     (''MEM_STATS'', CAnd (CEq (CMac ''MEM_LIBC_MALLOC'') (CNum 0)) (CEq (CMac ''MEM_USE_POOLS'') (CNum 0))),
     (''MEMP_STATS'', CEq (CMac ''MEMP_MEM_MALLOC'') (CNum 0)), (''SYS_STATS'', CEq (CMac ''NO_SYS'') (CNum 0))]"

definition lwip_statistics_off :: "c_options" where
  "lwip_statistics_off =
    [(''LINK_STATS'', CNum 0), (''IP_STATS'', CNum 0), (''IPFRAG_STATS'', CNum 0), (''ICMP_STATS'', CNum 0),
     (''IGMP_STATS'', CNum 0), (''UDP_STATS'', CNum 0), (''TCP_STATS'', CNum 0), (''MEM_STATS'', CNum 0),
     (''MEMP_STATS'', CNum 0), (''SYS_STATS'', CNum 0), (''LWIP_STATS_DISPLAY'', CNum 0)]"

definition lwip_ppp :: "c_options" where
  "lwip_ppp =
    [(''PPP_SUPPORT'', CNum 0), (''PPPOE_SUPPORT'', CNum 0), (''PPPOS_SUPPORT'', CMac ''PPP_SUPPORT'')]"

definition lwip_ppp_on :: "c_options" where
  "lwip_ppp_on =
    [(''NUM_PPP'', CNum 1), (''PAP_SUPPORT'', CNum 0), (''CHAP_SUPPORT'', CNum 0), (''MSCHAP_SUPPORT'', CNum 0),
     (''CBCP_SUPPORT'', CNum 0), (''CCP_SUPPORT'', CNum 0), (''VJ_SUPPORT'', CNum 0), (''MD5_SUPPORT'', CNum 0),
     (''FSM_DEFTIMEOUT'', CNum 6), (''FSM_DEFMAXTERMREQS'', CNum 2), (''FSM_DEFMAXCONFREQS'', CNum 10),
     (''FSM_DEFMAXNAKLOOPS'', CNum 5), (''UPAP_DEFTIMEOUT'', CNum 6), (''UPAP_DEFREQTIME'', CNum 30),
     (''CHAP_DEFTIMEOUT'', CNum 6), (''CHAP_DEFTRANSMITS'', CNum 10), (''LCP_ECHOINTERVAL'', CNum 0),
     (''LCP_MAXECHOFAILS'', CNum 3), (''PPP_MAXIDLEFLAG'', CNum 100), (''PPP_MTU'', CNum 1500),
     (''PPP_MAXMTU'', CNum 1500), (''PPP_MINMTU'', CNum 64), (''PPP_MRU'', CNum 1500),
     (''PPP_MAXMRU'', CNum 1500), (''PPP_DEFMRU'', CNum 296), (''PPP_MINMRU'', CNum 128),
     (''MAXNAMELEN'', CNum 256), (''MAXSECRETLEN'', CNum 256)]"

definition lwip_checksum :: "c_options" where
  "lwip_checksum =
    [(''CHECKSUM_GEN_IP'', CNum 1), (''CHECKSUM_GEN_UDP'', CNum 1), (''CHECKSUM_GEN_TCP'', CNum 1),
     (''CHECKSUM_GEN_ICMP'', CNum 1), (''CHECKSUM_CHECK_IP'', CNum 1), (''CHECKSUM_CHECK_UDP'', CNum 1),
     (''CHECKSUM_CHECK_TCP'', CNum 1), (''LWIP_CHECKSUM_ON_COPY'', CNum 0)]"

definition lwip_debugging :: "c_options" where
  "lwip_debugging =
    [(''LWIP_DBG_MIN_LEVEL'', CMac ''LWIP_DBG_LEVEL_ALL''), (''LWIP_DBG_TYPES_ON'', CMac ''LWIP_DBG_ON''),
     (''ETHARP_DEBUG'', CMac ''LWIP_DBG_OFF''), (''NETIF_DEBUG'', CMac ''LWIP_DBG_OFF''),
     (''PBUF_DEBUG'', CMac ''LWIP_DBG_OFF''), (''API_LIB_DEBUG'', CMac ''LWIP_DBG_OFF''),
     (''API_MSG_DEBUG'', CMac ''LWIP_DBG_OFF''), (''SOCKETS_DEBUG'', CMac ''LWIP_DBG_OFF''),
     (''ICMP_DEBUG'', CMac ''LWIP_DBG_OFF''), (''IGMP_DEBUG'', CMac ''LWIP_DBG_OFF''),
     (''INET_DEBUG'', CMac ''LWIP_DBG_OFF''), (''IP_DEBUG'', CMac ''LWIP_DBG_OFF''),
     (''IP_REASS_DEBUG'', CMac ''LWIP_DBG_OFF''), (''RAW_DEBUG'', CMac ''LWIP_DBG_OFF''),
     (''MEM_DEBUG'', CMac ''LWIP_DBG_OFF''), (''MEMP_DEBUG'', CMac ''LWIP_DBG_OFF''),
     (''SYS_DEBUG'', CMac ''LWIP_DBG_OFF''), (''TIMERS_DEBUG'', CMac ''LWIP_DBG_OFF''),
     (''TCP_DEBUG'', CMac ''LWIP_DBG_OFF''), (''TCP_INPUT_DEBUG'', CMac ''LWIP_DBG_OFF''),
     (''TCP_FR_DEBUG'', CMac ''LWIP_DBG_OFF''), (''TCP_RTO_DEBUG'', CMac ''LWIP_DBG_OFF''),
     (''TCP_CWND_DEBUG'', CMac ''LWIP_DBG_OFF''), (''TCP_WND_DEBUG'', CMac ''LWIP_DBG_OFF''),
     (''TCP_OUTPUT_DEBUG'', CMac ''LWIP_DBG_OFF''), (''TCP_RST_DEBUG'', CMac ''LWIP_DBG_OFF''),
     (''TCP_QLEN_DEBUG'', CMac ''LWIP_DBG_OFF''), (''UDP_DEBUG'', CMac ''LWIP_DBG_OFF''),
     (''TCPIP_DEBUG'', CMac ''LWIP_DBG_OFF''), (''PPP_DEBUG'', CMac ''LWIP_DBG_OFF''),
     (''SLIP_DEBUG'', CMac ''LWIP_DBG_OFF''), (''DHCP_DEBUG'', CMac ''LWIP_DBG_OFF''),
     (''AUTOIP_DEBUG'', CMac ''LWIP_DBG_OFF''), (''SNMP_MSG_DEBUG'', CMac ''LWIP_DBG_OFF''),
     (''SNMP_MIB_DEBUG'', CMac ''LWIP_DBG_OFF''), (''DNS_DEBUG'', CMac ''LWIP_DBG_OFF'')]"

section \<open>The whole header\<close>

text \<open>A conditional \<open>#if\<close> is decided where it stands, with the options \<open>os\<close> above it.\<close>

definition c_if :: "(string \<Rightarrow> int option) \<Rightarrow> (string \<Rightarrow> int list \<Rightarrow> int option) \<Rightarrow> c_options \<Rightarrow> string \<Rightarrow> c_options \<Rightarrow> c_options
    \<Rightarrow> c_options" where
  "c_if lib fn os n yes no =
     (case c_expand 1 lib fn os (CMac n) of Some v \<Rightarrow> if v \<noteq> 0 then yes else no | None \<Rightarrow> no)"

definition lwip_before_conditionals :: c_options where
  "lwip_before_conditionals =
      lwip_platform_specific_locking @ lwip_memory @ lwip_internal_memory_pool_sizes @ lwip_arp @ lwip_ip @
      lwip_icmp @ lwip_raw @ lwip_dhcp @ lwip_autoip @ lwip_snmp @ lwip_igmp @ lwip_dns @ lwip_udp @
      lwip_tcp @ lwip_pbuf @ lwip_network_interfaces @ lwip_loopif @ lwip_slipif @ lwip_thread @
      lwip_sequential_layer @ lwip_socket @ lwip_statistics"

definition lwip_statistics_part :: "(string \<Rightarrow> int option) \<Rightarrow> (string \<Rightarrow> int list \<Rightarrow> int option) \<Rightarrow> c_options \<Rightarrow> c_options" where
  "lwip_statistics_part lib fn os = c_if lib fn os ''LWIP_STATS'' lwip_statistics_on lwip_statistics_off"

definition lwip_ppp_part :: "(string \<Rightarrow> int option) \<Rightarrow> (string \<Rightarrow> int list \<Rightarrow> int option) \<Rightarrow> c_options \<Rightarrow> c_options" where
  "lwip_ppp_part lib fn os = c_if lib fn os ''PPP_SUPPORT'' lwip_ppp_on []"

definition lwipopts :: "(string \<Rightarrow> int option) \<Rightarrow> (string \<Rightarrow> int list \<Rightarrow> int option) \<Rightarrow> c_options" where
  "lwipopts lib fn =
     (let a = lwip_before_conditionals @ lwip_statistics_part lib fn lwip_before_conditionals @ lwip_ppp
      in a @ lwip_ppp_part lib fn a @ lwip_checksum @ lwip_debugging)"

definition lib_defines :: "(string \<Rightarrow> int option) \<Rightarrow> (string \<Rightarrow> int list \<Rightarrow> int option) \<Rightarrow> bool" where
  "lib_defines lib fn \<longleftrightarrow>
     list_all (\<lambda>n. lib n \<noteq> None)
       [''sizeof s32_t'', ''LOWPRIO'', ''INT_MAX'', ''LWIP_DBG_LEVEL_ALL'', ''LWIP_DBG_ON'', ''LWIP_DBG_OFF'']
     \<and> (\<forall>a b. fn ''LWIP_MAX'' [a, b] = Some (max a b) \<and> fn ''LWIP_MIN'' [a, b] = Some (min a b))
     \<and> (\<forall>n. \<exists>m\<ge>n. fn ''LWIP_MEM_ALIGN_SIZE'' [n] = Some m)"

lemmas lwip_sections =
  lwip_platform_specific_locking_def lwip_memory_def lwip_internal_memory_pool_sizes_def lwip_arp_def
  lwip_ip_def lwip_icmp_def lwip_raw_def lwip_dhcp_def lwip_autoip_def lwip_snmp_def lwip_igmp_def
  lwip_dns_def lwip_udp_def lwip_tcp_def lwip_pbuf_def lwip_network_interfaces_def lwip_loopif_def
  lwip_slipif_def lwip_thread_def lwip_sequential_layer_def lwip_socket_def lwip_statistics_def
  lwip_statistics_on_def lwip_statistics_off_def lwip_ppp_def lwip_ppp_on_def lwip_checksum_def
  lwip_debugging_def

lemmas names_evaluation =
  append.simps map_of_Cons_code if_True if_False
  list.map fst_conv distinct.simps list.set insert_iff empty_iff list.inject char.inject simp_thms list.distinct

lemma statistics_on: "map_of lwip_before_conditionals ''LWIP_STATS'' = Some (CNum 1)"
  unfolding lwip_before_conditionals_def lwip_sections by (simp only: names_evaluation)

lemma ppp_off: "map_of (lwip_before_conditionals @ lwip_statistics_on @ lwip_ppp) ''PPP_SUPPORT'' = Some (CNum 0)"
  unfolding lwip_before_conditionals_def lwip_sections by (simp only: names_evaluation)

lemma lwipopts_list:
  "lwipopts lib fn = lwip_before_conditionals @ lwip_statistics_on @ lwip_ppp @ lwip_checksum @ lwip_debugging"
  using ppp_off
  by (simp add: lwipopts_def lwip_statistics_part_def lwip_ppp_part_def c_if_def statistics_on del: map_of_append)

lemma lwip_first_distinct: "distinct (map fst lwip_before_conditionals)"
  unfolding lwip_before_conditionals_def lwip_sections append.simps by (simp only: names_evaluation)

lemma lwip_rest_distinct: "distinct (map fst (lwip_statistics_on @ lwip_ppp @ lwip_checksum @ lwip_debugging))"
  unfolding lwip_sections append.simps by (simp only: names_evaluation)

lemma lwip_first_rest_disjoint:
  "\<forall>n \<in> set (map fst (lwip_statistics_on @ lwip_ppp @ lwip_checksum @ lwip_debugging)).
     n \<notin> set (map fst lwip_before_conditionals)"
  unfolding lwip_before_conditionals_def lwip_sections append.simps list.map fst_conv list.set ball_simps(5,7)
  by (intro conjI; simp only: names_evaluation)

lemma lwipopts_distinct: "distinct (map fst (lwipopts lib fn))"
  using lwip_first_distinct lwip_rest_distinct lwip_first_rest_disjoint
  unfolding lwipopts_list by (auto simp only: map_append distinct_append)


section \<open>Values\<close>

text \<open>\<open>lwip_value\<close> is what the use of an option in the code stands for. Names nest at most four deep.\<close>

definition lwip_value :: "(string \<Rightarrow> int option) \<Rightarrow> (string \<Rightarrow> int list \<Rightarrow> int option) \<Rightarrow> string \<Rightarrow> int option" where
  "lwip_value lib fn n = c_expand 4 lib fn (lwipopts lib fn) (CMac n)"

definition is_text :: "c_exp \<Rightarrow> bool" where
  "is_text e = (case e of CStr _ \<Rightarrow> True | _ \<Rightarrow> False)"

definition lwip_eval :: "(string \<Rightarrow> int option) \<Rightarrow> (string \<Rightarrow> int list \<Rightarrow> int option) \<Rightarrow> c_exp \<Rightarrow> int option" where
  "lwip_eval lib fn e = c_expand 5 lib fn (lwipopts lib fn) e"

text \<open>
  The pairs of options of which the comments of the header say that the first needs the second. The first of a pair
  can be a switch or the size of a pool.
\<close>

definition lwip_requires :: "(string \<times> string) list" where
  "lwip_requires =
    [(''MEM_USE_POOLS'', ''MEMP_USE_CUSTOM_POOLS''), (''MEMP_NUM_RAW_PCB'', ''LWIP_RAW''),
     (''MEMP_NUM_UDP_PCB'', ''LWIP_UDP''), (''MEMP_NUM_TCP_PCB'', ''LWIP_TCP''),
     (''MEMP_NUM_TCP_PCB_LISTEN'', ''LWIP_TCP''), (''MEMP_NUM_TCP_SEG'', ''LWIP_TCP''),
     (''MEMP_NUM_ARP_QUEUE'', ''ARP_QUEUEING''), (''MEMP_NUM_IGMP_GROUP'', ''LWIP_IGMP''),
     (''IP_FRAG_MAX_MTU'', ''IP_FRAG_USES_STATIC_BUF''), (''IP_SOF_BROADCAST_RECV'', ''IP_SOF_BROADCAST''),
     (''LWIP_SNMP'', ''LWIP_UDP''), (''LWIP_DNS'', ''LWIP_UDP''), (''LWIP_UDPLITE'', ''LWIP_UDP'')]"

definition lwip_unmet :: "(string \<Rightarrow> int option) \<Rightarrow> (string \<Rightarrow> int list \<Rightarrow> int option) \<Rightarrow> string \<times> string \<Rightarrow> bool" where
  "lwip_unmet lib fn = (\<lambda>(a, b). lwip_value lib fn a \<noteq> Some 0 \<and> lwip_value lib fn b \<noteq> Some 1)"

text \<open>The bounds in the comments: the first expression may not exceed the second.\<close>

definition lwip_bounds :: "(c_exp \<times> c_exp) list" where
  "lwip_bounds =
    [(CAdd (CMac ''IP_REASS_MAX_PBUFS'') (CNum 1), CMac ''PBUF_POOL_SIZE''),
     (CNum 1, CMac ''SNMP_CONCURRENT_REQUESTS''), (CNum 1, CMac ''SNMP_TRAP_DESTINATIONS''),
     (CMul (CNum 2) (CMac ''TCP_MSS''), CMac ''TCP_WND''), (CMul (CNum 2) (CMac ''TCP_MSS''), CMac ''TCP_SND_BUF''),
     (CDiv (CMul (CNum 2) (CMac ''TCP_SND_BUF'')) (CMac ''TCP_MSS''), CMac ''TCP_SND_QUEUELEN''),
     (CAdd (CMac ''TCP_SNDLOWAT'') (CNum 1), CMac ''TCP_SND_BUF''),
     (CAdd (CMac ''TCP_SNDQUEUELOWAT'') (CNum 1), CMac ''TCP_SND_QUEUELEN'')]"

definition lwip_within :: "(string \<Rightarrow> int option) \<Rightarrow> (string \<Rightarrow> int list \<Rightarrow> int option) \<Rightarrow> c_exp \<times> c_exp \<Rightarrow> bool" where
  "lwip_within lib fn = (\<lambda>(a, b). case (lwip_eval lib fn a, lwip_eval lib fn b) of
     (Some x, Some y) \<Rightarrow> x \<le> y | _ \<Rightarrow> False)"

text \<open>The protocols and interfaces called or relied on by the code, with a function that does, and those on without.\<close>

definition lwip_features :: "(string \<times> string) list" where
  "lwip_features =
    [(''LWIP_NETCONN'', ''httpd_init''), (''LWIP_TCP'', ''rawd_init''), (''LWIP_DHCP'', ''cmd_net''),
     (''LWIP_UDP'', ''dhcp''), (''LWIP_ARP'', ''lwip_thread''), (''LWIP_ETHERNET'', ''lwip_thread''),
     (''LWIP_NETIF_HOSTNAME'', ''lwip_thread'')]"

definition lwip_spare :: "string list" where
  "lwip_spare = [''LWIP_RAW'', ''LWIP_DNS'', ''LWIP_SOCKET'', ''LWIP_ICMP'', ''LWIP_STATS'']"

text \<open>The options \<open>Config\<close> defines as functions of the segment size.\<close>

definition lwip_computed :: "(string \<times> nat) list" where
  "lwip_computed =
    [(''TCP_WND'', TCP_WND TCP_MSS), (''TCP_SND_BUF'', TCP_SND_BUF TCP_MSS),
     (''TCP_SND_QUEUELEN'', TCP_SND_QUEUELEN TCP_MSS), (''TCP_SNDLOWAT'', TCP_SNDLOWAT TCP_MSS),
     (''TCP_SNDQUEUELOWAT'', TCP_SNDQUEUELOWAT TCP_MSS), (''TCP_OVERSIZE'', TCP_OVERSIZE TCP_MSS),
     (''TCP_WND_UPDATE_THRESHOLD'', TCP_WND_UPDATE_THRESHOLD TCP_MSS),
     (''MEMP_NUM_SYS_TIMEOUT'', MEMP_NUM_SYS_TIMEOUT), (''PBUF_LINK_HLEN'', PBUF_LINK_HLEN),
     (''MEMP_NUM_NETCONN'', MEMP_NUM_NETCONN), (''MEMP_NUM_TCP_PCB'', MEMP_NUM_TCP_PCB),
     (''MEMP_NUM_TCP_PCB_LISTEN'', MEMP_NUM_TCP_PCB_LISTEN), (''PBUF_POOL_SIZE'', PBUF_POOL_SIZE),
     (''IP_REASS_MAX_PBUFS'', IP_REASS_MAX_PBUFS)]"

lemma lwip_lookup:
  shows
    "map_of (lwipopts lib fn) ''NO_SYS'' = Some (CNum 0)"
    "map_of (lwipopts lib fn) ''MEM_LIBC_MALLOC'' = Some (CNum 0)"
    "map_of (lwipopts lib fn) ''MEMP_MEM_MALLOC'' = Some (CNum 0)"
    "map_of (lwipopts lib fn) ''MEM_USE_POOLS'' = Some (CNum 0)"
    "map_of (lwipopts lib fn) ''MEMP_NUM_PBUF'' = Some (CNum 16)"
    "map_of (lwipopts lib fn) ''MEMP_NUM_TCP_PCB'' = Some (CNum 10)"
    "map_of (lwipopts lib fn) ''MEMP_NUM_TCP_PCB_LISTEN'' = Some (CNum 8)"
    "map_of (lwipopts lib fn) ''MEMP_NUM_TCP_SEG'' = Some (CNum 16)"
    "map_of (lwipopts lib fn) ''MEMP_NUM_SYS_TIMEOUT'' = Some (CAdd (CAdd (CAdd (CAdd (CAdd (CAdd (CAdd (CMac
      ''LWIP_TCP'') (CMac ''IP_REASSEMBLY'')) (CMac ''LWIP_ARP'')) (CMul (CNum 2) (CMac ''LWIP_DHCP''))) (CMac
      ''LWIP_AUTOIP'')) (CMac ''LWIP_IGMP'')) (CMac ''LWIP_DNS'')) (CMac ''PPP_SUPPORT''))"
    "map_of (lwipopts lib fn) ''MEMP_NUM_NETCONN'' = Some (CNum 10)"
    "map_of (lwipopts lib fn) ''PBUF_POOL_SIZE'' = Some (CNum 16)"
    "map_of (lwipopts lib fn) ''LWIP_ARP'' = Some (CNum 1)"
    "map_of (lwipopts lib fn) ''LWIP_ETHERNET'' = Some (COr (CMac ''LWIP_ARP'') (CMac ''PPPOE_SUPPORT''))"
    "map_of (lwipopts lib fn) ''ETH_PAD_SIZE'' = Some (CNum 0)"
    "map_of (lwipopts lib fn) ''IP_REASSEMBLY'' = Some (CNum 1)"
    "map_of (lwipopts lib fn) ''IP_FRAG'' = Some (CNum 1)"
    "map_of (lwipopts lib fn) ''IP_REASS_MAX_PBUFS'' = Some (CNum 10)"
    "map_of (lwipopts lib fn) ''IP_DEFAULT_TTL'' = Some (CNum 255)"
    "map_of (lwipopts lib fn) ''IP_SOF_BROADCAST'' = Some (CNum 0)"
    "map_of (lwipopts lib fn) ''IP_SOF_BROADCAST_RECV'' = Some (CNum 0)"
    "map_of (lwipopts lib fn) ''LWIP_DHCP'' = Some (CNum 1)"
    "map_of (lwipopts lib fn) ''DHCP_DOES_ARP_CHECK'' = Some (CAnd (CMac ''LWIP_DHCP'') (CMac ''LWIP_ARP''))"
    "map_of (lwipopts lib fn) ''LWIP_AUTOIP'' = Some (CNum 0)"
    "map_of (lwipopts lib fn) ''LWIP_SNMP'' = Some (CNum 0)"
    "map_of (lwipopts lib fn) ''SNMP_MAX_OCTET_STRING_LEN'' = Some (CNum 127)"
    "map_of (lwipopts lib fn) ''SNMP_MAX_TREE_DEPTH'' = Some (CNum 15)"
    "map_of (lwipopts lib fn) ''LWIP_IGMP'' = Some (CNum 0)"
    "map_of (lwipopts lib fn) ''LWIP_DNS'' = Some (CNum 1)"
    "map_of (lwipopts lib fn) ''LWIP_UDP'' = Some (CNum 1)"
    "map_of (lwipopts lib fn) ''LWIP_UDPLITE'' = Some (CNum 0)"
    "map_of (lwipopts lib fn) ''LWIP_TCP'' = Some (CNum 1)"
    "map_of (lwipopts lib fn) ''TCP_WND'' = Some (CMul (CNum 4) (CMac ''TCP_MSS''))"
    "map_of (lwipopts lib fn) ''TCP_MSS'' = Some (CNum 536)"
    "map_of (lwipopts lib fn) ''TCP_SND_BUF'' = Some (CMul (CNum 2) (CMac ''TCP_MSS''))"
    "map_of (lwipopts lib fn) ''TCP_SND_QUEUELEN'' = Some (CDiv (CAdd (CMul (CNum 4) (CMac ''TCP_SND_BUF''))
      (CSub (CMac ''TCP_MSS'') (CNum 1))) (CMac ''TCP_MSS''))"
    "map_of (lwipopts lib fn) ''TCP_SNDLOWAT'' = Some (CCall ''LWIP_MIN'' [CCall ''LWIP_MAX'' [CDiv (CMac
      ''TCP_SND_BUF'') (CNum 2), CAdd (CMul (CNum 2) (CMac ''TCP_MSS'')) (CNum 1)], CSub (CMac ''TCP_SND_BUF'')
      (CNum 1)])"
    "map_of (lwipopts lib fn) ''TCP_SNDQUEUELOWAT'' = Some (CCall ''LWIP_MAX'' [CDiv (CMac ''TCP_SND_QUEUELEN'')
      (CNum 2), CNum 5])"
    "map_of (lwipopts lib fn) ''TCP_OVERSIZE'' = Some (CMac ''TCP_MSS'')"
    "map_of (lwipopts lib fn) ''TCP_WND_UPDATE_THRESHOLD'' = Some (CDiv (CMac ''TCP_WND'') (CNum 4))"
    "map_of (lwipopts lib fn) ''LWIP_EVENT_API'' = Some (CNum 0)"
    "map_of (lwipopts lib fn) ''LWIP_CALLBACK_API'' = Some (CNum 1)"
    "map_of (lwipopts lib fn) ''PBUF_LINK_HLEN'' = Some (CAdd (CNum 14) (CMac ''ETH_PAD_SIZE''))"
    "map_of (lwipopts lib fn) ''PBUF_POOL_BUFSIZE'' = Some (CCall ''LWIP_MEM_ALIGN_SIZE'' [CAdd (CAdd (CMac
      ''TCP_MSS'') (CNum 40)) (CMac ''PBUF_LINK_HLEN'')])"
    "map_of (lwipopts lib fn) ''LWIP_NETIF_HOSTNAME'' = Some (CNum 1)"
    "map_of (lwipopts lib fn) ''LWIP_NETCONN'' = Some (CNum 1)"
    "map_of (lwipopts lib fn) ''PPP_SUPPORT'' = Some (CNum 0)"
    "map_of (lwipopts lib fn) ''PPPOE_SUPPORT'' = Some (CNum 0)"
    "map_of (lwipopts lib fn) ''PPPOS_SUPPORT'' = Some (CMac ''PPP_SUPPORT'')"
    "map_of (lwipopts lib fn) ''MEMP_NUM_RAW_PCB'' = Some (CNum 4)"
    "map_of (lwipopts lib fn) ''MEMP_NUM_UDP_PCB'' = Some (CNum 4)"
    "map_of (lwipopts lib fn) ''MEMP_NUM_ARP_QUEUE'' = Some (CNum 30)"
    "map_of (lwipopts lib fn) ''ARP_QUEUEING'' = Some (CNum 0)"
    "map_of (lwipopts lib fn) ''MEMP_NUM_IGMP_GROUP'' = Some (CNum 8)"
    "map_of (lwipopts lib fn) ''IP_FRAG_MAX_MTU'' = Some (CNum 1500)"
    "map_of (lwipopts lib fn) ''IP_FRAG_USES_STATIC_BUF'' = Some (CNum 0)"
    "map_of (lwipopts lib fn) ''MEMP_USE_CUSTOM_POOLS'' = Some (CNum 0)"
    "map_of (lwipopts lib fn) ''LWIP_RAW'' = Some (CNum 1)"
    "map_of (lwipopts lib fn) ''LWIP_SOCKET'' = Some (CNum 1)"
    "map_of (lwipopts lib fn) ''LWIP_ICMP'' = Some (CNum 1)"
    "map_of (lwipopts lib fn) ''LWIP_STATS'' = Some (CNum 1)"
    "map_of (lwipopts lib fn) ''SNMP_CONCURRENT_REQUESTS'' = Some (CNum 1)"
    "map_of (lwipopts lib fn) ''SNMP_TRAP_DESTINATIONS'' = Some (CNum 1)"
    "map_of (lwipopts lib fn) ''INT_MAX'' = None"
    "map_of (lwipopts lib fn) ''LOWPRIO'' = None"
    "map_of (lwipopts lib fn) ''LWIP_DBG_LEVEL_ALL'' = None"
    "map_of (lwipopts lib fn) ''LWIP_DBG_OFF'' = None"
    "map_of (lwipopts lib fn) ''LWIP_DBG_ON'' = None"
    "map_of (lwipopts lib fn) ''sizeof s32_t'' = None"
    "map_of (lwipopts lib fn) ''NUM_PPP'' = None"
  unfolding lwipopts_list lwip_before_conditionals_def lwip_sections by (simp_all only: names_evaluation)

lemma lwip_values:
  assumes "lib_defines lib fn"
  shows "list_all (\<lambda>(n, e). is_text e \<or> c_expand 3 lib fn (lwipopts lib fn) e \<noteq> None)
           (lwip_before_conditionals @ lwip_statistics_on @ lwip_ppp @ lwip_checksum @ lwip_debugging)"
  using assms
  unfolding lwip_before_conditionals_def lwip_sections append.simps list.pred_inject prod.case
  by (auto simp: lwip_lookup c_both_def c_quotient_def lib_defines_def is_text_def)

text \<open>So every option in effect that is a number has a value when it is used, by its name.\<close>

lemma lwip_value_defined:
  assumes "lib_defines lib fn" and "(n, e) \<in> set (lwipopts lib fn)" and "\<not> is_text e"
  shows "lwip_value lib fn n \<noteq> None"
proof -
  have "map_of (lwipopts lib fn) n = Some e" using assms(2) lwipopts_distinct by (rule map_of_is_SomeI [rotated])
  moreover have "c_expand 3 lib fn (lwipopts lib fn) e \<noteq> None"
    using lwip_values [OF assms(1)] assms(2,3) by (auto simp: list_all_iff lwipopts_list)
  ultimately show ?thesis by (simp add: lwip_value_def)
qed

lemma lwip_computed_values:
  assumes "lib_defines lib fn"
  shows "list_all (\<lambda>(n, v). lwip_value lib fn n = Some (int v)) lwip_computed"
  using assms
  by (simp add: lwip_computed_def lwip_value_def lwip_lookup c_both_def c_quotient_def lib_defines_def
      TCP_WND_def TCP_SND_BUF_def TCP_SNDLOWAT_def TCP_SNDQUEUELOWAT_def TCP_OVERSIZE_def TCP_SND_QUEUELEN_def
      TCP_WND_UPDATE_THRESHOLD_def IP_REASS_MAX_PBUFS_def PBUF_POOL_SIZE_def TCP_MSS_def MEMP_NUM_SYS_TIMEOUT_def
      LWIP_TCP_def IP_REASSEMBLY_def LWIP_ARP_def LWIP_DHCP_def LWIP_AUTOIP_def LWIP_IGMP_def LWIP_DNS_def
      PPP_SUPPORT_def PBUF_LINK_HLEN_def ETH_PAD_SIZE_def MEMP_NUM_NETCONN_def MEMP_NUM_TCP_PCB_def
      MEMP_NUM_TCP_PCB_LISTEN_def)

lemma lwip_bounds_hold:
  assumes "lib_defines lib fn"
  shows "list_all (lwip_within lib fn) lwip_bounds"
  using assms
  by (simp add: lwip_bounds_def lwip_within_def lwip_eval_def lwip_lookup c_both_def c_quotient_def lib_defines_def)

text \<open>What the code uses is on, and so are some features without a user.\<close>

lemma lwip_features_on:
  "list_all (\<lambda>(n, f). lwip_value lib fn n = Some 1) lwip_features"
  "list_all (\<lambda>n. lwip_value lib fn n = Some 1) lwip_spare" "lwip_value lib fn ''NO_SYS'' = Some 0"
  by (simp_all add: lwip_features_def lwip_spare_def lwip_value_def lwip_lookup c_both_def)



end
