(* ===== verification/Switches.thy ===== *)
theory Switches
  imports Main
begin

text \<open>
  The switches of the kernel (\<^verbatim>\<open>chconf.h\<close>), of the drivers (\<^verbatim>\<open>halconf.h\<close>) and of the device
  (\<^verbatim>\<open>mcuconf.h\<close>), as the lists of their settings. They are read by code outside the repository; what
  can be checked here is which features are switched on, with and without a call in this repository, and that the priorities keep to the
  ranges the file states.
\<close>

section \<open>Settings\<close>

datatype setting = Flag bool | Num nat | Sym string

definition chconf :: "(string \<times> setting) list" where
  "chconf =
    [(''CH_FREQUENCY'', Num 1000), (''CH_TIME_QUANTUM'', Num 20), (''CH_MEMCORE_SIZE'', Num 0),
     (''CH_NO_IDLE_THREAD'', Flag False), (''CH_OPTIMIZE_SPEED'', Flag True), (''CH_USE_REGISTRY'', Flag True),
     (''CH_USE_WAITEXIT'', Flag True), (''CH_USE_SEMAPHORES'', Flag True),
     (''CH_USE_SEMAPHORES_PRIORITY'', Flag False), (''CH_USE_SEMSW'', Flag True),
     (''CH_USE_MUTEXES'', Flag True), (''CH_USE_CONDVARS'', Flag True),
     (''CH_USE_CONDVARS_TIMEOUT'', Flag True), (''CH_USE_EVENTS'', Flag True),
     (''CH_USE_EVENTS_TIMEOUT'', Flag True), (''CH_USE_MESSAGES'', Flag True),
     (''CH_USE_MESSAGES_PRIORITY'', Flag False), (''CH_USE_MAILBOXES'', Flag True),
     (''CH_USE_QUEUES'', Flag True), (''CH_USE_MEMCORE'', Flag True), (''CH_USE_HEAP'', Flag True),
     (''CH_USE_MALLOC_HEAP'', Flag False), (''CH_USE_MEMPOOLS'', Flag True), (''CH_USE_DYNAMIC'', Flag True),
     (''CH_DBG_SYSTEM_STATE_CHECK'', Flag False), (''CH_DBG_ENABLE_CHECKS'', Flag False),
     (''CH_DBG_ENABLE_ASSERTS'', Flag False), (''CH_DBG_ENABLE_TRACE'', Flag False),
     (''CH_DBG_ENABLE_STACK_CHECK'', Flag False), (''CH_DBG_FILL_THREADS'', Flag False),
     (''CH_DBG_THREADS_PROFILING'', Flag True)]"

definition halconf :: "(string \<times> setting) list" where
  "halconf =
    [(''HAL_USE_TM'', Flag False), (''HAL_USE_PAL'', Flag True), (''HAL_USE_ADC'', Flag False),
     (''HAL_USE_CAN'', Flag False), (''HAL_USE_EXT'', Flag True), (''HAL_USE_GPT'', Flag False),
     (''HAL_USE_I2C'', Flag False), (''HAL_USE_ICU'', Flag False), (''HAL_USE_MAC'', Flag True),
     (''HAL_USE_MMC_SPI'', Flag False), (''HAL_USE_PWM'', Flag False), (''HAL_USE_RTC'', Flag False),
     (''HAL_USE_SDC'', Flag False), (''HAL_USE_SERIAL'', Flag True), (''HAL_USE_SERIAL_USB'', Flag True),
     (''HAL_USE_SPI'', Flag True), (''HAL_USE_UART'', Flag False), (''HAL_USE_USB'', Flag True),
     (''ADC_USE_WAIT'', Flag True), (''ADC_USE_MUTUAL_EXCLUSION'', Flag True),
     (''CAN_USE_SLEEP_MODE'', Flag True), (''I2C_USE_MUTUAL_EXCLUSION'', Flag True),
     (''MAC_USE_ZERO_COPY'', Flag False), (''MAC_USE_EVENTS'', Flag True), (''MMC_NICE_WAITING'', Flag True),
     (''SDC_INIT_RETRY'', Num 100), (''SDC_MMC_SUPPORT'', Flag False), (''SDC_NICE_WAITING'', Flag True),
     (''SERIAL_DEFAULT_BITRATE'', Num 115200), (''SERIAL_BUFFERS_SIZE'', Num 16),
     (''SPI_USE_WAIT'', Flag True), (''SPI_USE_MUTUAL_EXCLUSION'', Flag True)]"

definition mcuconf_settings :: "(string \<times> setting) list" where
  "mcuconf_settings =
    [(''STM32_NO_INIT'', Flag False), (''STM32_HSI_ENABLED'', Flag True), (''STM32_LSI_ENABLED'', Flag False),
     (''STM32_HSE_ENABLED'', Flag True), (''STM32_LSE_ENABLED'', Flag False),
     (''STM32_SW'', Sym ''STM32_SW_PLL''), (''STM32_PLLSRC'', Sym ''STM32_PLLSRC_PREDIV1''),
     (''STM32_PREDIV1SRC'', Sym ''STM32_PREDIV1SRC_PLL2''), (''STM32_PREDIV1_VALUE'', Num 5),
     (''STM32_PLLMUL_VALUE'', Num 9), (''STM32_PREDIV2_VALUE'', Num 5), (''STM32_PLL2MUL_VALUE'', Num 8),
     (''STM32_PLL3MUL_VALUE'', Num 10), (''STM32_HPRE'', Sym ''STM32_HPRE_DIV1''),
     (''STM32_PPRE1'', Sym ''STM32_PPRE1_DIV2''), (''STM32_PPRE2'', Sym ''STM32_PPRE2_DIV2''),
     (''STM32_ADCPRE'', Sym ''STM32_ADCPRE_DIV4''), (''STM32_OTG_CLOCK_REQUIRED'', Flag True),
     (''STM32_OTGFSPRE'', Sym ''STM32_OTGFSPRE_DIV3''), (''STM32_I2S_CLOCK_REQUIRED'', Flag False),
     (''STM32_MCOSEL'', Sym ''STM32_MCOSEL_PLL3''), (''STM32_RTCSEL'', Sym ''STM32_RTCSEL_HSEDIV''),
     (''STM32_PVD_ENABLE'', Flag False), (''STM32_PLS'', Sym ''STM32_PLS_LEV0''),
     (''STM32_ADC_USE_ADC1'', Flag False), (''STM32_ADC_ADC1_DMA_PRIORITY'', Num 2),
     (''STM32_ADC_ADC1_IRQ_PRIORITY'', Num 6), (''STM32_CAN_USE_CAN1'', Flag False),
     (''STM32_CAN_USE_CAN2'', Flag False), (''STM32_CAN_CAN1_IRQ_PRIORITY'', Num 11),
     (''STM32_CAN_CAN2_IRQ_PRIORITY'', Num 11), (''STM32_EXT_EXTI0_IRQ_PRIORITY'', Num 6),
     (''STM32_EXT_EXTI1_IRQ_PRIORITY'', Num 6), (''STM32_EXT_EXTI2_IRQ_PRIORITY'', Num 6),
     (''STM32_EXT_EXTI3_IRQ_PRIORITY'', Num 6), (''STM32_EXT_EXTI4_IRQ_PRIORITY'', Num 6),
     (''STM32_EXT_EXTI5_9_IRQ_PRIORITY'', Num 6), (''STM32_EXT_EXTI10_15_IRQ_PRIORITY'', Num 6),
     (''STM32_EXT_EXTI16_IRQ_PRIORITY'', Num 6), (''STM32_EXT_EXTI17_IRQ_PRIORITY'', Num 6),
     (''STM32_EXT_EXTI18_IRQ_PRIORITY'', Num 6), (''STM32_EXT_EXTI19_IRQ_PRIORITY'', Num 6),
     (''STM32_GPT_USE_TIM1'', Flag False), (''STM32_GPT_USE_TIM2'', Flag False),
     (''STM32_GPT_USE_TIM3'', Flag False), (''STM32_GPT_USE_TIM4'', Flag False),
     (''STM32_GPT_USE_TIM5'', Flag False), (''STM32_GPT_USE_TIM8'', Flag False),
     (''STM32_GPT_TIM1_IRQ_PRIORITY'', Num 7), (''STM32_GPT_TIM2_IRQ_PRIORITY'', Num 7),
     (''STM32_GPT_TIM3_IRQ_PRIORITY'', Num 7), (''STM32_GPT_TIM4_IRQ_PRIORITY'', Num 7),
     (''STM32_GPT_TIM5_IRQ_PRIORITY'', Num 7), (''STM32_GPT_TIM8_IRQ_PRIORITY'', Num 7),
     (''STM32_I2C_USE_I2C1'', Flag False), (''STM32_I2C_USE_I2C2'', Flag False),
     (''STM32_I2C_I2C1_IRQ_PRIORITY'', Num 5), (''STM32_I2C_I2C2_IRQ_PRIORITY'', Num 5),
     (''STM32_I2C_I2C1_DMA_PRIORITY'', Num 3), (''STM32_I2C_I2C2_DMA_PRIORITY'', Num 3),
     (''STM32_I2C_I2C1_DMA_ERROR_HOOK'', Sym ''chSysHalt()''),
     (''STM32_I2C_I2C2_DMA_ERROR_HOOK'', Sym ''chSysHalt()''), (''STM32_ICU_USE_TIM1'', Flag False),
     (''STM32_ICU_USE_TIM2'', Flag False), (''STM32_ICU_USE_TIM3'', Flag False),
     (''STM32_ICU_USE_TIM4'', Flag False), (''STM32_ICU_USE_TIM5'', Flag False),
     (''STM32_ICU_USE_TIM8'', Flag False), (''STM32_ICU_TIM1_IRQ_PRIORITY'', Num 7),
     (''STM32_ICU_TIM2_IRQ_PRIORITY'', Num 7), (''STM32_ICU_TIM3_IRQ_PRIORITY'', Num 7),
     (''STM32_ICU_TIM4_IRQ_PRIORITY'', Num 7), (''STM32_ICU_TIM5_IRQ_PRIORITY'', Num 7),
     (''STM32_ICU_TIM8_IRQ_PRIORITY'', Num 7), (''STM32_MAC_TRANSMIT_BUFFERS'', Num 2),
     (''STM32_MAC_RECEIVE_BUFFERS'', Num 4), (''STM32_MAC_BUFFERS_SIZE'', Num 1522),
     (''STM32_MAC_PHY_TIMEOUT'', Num 100), (''STM32_MAC_ETH1_CHANGE_PHY_STATE'', Flag True),
     (''STM32_MAC_ETH1_IRQ_PRIORITY'', Num 13), (''STM32_MAC_IP_CHECKSUM_OFFLOAD'', Num 0),
     (''STM32_PWM_USE_ADVANCED'', Flag False), (''STM32_PWM_USE_TIM1'', Flag False),
     (''STM32_PWM_USE_TIM2'', Flag False), (''STM32_PWM_USE_TIM3'', Flag False),
     (''STM32_PWM_USE_TIM4'', Flag False), (''STM32_PWM_USE_TIM5'', Flag False),
     (''STM32_PWM_USE_TIM8'', Flag False), (''STM32_PWM_TIM1_IRQ_PRIORITY'', Num 7),
     (''STM32_PWM_TIM2_IRQ_PRIORITY'', Num 7), (''STM32_PWM_TIM3_IRQ_PRIORITY'', Num 7),
     (''STM32_PWM_TIM4_IRQ_PRIORITY'', Num 7), (''STM32_PWM_TIM5_IRQ_PRIORITY'', Num 7),
     (''STM32_PWM_TIM8_IRQ_PRIORITY'', Num 7), (''STM32_RTC_IRQ_PRIORITY'', Num 15),
     (''STM32_SERIAL_USE_USART1'', Flag True), (''STM32_SERIAL_USE_USART2'', Flag False),
     (''STM32_SERIAL_USE_USART3'', Flag False), (''STM32_SERIAL_USE_UART4'', Flag False),
     (''STM32_SERIAL_USE_UART5'', Flag False), (''STM32_SERIAL_USART1_PRIORITY'', Num 12),
     (''STM32_SERIAL_USART2_PRIORITY'', Num 12), (''STM32_SERIAL_USART3_PRIORITY'', Num 12),
     (''STM32_SERIAL_UART4_PRIORITY'', Num 12), (''STM32_SERIAL_UART5_PRIORITY'', Num 12),
     (''STM32_SPI_USE_SPI1'', Flag False), (''STM32_SPI_USE_SPI2'', Flag False),
     (''STM32_SPI_USE_SPI3'', Flag True), (''STM32_SPI_SPI1_DMA_PRIORITY'', Num 1),
     (''STM32_SPI_SPI2_DMA_PRIORITY'', Num 1), (''STM32_SPI_SPI3_DMA_PRIORITY'', Num 1),
     (''STM32_SPI_SPI1_IRQ_PRIORITY'', Num 10), (''STM32_SPI_SPI2_IRQ_PRIORITY'', Num 10),
     (''STM32_SPI_SPI3_IRQ_PRIORITY'', Num 10), (''STM32_SPI_DMA_ERROR_HOOK'', Sym ''chSysHalt()''),
     (''STM32_UART_USE_USART1'', Flag False), (''STM32_UART_USE_USART2'', Flag False),
     (''STM32_UART_USE_USART3'', Flag False), (''STM32_UART_USART1_IRQ_PRIORITY'', Num 12),
     (''STM32_UART_USART2_IRQ_PRIORITY'', Num 12), (''STM32_UART_USART3_IRQ_PRIORITY'', Num 12),
     (''STM32_UART_USART1_DMA_PRIORITY'', Num 0), (''STM32_UART_USART2_DMA_PRIORITY'', Num 0),
     (''STM32_UART_USART3_DMA_PRIORITY'', Num 0), (''STM32_UART_DMA_ERROR_HOOK'', Sym ''chSysHalt()''),
     (''STM32_USB_USE_OTG1'', Flag True), (''STM32_USB_OTG1_IRQ_PRIORITY'', Num 14),
     (''STM32_USB_OTG1_RX_FIFO_SIZE'', Num 512), (''STM32_USB_OTG_THREAD_PRIO'', Sym ''LOWPRIO''),
     (''STM32_USB_OTG_THREAD_STACK_SIZE'', Num 128), (''STM32_USB_OTGFIFO_FILL_BASEPRI'', Num 0)]"

definition enabled :: "(string \<times> setting) list \<Rightarrow> string list" where
  "enabled conf = map fst (filter (\<lambda>(n, v). v = Flag True) conf)"

text \<open>The switches of the features that are called, each with a function of the repository that calls it.\<close>

definition kernel_features :: "(string \<times> string) list" where
  "kernel_features =
    [(''CH_USE_MUTEXES'', ''update_table''), (''CH_USE_EVENTS'', ''rawd_push''), (''CH_USE_MAILBOXES'', ''nrf_send''),
     (''CH_USE_REGISTRY'', ''cmd_ps''), (''CH_USE_HEAP'', ''cmd_mem''), (''CH_USE_MEMCORE'', ''cmd_mem''),
     (''CH_USE_DYNAMIC'', ''console_poll'')]"

text \<open>Those on without such a call: used within the kernel, by the drivers and by lwIP, or spare.\<close>

definition kernel_others :: "string list" where
  "kernel_others =
    [''CH_USE_WAITEXIT'', ''CH_USE_SEMAPHORES'', ''CH_USE_SEMSW'', ''CH_USE_CONDVARS'', ''CH_USE_CONDVARS_TIMEOUT'',
     ''CH_USE_EVENTS_TIMEOUT'', ''CH_USE_MESSAGES'', ''CH_USE_QUEUES'', ''CH_USE_MEMPOOLS'']"

definition driver_features :: "(string \<times> string) list" where
  "driver_features =
    [(''HAL_USE_PAL'', ''led_set''), (''HAL_USE_EXT'', ''main''), (''HAL_USE_MAC'', ''main''), (''HAL_USE_SERIAL'', ''main''),
     (''HAL_USE_SERIAL_USB'', ''usb_init''), (''HAL_USE_SPI'', ''nrf_init''), (''HAL_USE_USB'', ''usb_init'')]"

text \<open>Units in use: \<open>SD1\<close>, \<open>SPID3\<close> and \<open>USBD1\<close>.\<close>

definition used_units :: "string list" where
  "used_units = [''STM32_SERIAL_USE_USART1'', ''STM32_SPI_USE_SPI3'', ''STM32_USB_USE_OTG1'']"

definition ends_with :: "string \<Rightarrow> string \<Rightarrow> bool" where
  "ends_with suf s \<longleftrightarrow> take (length suf) (rev s) = rev suf"

fun has_part :: "string \<Rightarrow> string \<Rightarrow> bool" where
  "has_part p [] \<longleftrightarrow> p = []"
| "has_part p (c # s) \<longleftrightarrow> take (length p) (c # s) = p \<or> has_part p s"

fun within :: "nat \<Rightarrow> setting \<Rightarrow> bool" where
  "within k (Num n) \<longleftrightarrow> n \<le> k"
| "within k (Flag b) \<longleftrightarrow> False"
| "within k (Sym s) \<longleftrightarrow> False"

section \<open>Properties\<close>

text \<open>
  The configuration fits the code: no setting of the kernel or of the drivers is made twice; every feature of the kernel that the code calls is
  switched on, besides these only those of \<open>kernel_others\<close>; the drivers switched on are exactly those the code uses, and so are the units of the device; every
  DMA priority lies in the range 0 to 3 and every other priority in the range 0 to 15 that the file states; and the tick is a
  millisecond, the unit of the times in reports.
\<close>

theorem switches_fit_code:
  "distinct (map fst chconf) \<and> distinct (map fst halconf)
   \<and> list_all (\<lambda>(n, f). map_of chconf n = Some (Flag True)) kernel_features
   \<and> set (filter (has_part ''CH_USE_'') (enabled chconf)) = set (map fst kernel_features) \<union> set kernel_others
   \<and> filter (has_part ''HAL_USE_'') (enabled halconf) = map fst driver_features
   \<and> filter (has_part ''_USE_'') (enabled mcuconf_settings) = used_units
   \<and> list_all (\<lambda>(n, v). if ends_with ''_DMA_PRIORITY'' n then within 3 v
        else if ends_with ''_PRIORITY'' n then within 15 v else True) mcuconf_settings
   \<and> map_of chconf ''CH_FREQUENCY'' = Some (Num 1000)"
proof (intro conjI)
  show "distinct (map fst chconf)" by (simp add: chconf_def)
  show "distinct (map fst halconf)" by (simp add: halconf_def)
  show "list_all (\<lambda>(n, f). map_of chconf n = Some (Flag True)) kernel_features"
    by (simp add: chconf_def kernel_features_def)
  show "set (filter (has_part ''CH_USE_'') (enabled chconf)) = set (map fst kernel_features) \<union> set kernel_others"
  proof -
    have "filter (has_part ''CH_USE_'') (enabled chconf) =
      [''CH_USE_REGISTRY'', ''CH_USE_WAITEXIT'', ''CH_USE_SEMAPHORES'', ''CH_USE_SEMSW'', ''CH_USE_MUTEXES'', ''CH_USE_CONDVARS'',
       ''CH_USE_CONDVARS_TIMEOUT'', ''CH_USE_EVENTS'', ''CH_USE_EVENTS_TIMEOUT'', ''CH_USE_MESSAGES'', ''CH_USE_MAILBOXES'',
       ''CH_USE_QUEUES'', ''CH_USE_MEMCORE'', ''CH_USE_HEAP'', ''CH_USE_MEMPOOLS'', ''CH_USE_DYNAMIC'']"
      by (simp add: chconf_def enabled_def)
    then show ?thesis by (auto simp only: kernel_features_def kernel_others_def list.map fst_conv list.set)
  qed
  show "filter (has_part ''HAL_USE_'') (enabled halconf) = map fst driver_features"
    by (simp add: halconf_def enabled_def driver_features_def)
  show "filter (has_part ''_USE_'') (enabled mcuconf_settings) = used_units"
    by (simp add: mcuconf_settings_def enabled_def used_units_def)
  show "list_all (\<lambda>(n, v). if ends_with ''_DMA_PRIORITY'' n then within 3 v
      else if ends_with ''_PRIORITY'' n then within 15 v else True) mcuconf_settings"
    by (simp add: mcuconf_settings_def ends_with_def)
  show "map_of chconf ''CH_FREQUENCY'' = Some (Num 1000)" by (simp add: chconf_def)
qed

end
