(* ===== verification/Console.thy ===== *)
theory Console
  imports Data_Report
begin

text \<open>
  The console of \<^verbatim>\<open>firmware/console.c\<close>: its four commands, printing on an arbitrary stream with an
  arbitrary formatter, and \<open>console_poll\<close>, which keeps one shell thread alive. What the
  kernel and lwIP hold (heap figures, thread registry, network interface) is an argument;
  a result \<open>None\<close> is the access to a null pointer or past an array.
\<close>

section \<open>Commands\<close>

definition crlf :: string where
  "crlf = [CHR 0x0D, CHR 0x0A]"

text \<open>\<open>core\<close> is \<open>chCoreStatus()\<close>, \<open>(n, sz)\<close> what \<open>chHeapStatus\<close> returns.\<close>

definition cmd_mem :: "printf \<Rightarrow> ('s \<Rightarrow> u8 \<Rightarrow> 's) \<Rightarrow> 's \<Rightarrow> int \<Rightarrow> nat \<Rightarrow> nat \<times> nat \<Rightarrow> 's" where
  "cmd_mem pf put chp argc core heap =
     (if argc > 0 then chprintf pf put chp (''Usage: mem'' @ crlf) []
      else let (n, sz) = heap;
               chp = chprintf pf put chp (''core free memory : %u bytes'' @ crlf) [PInt (int core)];
               chp = chprintf pf put chp (''heap fragments   : %u'' @ crlf) [PInt (int n)]
           in chprintf pf put chp (''heap free total  : %u bytes'' @ crlf) [PInt (int sz)])"

text \<open>The fields of a \<open>Thread\<close> that \<open>ps\<close> shows, with the address of the thread.\<close>

record thread =
  th_addr :: u32
  p_ctx_r13 :: u32
  p_prio :: nat
  p_refs :: nat
  p_state :: nat
  p_time :: nat
  p_name :: bytes

definition ps_fmt :: string where
  "ps_fmt = ''%8x %8x %4u %4u %9s %8u %s'' @ crlf"

definition ps_args :: "bytes list \<Rightarrow> thread \<Rightarrow> parg list" where
  "ps_args states th =
     [PInt (uint (th_addr th)), PInt (uint (p_ctx_r13 th)), PInt (int (p_prio th)),
      PInt (int (p_refs th) - 1), PStr (states ! p_state th), PInt (int (p_time th)), PStr (p_name th)]"

text \<open>The \<open>do ... while\<close> loop from a thread on; the list is the rest of the registry.\<close>

fun ps_loop :: "printf \<Rightarrow> ('s \<Rightarrow> u8 \<Rightarrow> 's) \<Rightarrow> bytes list \<Rightarrow> 's \<Rightarrow> thread list \<Rightarrow> 's option" where
  "ps_loop pf put states chp [] = None"
| "ps_loop pf put states chp (th # ths) =
     (if p_state th \<ge> length states then None
      else let chp = chprintf pf put chp ps_fmt (ps_args states th)
           in if ths = [] then Some chp else ps_loop pf put states chp ths)"

definition cmd_ps :: "printf \<Rightarrow> ('s \<Rightarrow> u8 \<Rightarrow> 's) \<Rightarrow> bytes list \<Rightarrow> 's \<Rightarrow> int \<Rightarrow> thread list \<Rightarrow> 's option" where
  "cmd_ps pf put states chp argc registry =
     (if argc > 0 then Some (chprintf pf put chp (''Usage: ps'' @ crlf) [])
      else let chp = chprintf pf put chp (''    addr    stack prio refs     state     time'' @ crlf) []
           in ps_loop pf put states chp registry)"

definition cmd_data_dump :: "printf \<Rightarrow> ('s \<Rightarrow> u8 \<Rightarrow> 's) \<Rightarrow> data_table \<Rightarrow> 's \<Rightarrow> int \<Rightarrow> 's" where
  "cmd_data_dump pf put tbl chp argc = data_dump pf put tbl chp"

datatype netif_flag =
    NETIF_FLAG_UP | NETIF_FLAG_BROADCAST | NETIF_FLAG_POINTTOPOINT | NETIF_FLAG_DHCP
  | NETIF_FLAG_LINK_UP | NETIF_FLAG_ETHARP | NETIF_FLAG_ETHERNET | NETIF_FLAG_IGMP

record dhcp =
  dhcp_state :: u8
  dhcp_tries :: u8

record netif =
  nf_ip_addr :: u32
  nf_netmask :: u32
  nf_gw :: u32
  nf_hostname :: bytes
  nf_mtu :: u16
  nf_hwaddr_len :: u8
  nf_hwaddr :: bytes
  nf_flags :: u8
  nf_name :: bytes
  nf_num :: u8
  nf_dhcp :: "dhcp option"

definition pflag :: "printf \<Rightarrow> ('s \<Rightarrow> u8 \<Rightarrow> 's) \<Rightarrow> (netif_flag \<Rightarrow> u8) \<Rightarrow> u8 \<Rightarrow> netif_flag \<Rightarrow> string \<Rightarrow> 's \<Rightarrow> 's" where
  "pflag pf put fmask f b s c = (if f AND fmask b \<noteq> 0 then chprintf pf put c ('' '' @ s) [] else c)"

definition print_ip :: "printf \<Rightarrow> ('s \<Rightarrow> u8 \<Rightarrow> 's) \<Rightarrow> (nat \<Rightarrow> u32 \<Rightarrow> u8) \<Rightarrow> string \<Rightarrow> u32 \<Rightarrow> 's \<Rightarrow> 's" where
  "print_ip pf put octet label a chp =
     chprintf pf put chp (''  '' @ label @ '': %d.%d.%d.%d'' @ crlf)
       [PInt (uint (octet 1 a)), PInt (uint (octet 2 a)), PInt (uint (octet 3 a)), PInt (uint (octet 4 a))]"

fun print_hwaddr :: "printf \<Rightarrow> ('s \<Rightarrow> u8 \<Rightarrow> 's) \<Rightarrow> bytes \<Rightarrow> nat \<Rightarrow> 's \<Rightarrow> 's" where
  "print_hwaddr pf put hw 0 chp = chp"
| "print_hwaddr pf put hw (Suc i) chp =
     chprintf pf put (print_hwaddr pf put hw i chp) ''%02x'' [PInt (uint (hw ! i))]"

text \<open>
  \<open>octet\<close> stands for lwIP's macros \<open>ip4_addr1\<close> to \<open>ip4_addr4\<close>, \<open>fmask\<close> for the values of its flags.
\<close>

definition print_flags :: "printf \<Rightarrow> ('s \<Rightarrow> u8 \<Rightarrow> 's) \<Rightarrow> (netif_flag \<Rightarrow> u8) \<Rightarrow> u8 \<Rightarrow> 's \<Rightarrow> 's" where
  "print_flags pf put fmask f chp =
     (let chp = pflag pf put fmask f NETIF_FLAG_UP ''up'' chp;
          chp = pflag pf put fmask f NETIF_FLAG_BROADCAST ''broadcast'' chp;
          chp = pflag pf put fmask f NETIF_FLAG_POINTTOPOINT ''pointtopoint'' chp;
          chp = pflag pf put fmask f NETIF_FLAG_DHCP ''dhcp'' chp;
          chp = pflag pf put fmask f NETIF_FLAG_LINK_UP ''link_up'' chp;
          chp = pflag pf put fmask f NETIF_FLAG_ETHARP ''etharp'' chp;
          chp = pflag pf put fmask f NETIF_FLAG_ETHERNET ''ethernet'' chp
      in pflag pf put fmask f NETIF_FLAG_IGMP ''igmp'' chp)"

definition cmd_net ::
    "printf \<Rightarrow> ('s \<Rightarrow> u8 \<Rightarrow> 's) \<Rightarrow> (nat \<Rightarrow> u32 \<Rightarrow> u8) \<Rightarrow> (netif_flag \<Rightarrow> u8) \<Rightarrow> 's \<Rightarrow> int \<Rightarrow> netif option \<Rightarrow> 's option" where
  "cmd_net pf put octet fmask chp argc netif_default =
     (case netif_default of
        None \<Rightarrow> None
      | Some nf \<Rightarrow>
          (let chp = chprintf pf put chp (''Interface %d: %c%c'' @ crlf)
                 [PInt (uint (nf_num nf)), PInt (uint (nf_name nf ! 0)), PInt (uint (nf_name nf ! 1))];
               chp = print_ip pf put octet ''ip_addr'' (nf_ip_addr nf) chp;
               chp = print_ip pf put octet ''netmask'' (nf_netmask nf) chp;
               chp = print_ip pf put octet ''gw'' (nf_gw nf) chp;
               chp = chprintf pf put chp (''  hostname: %s'' @ crlf) [PStr (nf_hostname nf)];
               chp = chprintf pf put chp (''  mtu: %d'' @ crlf) [PInt (uint (nf_mtu nf))];
               chp = chprintf pf put chp ''  hwaddr: '' [];
               chp = print_hwaddr pf put (nf_hwaddr nf) (unat (nf_hwaddr_len nf)) chp;
               chp = chprintf pf put chp crlf [];
               chp = chprintf pf put chp ''  flags (%x):'' [PInt (uint (nf_flags nf))];
               chp = print_flags pf put fmask (nf_flags nf) chp;
               chp = chprintf pf put chp crlf [];
               chp = chprintf pf put chp (''DHCP:'' @ crlf) []
           in (case nf_dhcp nf of
                 None \<Rightarrow> None
               | Some dhcp \<Rightarrow>
                   let chp = chprintf pf put chp (''  state: %d'' @ crlf) [PInt (uint (dhcp_state dhcp))]
                   in Some (chprintf pf put chp (''  tries: %d'' @ crlf) [PInt (uint (dhcp_tries dhcp))]))))"

datatype shell_function = Cmd_mem | Cmd_ps | Cmd_data_dump | Cmd_net

text \<open>The command table; \<open>None\<close> is the empty entry that ends it.\<close>

definition commands :: "(string \<times> shell_function) option list" where
  "commands = [Some (''mem'', Cmd_mem), Some (''ps'', Cmd_ps), Some (''dd'', Cmd_data_dump),
               Some (''net'', Cmd_net), None]"

section \<open>The shell thread\<close>

text \<open>
  Threads are numbers, which the kernel may use again once a thread has been
  released. \<open>created\<close> is what \<open>shellCreate\<close> returns, null when there is no memory for the
  thread; \<open>terminated\<close> is \<open>chThdTerminated\<close> at the time of the call.
\<close>

datatype shell_call = Shell_init | Shell_create "nat option" | Thread_release nat

record 'c console_st =
  co_sc_channel :: "'c option"
  co_th :: "nat option"
  co_log :: "shell_call list"

definition console_boot :: "'c console_st" where
  "console_boot = \<lparr>co_sc_channel = None, co_th = None, co_log = []\<rparr>"

definition console_init :: "'c \<Rightarrow> 'c console_st \<Rightarrow> 'c console_st" where
  "console_init stream s = s\<lparr>co_sc_channel := Some stream, co_log := co_log s @ [Shell_init]\<rparr>"

definition console_poll :: "(nat \<Rightarrow> bool) \<Rightarrow> nat option \<Rightarrow> 'c console_st \<Rightarrow> 'c console_st" where
  "console_poll terminated created s =
     (case co_th s of
        None \<Rightarrow> s\<lparr>co_th := created, co_log := co_log s @ [Shell_create created]\<rparr>
      | Some th \<Rightarrow>
          if terminated th then s\<lparr>co_th := None, co_log := co_log s @ [Thread_release th]\<rparr> else s)"

text \<open>The main loop polls for ever; each poll sees its own threads and allocation result.\<close>

definition console_polls :: "((nat \<Rightarrow> bool) \<times> nat option) list \<Rightarrow> 'c console_st \<Rightarrow> 'c console_st" where
  "console_polls ins s = fold (\<lambda>(terminated, created). console_poll terminated created) ins s"

section \<open>What the commands print\<close>

lemma chprintf_puts: "chprintf pf put (foldl put s t) fmt args = foldl put s (t @ pf fmt args)"
  by (simp add: chprintf_def)

lemma chprintf_first: "chprintf pf put s fmt args = foldl put s (pf fmt args)"
  by (simp add: chprintf_def)

lemma ps_loop_text:
  assumes "\<forall>th\<in>set ths. p_state th < length states" and "ths \<noteq> []"
  shows "ps_loop pf put states chp ths = Some (foldl put chp (concat (map (\<lambda>th. pf ps_fmt (ps_args states th)) ths)))"
  using assms by (induction ths arbitrary: chp) (auto simp: chprintf_first Let_def)

text \<open>
  \<open>ps\<close> prints its heading and then exactly one line per registered thread, in the order of the
  registry, on any stream, and ends; with an argument it prints its usage only.
\<close>

theorem cmd_ps_lists_threads:
  assumes "\<forall>th\<in>set ths. p_state th < length states" and "ths \<noteq> []"
  shows "cmd_ps pf put states chp argc ths =
    Some (foldl put chp
      (if argc > 0 then pf (''Usage: ps'' @ crlf) []
       else pf (''    addr    stack prio refs     state     time'' @ crlf) []
         @ concat (map (\<lambda>th. pf ps_fmt (ps_args states th)) ths)))"
proof (cases "argc > 0")
  case True
  then show ?thesis by (simp only: cmd_ps_def chprintf_first if_True)
next
  case False
  then show ?thesis
    by (simp only: cmd_ps_def chprintf_first if_False Let_def ps_loop_text [OF assms] foldl_append)
qed

theorem cmd_ps_lists_threads_witness:
  "cmd_ps (\<lambda>fmt args. [of_nat (length args)]) text_put [str ''READY''] [] 0
     [\<lparr>th_addr = 0x20000000, p_ctx_r13 = 0x20000100, p_prio = 64, p_refs = 1, p_state = 0, p_time = 7,
        p_name = str ''main''\<rparr>] = Some [0, 7]"
  by (subst cmd_ps_lists_threads) (simp_all add: ps_args_def text_put_def)

text \<open>The names of the flags, in the order they are printed.\<close>

definition flag_names :: "(netif_flag \<times> string) list" where
  "flag_names = [(NETIF_FLAG_UP, ''up''), (NETIF_FLAG_BROADCAST, ''broadcast''),
     (NETIF_FLAG_POINTTOPOINT, ''pointtopoint''), (NETIF_FLAG_DHCP, ''dhcp''),
     (NETIF_FLAG_LINK_UP, ''link_up''), (NETIF_FLAG_ETHARP, ''etharp''),
     (NETIF_FLAG_ETHERNET, ''ethernet''), (NETIF_FLAG_IGMP, ''igmp'')]"

definition flags_text :: "(netif_flag \<Rightarrow> u8) \<Rightarrow> u8 \<Rightarrow> bytes" where
  "flags_text fmask f = concat (map (\<lambda>(b, s). str '' '' @ str s) (filter (\<lambda>(b, s). f AND fmask b \<noteq> 0) flag_names))"

definition dotted :: "u8 list \<Rightarrow> bytes" where
  "dotted bs = joined (str ''.'') (map (\<lambda>b. dec_int (uint b)) bs)"

lemma fmt_text_plain:
  "CHR ''%'' \<notin> set s \<Longrightarrow> fmt_text (s @ fmt) args = map_option ((@) (str s)) (fmt_text fmt args)"
proof (induction s)
  case Nil
  then show ?case by (cases "fmt_text fmt args") simp_all
next
  case (Cons c s)
  then show ?case by (cases "fmt_text fmt args") (auto simp: str_def)
qed

context printf_laws
begin

lemma pf_plain: "CHR ''%'' \<notin> set s \<Longrightarrow> pf s [] = str s"
  using fmt_text_plain [of s "[]" "[]"] by (intro pf_text) simp

lemma pflag_text:
  assumes "CHR ''%'' \<notin> set s"
  shows "pflag pf put fmask f b s (foldl put chp t)
    = foldl put chp (t @ (if f AND fmask b \<noteq> 0 then str '' '' @ str s else []))"
proof -
  have "pf ('' '' @ s) [] = str '' '' @ str s"
    unfolding str_append [symmetric] using assms by (intro pf_plain) auto
  then show ?thesis by (simp only: pflag_def chprintf_puts append_Nil2 split: if_split) simp
qed

lemma print_flags_text: "print_flags pf put fmask f chp = foldl put chp (flags_text fmask f)"
proof -
  have "print_flags pf put fmask f (foldl put chp []) = foldl put chp (flags_text fmask f)"
    unfolding print_flags_def Let_def by (simp add: pflag_text flags_text_def flag_names_def del: foldl_append foldl.simps)
  then show ?thesis by simp
qed

lemma print_ip_text:
  assumes "CHR ''%'' \<notin> set label"
  shows "print_ip pf put octet label a chp =
    foldl put chp (str ''  '' @ str label @ str '': '' @ dotted [octet 1 a, octet 2 a, octet 3 a, octet 4 a] @ str crlf)"
proof -
  have "fmt_text ((''  '' @ label @ '': '') @ ''%d.%d.%d.%d'' @ crlf)
      (map (\<lambda>n. PInt (uint (octet n a))) [1, 2, 3, 4])
    = Some (str (''  '' @ label @ '': '') @ dotted [octet 1 a, octet 2 a, octet 3 a, octet 4 a] @ str crlf)"
    using assms by (subst fmt_text_plain) (auto simp: crlf_def str_def dotted_def)
  from pf_text [OF this] show ?thesis
    by (simp add: print_ip_def chprintf_first str_def)
qed

lemma pf_hostname: "pf (''  hostname: %s'' @ crlf) [PStr t] = str ''  hostname: '' @ t @ str crlf"
  by (rule pf_text) (simp add: crlf_def str_def)

lemma pf_mtu: "pf (''  mtu: %d'' @ crlf) [PInt n] = str ''  mtu: '' @ dec_int n @ str crlf"
  by (rule pf_text) (simp add: crlf_def str_def)

lemma pf_state: "pf (''  state: %d'' @ crlf) [PInt n] = str ''  state: '' @ dec_int n @ str crlf"
  by (rule pf_text) (simp add: crlf_def str_def)

lemma pf_tries: "pf (''  tries: %d'' @ crlf) [PInt n] = str ''  tries: '' @ dec_int n @ str crlf"
  by (rule pf_text) (simp add: crlf_def str_def)

lemma pf_fixed:
  "pf ''  hwaddr: '' [] = str ''  hwaddr: ''" "pf crlf [] = str crlf"
  "pf (''DHCP:'' @ crlf) [] = str (''DHCP:'' @ crlf)"
  by (rule pf_plain, simp add: crlf_def)+

lemmas net_lines = pf_hostname pf_mtu pf_state pf_tries pf_fixed

end

lemma print_hwaddr_text:
  "n \<le> length hw \<Longrightarrow> print_hwaddr pf put hw n chp
     = foldl put chp (concat (map (\<lambda>b. pf ''%02x'' [PInt (uint b)]) (take n hw)))"
  by (induction n) (simp_all add: chprintf_def take_Suc_conv_app_nth)

text \<open>
  \<open>net\<close> prints the interface: the addresses in dotted form, the octets of the
  hardware address one by one, the names of exactly the flags that are set, in their order, and
  the DHCP state; without a default interface, or when the interface has no DHCP client,
  it follows a null pointer.
\<close>

theorem cmd_net_text:
  assumes "printf_laws pf" and "unat (nf_hwaddr_len nf) \<le> length (nf_hwaddr nf)"
  shows "cmd_net pf put octet fmask chp argc (Some nf) =
    map_option (\<lambda>d. foldl put chp
        (pf (''Interface %d: %c%c'' @ crlf)
           [PInt (uint (nf_num nf)), PInt (uint (nf_name nf ! 0)), PInt (uint (nf_name nf ! 1))]
         @ concat (map (\<lambda>(label, a). str ''  '' @ str label @ str '': ''
               @ dotted [octet 1 a, octet 2 a, octet 3 a, octet 4 a] @ str crlf)
             [(''ip_addr'', nf_ip_addr nf), (''netmask'', nf_netmask nf), (''gw'', nf_gw nf)])
         @ str ''  hostname: '' @ nf_hostname nf @ str crlf
         @ str ''  mtu: '' @ dec_int (uint (nf_mtu nf)) @ str crlf
         @ str ''  hwaddr: ''
         @ concat (map (\<lambda>b. pf ''%02x'' [PInt (uint b)]) (take (unat (nf_hwaddr_len nf)) (nf_hwaddr nf)))
         @ str crlf
         @ pf ''  flags (%x):'' [PInt (uint (nf_flags nf))] @ flags_text fmask (nf_flags nf) @ str crlf
         @ str (''DHCP:'' @ crlf)
         @ str ''  state: '' @ dec_int (uint (dhcp_state d)) @ str crlf
         @ str ''  tries: '' @ dec_int (uint (dhcp_tries d)) @ str crlf)) (nf_dhcp nf)
    \<and> cmd_net pf put octet fmask chp argc None = None"
proof (cases "nf_dhcp nf")
  case None
  then show ?thesis by (simp add: cmd_net_def Let_def)
next
  case (Some d)
  have label: "CHR ''%'' \<notin> set ''ip_addr''" "CHR ''%'' \<notin> set ''netmask''" "CHR ''%'' \<notin> set ''gw''"
    by simp_all
  show ?thesis
    unfolding cmd_net_def Some Let_def option.case option.map
      print_hwaddr_text [OF assms(2)] printf_laws.print_flags_text [OF assms(1)]
      printf_laws.print_ip_text [OF assms(1) label(1)] printf_laws.print_ip_text [OF assms(1) label(2)]
      printf_laws.print_ip_text [OF assms(1) label(3)] chprintf_first printf_laws.net_lines [OF assms(1)]
    by (simp only: foldl_append list.map concat.simps prod.case append_Nil2 append_assoc HOL.simp_thms)
qed

theorem cmd_net_text_witness:
  "cmd_net plain_printf text_put (\<lambda>n a. ucast (drop_bit (8 * (n - 1)) a)) (\<lambda>b. if b = NETIF_FLAG_UP then 1 else 0) [] 0
     (Some \<lparr>nf_ip_addr = 0x0100007F, nf_netmask = 0, nf_gw = 0, nf_hostname = [], nf_mtu = 1500, nf_hwaddr_len = 0,
        nf_hwaddr = [], nf_flags = 1, nf_name = [101, 110], nf_num = 0, nf_dhcp = None\<rparr>) = None"
  by (subst cmd_net_text [OF plain.printf_laws_axioms, THEN conjunct1]) simp_all

section \<open>One shell at a time\<close>

text \<open>
  The shell thread a log leaves in existence; \<open>None\<close> if the log creates a thread while there is one, or releases a thread
  that does not exist.
\<close>

fun shell_alive :: "shell_call list \<Rightarrow> nat option \<Rightarrow> nat option option" where
  "shell_alive [] alive = Some alive"
| "shell_alive (Shell_init # log) alive = shell_alive log alive"
| "shell_alive (Shell_create c # log) alive = (if alive = None then shell_alive log c else None)"
| "shell_alive (Thread_release th # log) alive = (if alive = Some th then shell_alive log None else None)"

lemma shell_alive_append:
  "shell_alive (log @ log') alive = Option.bind (shell_alive log alive) (shell_alive log')"
  by (induction log alive rule: shell_alive.induct) simp_all

definition console_inv :: "'c \<Rightarrow> 'c console_st \<Rightarrow> bool" where
  "console_inv stream s \<longleftrightarrow> shell_alive (co_log s) None = Some (co_th s) \<and> co_sc_channel s = Some stream"

lemma console_init_inv: "console_inv stream (console_init stream console_boot)"
  by (simp add: console_inv_def console_init_def console_boot_def)

lemma console_poll_inv [inv_intros]: "console_inv stream s \<Longrightarrow> console_inv stream (console_poll t c s)"
  by (auto simp: console_inv_def console_poll_def shell_alive_append split: option.split)

lemma console_polls_inv: "console_inv stream s \<Longrightarrow> console_inv stream (console_polls ins s)"
  unfolding console_polls_def
  by (induction ins arbitrary: s) (auto intro: inv_intros)

text \<open>
  C28. However the shells end and whatever the kernel returns, the console never creates a shell while another exists and
  releases exactly the shell it created, on the stream it was given. A running shell is left
  alone; one that has ended is released by the next poll and replaced by the one after it.
\<close>

theorem console_one_shell:
  "let s = console_polls ins (console_init stream console_boot)
    in shell_alive (co_log s) None = Some (co_th s) \<and> co_sc_channel s = Some stream
    \<and> console_polls (ins @ [(t, c), (t', c')]) (console_init stream console_boot) =
       (case co_th s of
          Some th \<Rightarrow> if t th then s\<lparr>co_th := c', co_log := co_log s @ [Thread_release th, Shell_create c']\<rparr>
                     else console_poll t' c' s
        | None \<Rightarrow> console_poll t' c' (s\<lparr>co_th := c, co_log := co_log s @ [Shell_create c]\<rparr>))"
proof -
  let ?s = "console_polls ins (console_init stream console_boot)"
  have "console_inv stream ?s"
    by (rule console_polls_inv [OF console_init_inv])
  moreover have "console_polls (ins @ [(t, c), (t', c')]) (console_init stream console_boot)
      = console_poll t' c' (console_poll t c ?s)"
    by (simp add: console_polls_def)
  ultimately show ?thesis
    by (cases "co_th ?s") (auto simp: console_inv_def console_poll_def)
qed

end
