(* ===== verification/Usb_Device.thy ===== *)
theory Usb_Device
  imports Prelude
begin

text \<open>
  The USB serial device of \<^verbatim>\<open>firmware/usb_device.c\<close>: its descriptors, their retrieval, the
  endpoints opened when the host configures the device, and the vendor request that resets
  the board. The macros that lay out a descriptor belong to ChibiOS: a descriptor is the list of its macro
  calls, and \<open>enc\<close>, the bytes of a call, is a parameter whose documented layout (the standard
  descriptors of the USB specification, little endian) is the locale \<open>usb_macros\<close>, with the
  numbers the ChibiOS headers give the string descriptor type and the request type bits.
\<close>

section \<open>Descriptors\<close>

datatype usb_item =
    USB_DESC_BYTE u8
  | USB_DESC_BCD u16
  | USB_DESC_WORD u16
  | USB_DESC_DEVICE u16 u8 u8 u8 u8 u16 u16 u16 u8 u8 u8 u8
  | USB_DESC_CONFIGURATION u16 u8 u8 u8 u8 u8
  | USB_DESC_INTERFACE u8 u8 u8 u8 u8 u8 u8
  | USB_DESC_ENDPOINT u8 u8 u16 u8

definition USBD1_DATA_REQUEST_EP :: u8 where
  "USBD1_DATA_REQUEST_EP = 1"

definition USBD1_DATA_AVAILABLE_EP :: u8 where
  "USBD1_DATA_AVAILABLE_EP = 1"

definition USBD1_INTERRUPT_REQUEST_EP :: u8 where
  "USBD1_INTERRUPT_REQUEST_EP = 2"

definition vcom_device_descriptor_data :: "usb_item list" where
  "vcom_device_descriptor_data =
     [USB_DESC_DEVICE 0x0110 0x02 0x00 0x00 0x40 0x0483 0x5740 0x0200 1 2 0 1]"

definition vcom_configuration_descriptor_data :: "usb_item list" where
  "vcom_configuration_descriptor_data =
     [USB_DESC_CONFIGURATION 67 0x02 0x01 0 0xC0 50,
      USB_DESC_INTERFACE 0x00 0x00 0x01 0x02 0x02 0x01 0,
      USB_DESC_BYTE 5, USB_DESC_BYTE 0x24, USB_DESC_BYTE 0x00, USB_DESC_BCD 0x0110,
      USB_DESC_BYTE 5, USB_DESC_BYTE 0x24, USB_DESC_BYTE 0x01, USB_DESC_BYTE 0x00, USB_DESC_BYTE 0x01,
      USB_DESC_BYTE 4, USB_DESC_BYTE 0x24, USB_DESC_BYTE 0x02, USB_DESC_BYTE 0x02,
      USB_DESC_BYTE 5, USB_DESC_BYTE 0x24, USB_DESC_BYTE 0x06, USB_DESC_BYTE 0x00, USB_DESC_BYTE 0x01,
      USB_DESC_ENDPOINT (USBD1_INTERRUPT_REQUEST_EP OR 0x80) 0x03 0x0008 0xFF,
      USB_DESC_INTERFACE 0x01 0x00 0x02 0x0A 0x00 0x00 0x00,
      USB_DESC_ENDPOINT USBD1_DATA_AVAILABLE_EP 0x02 0x0040 0x00,
      USB_DESC_ENDPOINT (USBD1_DATA_REQUEST_EP OR 0x80) 0x02 0x0040 0x00]"

definition vcom_string0 :: "u8 \<Rightarrow> usb_item list" where
  "vcom_string0 string_type = [USB_DESC_BYTE 4, USB_DESC_BYTE string_type, USB_DESC_WORD 0x0409]"

text \<open>The characters of a string descriptor, each followed by a zero byte.\<close>

definition utf16 :: "string \<Rightarrow> usb_item list" where
  "utf16 s = concat (map (\<lambda>c. [USB_DESC_BYTE c, USB_DESC_BYTE 0]) (str s))"

definition vcom_string1 :: "u8 \<Rightarrow> usb_item list" where
  "vcom_string1 string_type =
     [USB_DESC_BYTE 44, USB_DESC_BYTE string_type] @ utf16 ''www.fabiobaltieri.com''"

definition vcom_string2 :: "u8 \<Rightarrow> usb_item list" where
  "vcom_string2 string_type =
     [USB_DESC_BYTE 26, USB_DESC_BYTE string_type] @ utf16 ''nrf-ethernet''"

definition vcom_strings :: "u8 \<Rightarrow> usb_item list list" where
  "vcom_strings string_type = [vcom_string0 string_type, vcom_string1 string_type, vcom_string2 string_type]"

datatype usb_dtype =
    USB_DESCRIPTOR_DEVICE | USB_DESCRIPTOR_CONFIGURATION | USB_DESCRIPTOR_STRING | Other_descriptor u8

text \<open>\<open>None\<close> is the null pointer.\<close>

definition get_descriptor :: "u8 \<Rightarrow> usb_dtype \<Rightarrow> u8 \<Rightarrow> usb_item list option" where
  "get_descriptor string_type dtype dindex =
     (case dtype of
        USB_DESCRIPTOR_DEVICE \<Rightarrow> Some vcom_device_descriptor_data
      | USB_DESCRIPTOR_CONFIGURATION \<Rightarrow> Some vcom_configuration_descriptor_data
      | USB_DESCRIPTOR_STRING \<Rightarrow>
          if dindex < 3 then Some (vcom_strings string_type ! unat dindex) else None
      | Other_descriptor d \<Rightarrow> None)"

section \<open>Endpoints\<close>

datatype ep_mode = USB_EP_MODE_TYPE_BULK | USB_EP_MODE_TYPE_INTR

datatype ep_callback = No_callback | SduDataTransmitted | SduDataReceived | SduInterruptTransmitted

text \<open>\<open>USBEndpointConfig\<close>: mode, callbacks, packet sizes, whether the in and out states are there.\<close>

record ep_config =
  ep_mode :: ep_mode
  ep_in_cb :: ep_callback
  ep_out_cb :: ep_callback
  ep_in_maxsize :: u16
  ep_out_maxsize :: u16
  ep_in_state :: bool
  ep_out_state :: bool
  ep_multiplier :: nat

definition ep1_config :: ep_config where
  "ep1_config = \<lparr>ep_mode = USB_EP_MODE_TYPE_BULK, ep_in_cb = SduDataTransmitted,
     ep_out_cb = SduDataReceived, ep_in_maxsize = 0x0040, ep_out_maxsize = 0x0040,
     ep_in_state = True, ep_out_state = True, ep_multiplier = 2\<rparr>"

definition ep2_config :: ep_config where
  "ep2_config = \<lparr>ep_mode = USB_EP_MODE_TYPE_INTR, ep_in_cb = SduInterruptTransmitted,
     ep_out_cb = No_callback, ep_in_maxsize = 0x0010, ep_out_maxsize = 0x0000,
     ep_in_state = True, ep_out_state = False, ep_multiplier = 1\<rparr>"

section \<open>Events and requests\<close>

datatype usbevent =
    USB_EVENT_RESET | USB_EVENT_ADDRESS | USB_EVENT_CONFIGURED | USB_EVENT_SUSPEND | USB_EVENT_WAKEUP
  | USB_EVENT_STALLED

datatype usb_call =
    Lock_from_isr | Unlock_from_isr | Usb_init_endpoint u8 ep_config | Sdu_configure_hook
  | Sdu_object_init | Sdu_start | Usb_disconnect_bus | Usb_sleep nat | Usb_start | Usb_connect_bus
  | Write_AIRCR u32

definition usb_dev_event :: "usbevent \<Rightarrow> usb_call list \<Rightarrow> usb_call list" where
  "usb_dev_event event log =
     (case event of
        USB_EVENT_RESET \<Rightarrow> log
      | USB_EVENT_ADDRESS \<Rightarrow> log
      | USB_EVENT_CONFIGURED \<Rightarrow>
          log @ [Lock_from_isr,
                 Usb_init_endpoint USBD1_DATA_REQUEST_EP ep1_config,
                 Usb_init_endpoint USBD1_INTERRUPT_REQUEST_EP ep2_config,
                 Sdu_configure_hook,
                 Unlock_from_isr]
      | USB_EVENT_SUSPEND \<Rightarrow> log
      | USB_EVENT_WAKEUP \<Rightarrow> log
      | USB_EVENT_STALLED \<Rightarrow> log)"

record usb_request =
  rq_bmRequestType :: u8
  rq_bRequest :: u8
  rq_wValue :: u16
  rq_wIndex :: u16
  rq_wLength :: u16

text \<open>The cast of the 8-byte setup packet to \<open>struct usb_request\<close>.\<close>

definition request_of_setup :: "bytes \<Rightarrow> usb_request" where
  "request_of_setup s = \<lparr>rq_bmRequestType = s ! 0, rq_bRequest = s ! 1, rq_wValue = le16 (s ! 2) (s ! 3),
     rq_wIndex = le16 (s ! 4) (s ! 5), rq_wLength = le16 (s ! 6) (s ! 7)\<rparr>"

text \<open>
  \<open>type_mask\<close> and \<open>type_vendor\<close> are ChibiOS' \<open>USB_RTYPE_TYPE_MASK\<close> and
  \<open>USB_RTYPE_TYPE_VENDOR\<close>, \<open>vectkey_pos\<close> and \<open>sysresetreq\<close> the CMSIS constants of the reset
  register, \<open>sdu\<close> the result of \<open>sduRequestsHook\<close>.
\<close>

definition request_hook ::
    "u8 \<Rightarrow> u8 \<Rightarrow> nat \<Rightarrow> u32 \<Rightarrow> (bytes \<Rightarrow> bool) \<Rightarrow> bytes \<Rightarrow> usb_call list \<Rightarrow> bool \<times> usb_call list" where
  "request_hook type_mask type_vendor vectkey_pos sysresetreq sdu setup log =
     (let rq = request_of_setup setup
      in if rq_bmRequestType rq AND type_mask \<noteq> type_vendor then (sdu setup, log)
         else if rq_wIndex rq = 0
         then (True, log @ [Write_AIRCR (push_bit vectkey_pos 0x5FA OR sysresetreq)])
         else (False, log))"

definition usb_init :: "usb_call list \<Rightarrow> usb_call list" where
  "usb_init log = log @ [Sdu_object_init, Sdu_start, Usb_disconnect_bus, Usb_sleep 100, Usb_start, Usb_connect_bus]"

section \<open>The layout of the macros\<close>

locale usb_macros =
  fixes enc :: "usb_item \<Rightarrow> bytes"
  assumes enc_byte: "enc (USB_DESC_BYTE b) = [b]"
    and enc_bcd: "enc (USB_DESC_BCD w) = bytes16 w"
    and enc_word: "enc (USB_DESC_WORD w) = bytes16 w"
    and enc_device: "enc (USB_DESC_DEVICE bcdUSB cls subcls proto maxpkt vid pid bcdDev man prd ser confs) =
      [18, 1] @ bytes16 bcdUSB @ [cls, subcls, proto, maxpkt] @ bytes16 vid @ bytes16 pid
        @ bytes16 bcdDev @ [man, prd, ser, confs]"
    and enc_configuration: "enc (USB_DESC_CONFIGURATION tot ifs val ix attr pow) =
      [9, 2] @ bytes16 tot @ [ifs, val, ix, attr, pow]"
    and enc_interface: "enc (USB_DESC_INTERFACE num alt eps cls subcls proto ix) =
      [9, 4, num, alt, eps, cls, subcls, proto, ix]"
    and enc_endpoint: "enc (USB_DESC_ENDPOINT addr attr sz ival) = [7, 5, addr, attr] @ bytes16 sz @ [ival]"

definition desc_bytes :: "(usb_item \<Rightarrow> bytes) \<Rightarrow> usb_item list \<Rightarrow> bytes" where
  "desc_bytes enc items = concat (map enc items)"

text \<open>A descriptor set cut into descriptors at the lengths in their first bytes.\<close>

fun desc_chain :: "nat \<Rightarrow> bytes \<Rightarrow> bytes list option" where
  "desc_chain n [] = Some []"
| "desc_chain 0 (b # bs) = None"
| "desc_chain (Suc n) (b # bs) =
     (if unat b < 2 \<or> unat b > length (b # bs) then None
      else map_option ((#) (take (unat b) (b # bs))) (desc_chain n (drop (unat b) (b # bs))))"

text \<open>Descriptors that begin with their length are recovered from their concatenation.\<close>

lemma desc_chain_concat:
  assumes "\<forall>d\<in>set ds. 2 \<le> length d \<and> unat (hd d) = length d" and "length ds \<le> n"
  shows "desc_chain n (concat ds) = Some ds"
  using assms
proof (induction ds arbitrary: n)
  case Nil
  then show ?case by simp
next
  case (Cons d ds)
  then obtain b bs where d: "d = b # bs" by (cases d) auto
  obtain k where n: "n = Suc k" using Cons.prems(2) by (cases n) auto
  have len: "unat b = length d" "2 \<le> length d" using Cons.prems(1) d by simp_all
  have "desc_chain k (concat ds) = Some ds"
    using Cons.prems n by (intro Cons.IH) simp_all
  moreover have "take (unat b) (d @ concat ds) = d" "drop (unat b) (d @ concat ds) = concat ds"
    by (simp_all add: len(1))
  ultimately show ?case
    using len unfolding n d by auto
qed

text \<open>Every interface is followed by as many endpoint descriptors as it announces.\<close>

fun interfaces_ok :: "bytes list \<Rightarrow> bool" where
  "interfaces_ok [] \<longleftrightarrow> True"
| "interfaces_ok (d # ds) \<longleftrightarrow>
     (d ! 1 = 4 \<longrightarrow> unat (d ! 4) = length (filter (\<lambda>e. e ! 1 = 5) (takeWhile (\<lambda>e. e ! 1 \<noteq> 4) ds)))
     \<and> interfaces_ok ds"

fun usb_enc :: "usb_item \<Rightarrow> bytes" where
  "usb_enc (USB_DESC_BYTE b) = [b]"
| "usb_enc (USB_DESC_BCD w) = bytes16 w"
| "usb_enc (USB_DESC_WORD w) = bytes16 w"
| "usb_enc (USB_DESC_DEVICE bcdUSB cls subcls proto maxpkt vid pid bcdDev man prd ser confs) =
     [18, 1] @ bytes16 bcdUSB @ [cls, subcls, proto, maxpkt] @ bytes16 vid @ bytes16 pid
       @ bytes16 bcdDev @ [man, prd, ser, confs]"
| "usb_enc (USB_DESC_CONFIGURATION tot ifs val ix attr pow) =
     [9, 2] @ bytes16 tot @ [ifs, val, ix, attr, pow]"
| "usb_enc (USB_DESC_INTERFACE num alt eps cls subcls proto ix) =
     [9, 4, num, alt, eps, cls, subcls, proto, ix]"
| "usb_enc (USB_DESC_ENDPOINT addr attr sz ival) = [7, 5, addr, attr] @ bytes16 sz @ [ival]"

text \<open>
  The descriptors of the configuration as a host cuts them out of its bytes (\<open>config_chain_ok\<close>), one by one.
\<close>

definition config_chain :: "bytes list" where
  "config_chain =
     [[9, 2, 67, 0, 2, 1, 0, 0xC0, 50], [9, 4, 0, 0, 1, 2, 2, 1, 0], [5, 0x24, 0, 0x10, 1],
      [5, 0x24, 1, 0, 1], [4, 0x24, 2, 2], [5, 0x24, 6, 0, 1], [7, 5, 0x82, 3, 8, 0, 0xFF],
      [9, 4, 1, 0, 2, 0x0A, 0, 0, 0], [7, 5, 1, 2, 0x40, 0, 0], [7, 5, 0x81, 2, 0x40, 0, 0]]"

interpretation std_macros: usb_macros usb_enc
  by unfold_locales simp_all

context usb_macros
begin

lemmas enc_simps = enc_byte enc_bcd enc_word enc_device enc_configuration enc_interface enc_endpoint

lemma config_bytes:
  "desc_bytes enc vcom_configuration_descriptor_data =
     [9, 2, 67, 0, 2, 1, 0, 0xC0, 50,
      9, 4, 0, 0, 1, 2, 2, 1, 0,
      5, 0x24, 0, 0x10, 1,
      5, 0x24, 1, 0, 1,
      4, 0x24, 2, 2,
      5, 0x24, 6, 0, 1,
      7, 5, 0x82, 3, 8, 0, 0xFF,
      9, 4, 1, 0, 2, 0x0A, 0, 0, 0,
      7, 5, 1, 2, 0x40, 0, 0,
      7, 5, 0x81, 2, 0x40, 0, 0]"
  by (simp add: desc_bytes_def vcom_configuration_descriptor_data_def enc_simps bytes16_def
      USBD1_DATA_REQUEST_EP_def USBD1_DATA_AVAILABLE_EP_def USBD1_INTERRUPT_REQUEST_EP_def)

lemma config_chain_ok: "desc_chain 67 (desc_bytes enc vcom_configuration_descriptor_data) = Some config_chain"
proof -
  have "desc_bytes enc vcom_configuration_descriptor_data = concat config_chain"
    by (simp add: config_bytes config_chain_def)
  also have "desc_chain 67 \<dots> = Some config_chain"
    by (rule desc_chain_concat) (simp_all add: config_chain_def)
  finally show ?thesis .
qed

lemma device_bytes:
  "desc_bytes enc vcom_device_descriptor_data =
     [18, 1, 0x10, 1, 2, 0, 0, 0x40, 0x83, 4, 0x40, 0x57, 0, 2, 1, 2, 0, 1]"
  by (simp add: desc_bytes_def vcom_device_descriptor_data_def enc_simps bytes16_def)

lemma utf16_bytes: "desc_bytes enc (utf16 s) = concat (map (\<lambda>c. [c, 0]) (str s))"
  by (induction s) (simp_all add: desc_bytes_def utf16_def str_def enc_byte)

lemma length_utf16_bytes: "length (desc_bytes enc (utf16 s)) = 2 * length s"
  unfolding utf16_bytes by (induction s) (simp_all add: str_def)

lemma string_bytes:
  "desc_bytes enc ([USB_DESC_BYTE n, USB_DESC_BYTE t] @ utf16 s)
     = n # t # concat (map (\<lambda>c. [c, 0]) (str s))"
  using utf16_bytes [of s] by (simp add: desc_bytes_def enc_byte)

lemma string0_bytes: "desc_bytes enc (vcom_string0 t) = [4, t, 9, 4]"
  by (simp add: desc_bytes_def vcom_string0_def enc_simps bytes16_def)

lemma string1_bytes:
  "desc_bytes enc (vcom_string1 t) = 44 # t # concat (map (\<lambda>c. [c, 0]) (str ''www.fabiobaltieri.com''))"
  unfolding vcom_string1_def by (rule string_bytes)

lemma string2_bytes:
  "desc_bytes enc (vcom_string2 t) = 26 # t # concat (map (\<lambda>c. [c, 0]) (str ''nrf-ethernet''))"
  unfolding vcom_string2_def by (rule string_bytes)

lemma length_chars: "length (concat (map (\<lambda>c. [c, 0]) (str s))) = 2 * length s"
  by (induction s) (simp_all add: str_def)

lemma string_lengths:
  assumes "d \<in> set (vcom_strings t)"
  shows "desc_bytes enc d \<noteq> [] \<and> length (desc_bytes enc d) = unat (hd (desc_bytes enc d))
    \<and> desc_bytes enc d ! 1 = t"
proof -
  from assms consider "d = vcom_string0 t" | "d = vcom_string1 t" | "d = vcom_string2 t"
    by (auto simp: vcom_strings_def)
  then show ?thesis
    by cases (simp_all add: string0_bytes string1_bytes string2_bytes length_chars)
qed

end

text \<open>
  C31. The configuration descriptor is well formed: it has the 67 bytes its array is declared with, which is the
  total length it announces; the lengths in the first bytes of its descriptors cut it into exactly
  ten descriptors and nothing is left; it holds as many interfaces as it announces,
  numbered from 0, each followed by the number of endpoints it announces; and the union functional
  descriptor names these two interfaces as master and slave.
\<close>

theorem usb_configuration_well_formed:
  assumes "usb_macros enc"
    and "conf = desc_bytes enc vcom_configuration_descriptor_data"
  shows "length conf = 67 \<and> le16 (conf ! 2) (conf ! 3) = 67
    \<and> desc_chain 67 conf = Some config_chain
    \<and> length (filter (\<lambda>d. d ! 1 = 4) config_chain) = unat (conf ! 4)
    \<and> map (\<lambda>d. d ! 2) (filter (\<lambda>d. d ! 1 = 4) config_chain) = [0, 1]
    \<and> interfaces_ok config_chain
    \<and> map (drop 3) (filter (\<lambda>d. d ! 1 = 0x24 \<and> d ! 2 = 6) config_chain) = [[0, 1]]"
proof -
  have "desc_chain 67 conf = Some config_chain"
    unfolding assms(2) by (rule usb_macros.config_chain_ok [OF assms(1)])
  moreover have "length conf = 67" "le16 (conf ! 2) (conf ! 3) = 67" "conf ! 4 = 2"
    by (simp_all add: assms(2) usb_macros.config_bytes [OF assms(1)] le16_def)
  moreover have "length (filter (\<lambda>d. d ! 1 = 4) config_chain) = 2"
    "map (\<lambda>d. d ! 2) (filter (\<lambda>d. d ! 1 = 4) config_chain) = [0, 1]" "interfaces_ok config_chain"
    "map (drop 3) (filter (\<lambda>d. d ! 1 = 0x24 \<and> d ! 2 = 6) config_chain) = [[0, 1]]"
    by (simp_all add: config_chain_def)
  ultimately show ?thesis
    by simp
qed

theorem usb_configuration_well_formed_witness:
  "length (desc_bytes usb_enc vcom_configuration_descriptor_data) = 67"
  using usb_configuration_well_formed [OF std_macros.usb_macros_axioms refl] by blast

text \<open>
  The strings the device descriptor names exist: each of its string indices is 0 (no string) or gives
  a string descriptor whose announced length is its length, of the string type, and which holds the characters
  of the vendor and product names in UTF-16; from index 3 on there is no descriptor, and the device
  descriptor itself has the 18 bytes of its array and announces them.
\<close>

theorem usb_strings_resolve:
  assumes "usb_macros enc"
    and "dev = desc_bytes enc vcom_device_descriptor_data"
    and "text = (\<lambda>i. map_option (desc_bytes enc) (get_descriptor t USB_DESCRIPTOR_STRING i))"
  shows "length dev = 18 \<and> hd dev = 18
    \<and> text (dev ! 14) = Some (44 # t # concat (map (\<lambda>c. [c, 0]) (str ''www.fabiobaltieri.com'')))
    \<and> text (dev ! 15) = Some (26 # t # concat (map (\<lambda>c. [c, 0]) (str ''nrf-ethernet'')))
    \<and> dev ! 16 = 0
    \<and> (\<forall>i. text i = None \<longleftrightarrow> 3 \<le> i)
    \<and> (\<forall>i d. text i = Some d \<longrightarrow> length d = unat (hd d) \<and> d ! 1 = t)"
proof -
  have "text i = None \<longleftrightarrow> 3 \<le> i" for i
    by (auto simp: assms(3) get_descriptor_def)
  moreover have "length d = unat (hd d) \<and> d ! 1 = t" if "text i = Some d" for i d
  proof -
    from that obtain s where i: "i < 3" and s: "s = vcom_strings t ! unat i" and d: "d = desc_bytes enc s"
      by (auto simp: assms(3) get_descriptor_def split: if_splits)
    have "unat i < length (vcom_strings t)"
      using i by (simp add: vcom_strings_def word_less_nat_alt)
    then have "s \<in> set (vcom_strings t)"
      unfolding s by (rule nth_mem)
    then show ?thesis
      unfolding d using usb_macros.string_lengths [OF assms(1)] by blast
  qed
  ultimately show ?thesis
    by (simp add: assms(2,3) usb_macros.device_bytes [OF assms(1)] get_descriptor_def vcom_strings_def
        usb_macros.string1_bytes [OF assms(1)] usb_macros.string2_bytes [OF assms(1)])
qed

theorem usb_strings_resolve_witness:
  "length (desc_bytes usb_enc vcom_device_descriptor_data) = 18"
  using usb_strings_resolve [OF std_macros.usb_macros_axioms refl refl] by blast

section \<open>Endpoints and requests\<close>

text \<open>Address and packet size of the endpoints announced in descriptors, and of those a log opens.\<close>

definition announced_endpoints :: "bytes list \<Rightarrow> (u8 \<times> u16) list" where
  "announced_endpoints ds = map (\<lambda>d. (d ! 2, le16 (d ! 4) (d ! 5))) (filter (\<lambda>d. d ! 1 = 5) ds)"

fun opened_endpoints :: "usb_call list \<Rightarrow> (u8 \<times> u16) list" where
  "opened_endpoints [] = []"
| "opened_endpoints (Usb_init_endpoint ep c # log) =
     (if ep_in_state c then [(ep OR 0x80, ep_in_maxsize c)] else [])
     @ (if ep_out_state c then [(ep, ep_out_maxsize c)] else []) @ opened_endpoints log"
| "opened_endpoints (c # log) = opened_endpoints log"

text \<open>Endpoints are opened and the serial driver is configured under the system lock only, which is released in the end.\<close>

fun isr_locked :: "bool \<Rightarrow> usb_call list \<Rightarrow> bool" where
  "isr_locked locked [] \<longleftrightarrow> \<not> locked"
| "isr_locked locked (Lock_from_isr # log) \<longleftrightarrow> \<not> locked \<and> isr_locked True log"
| "isr_locked locked (Unlock_from_isr # log) \<longleftrightarrow> locked \<and> isr_locked False log"
| "isr_locked locked (Usb_init_endpoint ep c # log) \<longleftrightarrow> locked \<and> isr_locked locked log"
| "isr_locked locked (Sdu_configure_hook # log) \<longleftrightarrow> locked \<and> isr_locked locked log"
| "isr_locked locked (c # log) \<longleftrightarrow> isr_locked locked log"

lemma opened_append: "opened_endpoints (xs @ ys) = opened_endpoints xs @ opened_endpoints ys"
  by (induction xs rule: opened_endpoints.induct) simp_all

lemma isr_locked_append: "isr_locked l xs \<Longrightarrow> isr_locked False ys \<Longrightarrow> isr_locked l (xs @ ys)"
  by (induction l xs rule: isr_locked.induct) auto

lemma events_opened:
  "opened_endpoints (fold usb_dev_event evs log) = opened_endpoints log
     @ concat (replicate (count_list evs USB_EVENT_CONFIGURED) [(0x81, 0x40), (1, 0x40), (0x82, 0x10)])"
proof (induction evs arbitrary: log)
  case (Cons e evs)
  have "opened_endpoints (usb_dev_event e log) = opened_endpoints log
      @ (if e = USB_EVENT_CONFIGURED then [(0x81, 0x40), (1, 0x40), (0x82, 0x10)] else [])"
    by (cases e) (simp_all add: usb_dev_event_def opened_append ep1_config_def ep2_config_def
        USBD1_DATA_REQUEST_EP_def USBD1_INTERRUPT_REQUEST_EP_def)
  then show ?case by (simp add: Cons.IH)
qed simp

lemma events_locked: "isr_locked False log \<Longrightarrow> isr_locked False (fold usb_dev_event evs log)"
proof (induction evs arbitrary: log)
  case (Cons e evs)
  have "isr_locked False (usb_dev_event e log)"
    using Cons.prems by (cases e) (simp_all add: usb_dev_event_def isr_locked_append)
  then show ?case by (simp add: Cons.IH)
qed simp

lemma concat_replicate_set: "set (concat (replicate n xs)) = (if n = 0 then {} else set xs)"
  by (induction n) auto

text \<open>
  C32. The endpoints that the device opens are those it announces: let \<open>ds\<close> be the descriptors that a host cuts out of the
  configuration descriptor it is given. Whatever events follow, each time the host configures the device, and
  at no other event, as many endpoints are opened as \<open>ds\<close> announces, with just these addresses, under the
  system lock. Those of the bulk endpoints have the packet size announced, but the interrupt endpoint
  is opened with 16 bytes where its descriptor announces 8.
\<close>

theorem usb_endpoints_opened:
  assumes "usb_macros enc"
    and "map_option (desc_bytes enc) (get_descriptor t USB_DESCRIPTOR_CONFIGURATION i) = Some conf"
  shows "\<exists>ds. desc_chain (length conf) conf = Some ds
    \<and> (let log = fold usb_dev_event evs []; n = count_list evs USB_EVENT_CONFIGURED in
         length (opened_endpoints log) = n * length (announced_endpoints ds)
       \<and> fst ` set (opened_endpoints log) = (if n = 0 then {} else fst ` set (announced_endpoints ds))
       \<and> set (opened_endpoints log) - set (announced_endpoints ds) = (if n = 0 then {} else {(0x82, 0x10)})
       \<and> (0 < n \<longrightarrow> set (announced_endpoints ds) - set (opened_endpoints log) = {(0x82, 8)})
       \<and> isr_locked False log)"
proof -
  let ?log = "fold usb_dev_event evs []" and ?n = "count_list evs USB_EVENT_CONFIGURED"
  have conf: "conf = desc_bytes enc vcom_configuration_descriptor_data"
    using assms(2) by (simp add: get_descriptor_def)
  have "length conf = 67" by (simp add: conf usb_macros.config_bytes [OF assms(1)])
  then have chain: "desc_chain (length conf) conf = Some config_chain"
    using usb_macros.config_chain_ok [OF assms(1)] by (simp add: conf)
  have announced: "announced_endpoints config_chain = [(0x82, 8), (1, 0x40), (0x81, 0x40)]"
    by (simp add: announced_endpoints_def config_chain_def le16_def)
  have opened: "opened_endpoints ?log = concat (replicate ?n [(0x81, 0x40), (1, 0x40), (0x82, 0x10)])"
    using events_opened [of evs "[]"] by simp
  have "length (opened_endpoints ?log) = ?n * length (announced_endpoints config_chain)"
    by (simp add: opened announced length_concat sum_list_replicate)
  moreover have "set (opened_endpoints ?log) = (if ?n = 0 then {} else {(0x81, 0x40), (1, 0x40), (0x82, 0x10)})"
    by (simp only: opened concat_replicate_set list.set)
  then have "fst ` set (opened_endpoints ?log) = (if ?n = 0 then {} else fst ` set (announced_endpoints config_chain))"
    "set (opened_endpoints ?log) - set (announced_endpoints config_chain) = (if ?n = 0 then {} else {(0x82, 0x10)})"
    "0 < ?n \<longrightarrow> set (announced_endpoints config_chain) - set (opened_endpoints ?log) = {(0x82, 8)}"
    by (auto simp: announced split: if_splits)
  moreover have "isr_locked False ?log" by (rule events_locked) simp
  ultimately show ?thesis
    unfolding Let_def by (intro exI [of _ config_chain] conjI chain)
qed

theorem usb_endpoints_opened_witness:
  "opened_endpoints (fold usb_dev_event [USB_EVENT_RESET, USB_EVENT_CONFIGURED] []) \<noteq> []
   \<and> isr_locked False (fold usb_dev_event [USB_EVENT_RESET, USB_EVENT_CONFIGURED] [])"
proof -
  let ?log = "fold usb_dev_event [USB_EVENT_RESET, USB_EVENT_CONFIGURED] []"
  have n: "count_list [USB_EVENT_RESET, USB_EVENT_CONFIGURED] USB_EVENT_CONFIGURED = 1" by simp
  have conf: "map_option (desc_bytes usb_enc) (get_descriptor 3 USB_DESCRIPTOR_CONFIGURATION 0)
      = Some (desc_bytes usb_enc vcom_configuration_descriptor_data)"
    by (simp add: get_descriptor_def)
  obtain ds where ds: "set (opened_endpoints ?log) - set (announced_endpoints ds) = {(0x82, 0x10)}" "isr_locked False ?log"
    using usb_endpoints_opened [OF std_macros.usb_macros_axioms conf, of "[USB_EVENT_RESET, USB_EVENT_CONFIGURED]"]
    unfolding Let_def n by (elim exE conjE) (simp only: one_neq_zero if_False)
  then have "(0x82, 0x10) \<in> set (opened_endpoints ?log)" by blast
  then have "opened_endpoints ?log \<noteq> []" by (metis empty_iff list.set(1))
  with ds(2) show ?thesis by blast
qed

text \<open>The setup packet of a request, as it arrives on the bus.\<close>

definition setup_of_request :: "usb_request \<Rightarrow> bytes" where
  "setup_of_request rq = [rq_bmRequestType rq, rq_bRequest rq] @ bytes16 (rq_wValue rq)
     @ bytes16 (rq_wIndex rq) @ bytes16 (rq_wLength rq)"

lemma request_of_setup_of_request: "request_of_setup (setup_of_request rq) = rq"
  by (cases rq) (simp add: request_of_setup_def setup_of_request_def bytes16_def)

text \<open>
  A control request resets the board exactly when its type is vendor and its index is 0, whatever
  its other fields: then the reset key and bit are written once and the request is
  accepted. Any other vendor request is refused, and every other request goes to the serial driver unchanged.
\<close>

theorem usb_reset_request:
  "request_hook tmask vendor pos rst sdu (setup_of_request rq) log =
     (if rq_bmRequestType rq AND tmask = vendor
      then (rq_wIndex rq = 0,
            log @ (if rq_wIndex rq = 0 then [Write_AIRCR (push_bit pos 0x5FA OR rst)] else []))
      else (sdu (setup_of_request rq), log))"
  by (simp add: request_hook_def Let_def request_of_setup_of_request)

end
