(* ===== verification/Blink.thy ===== *)
theory Blink
  imports Prelude
begin

text \<open>
  The LED threads of \<^verbatim>\<open>firmware/blink.c\<close>. Each LED has a thread that waits for events and
  flashes; \<open>blink\<close> signals it. ChibiOS event flags accumulate in a mask until the thread
  waits, and \<open>chEvtWaitAny(ALL_EVENTS)\<close> returns the whole mask and clears it. The pins
  and the sleeps are logged.
\<close>

section \<open>State and operations\<close>

definition BLINK_COUNT :: nat where
  "BLINK_COUNT = 3"

definition BLINK_EV_POS :: u32 where
  "BLINK_EV_POS = push_bit 0 1"

definition BLINK_EV_NEG :: u32 where
  "BLINK_EV_NEG = push_bit 1 1"

datatype led_id = BLINK_RED | BLINK_GREEN | BLINK_RF

text \<open>The value of an enumerator.\<close>

fun led_num :: "led_id \<Rightarrow> nat" where
  "led_num BLINK_RED = 0"
| "led_num BLINK_GREEN = 1"
| "led_num BLINK_RF = 2"

datatype led_call = Led_red bool | Led_green bool | Led_rf bool | Led_sleep nat

definition BLINK_DELTA :: nat where
  "BLINK_DELTA = 50"

record blink_entry =
  be_id :: led_id
  be_name :: string
  be_th :: bool
  be_pending :: u32

text \<open>\<open>be_th\<close>: the thread has been created. \<open>be_pending\<close> is its event mask.\<close>

definition blinks :: "blink_entry list" where
  "blinks = [\<lparr>be_id = BLINK_RED, be_name = ''blink_red'', be_th = False, be_pending = 0\<rparr>,
             \<lparr>be_id = BLINK_GREEN, be_name = ''blink_green'', be_th = False, be_pending = 0\<rparr>,
             \<lparr>be_id = BLINK_RF, be_name = ''blink_rf'', be_th = False, be_pending = 0\<rparr>]"

definition led_set :: "led_id \<Rightarrow> bool \<Rightarrow> led_call list \<Rightarrow> led_call list" where
  "led_set led on log =
     (case led of
        BLINK_RED \<Rightarrow> log @ [if on then Led_red True else Led_red False]
      | BLINK_GREEN \<Rightarrow> log @ [if on then Led_green True else Led_green False]
      | BLINK_RF \<Rightarrow> log @ [if on then Led_rf True else Led_rf False])"

text \<open>The body of the loop of \<open>blinker\<close> up to the wait; \<open>evt\<close> is the event it was woken with.\<close>

definition blinker_flash :: "led_id \<Rightarrow> u32 \<Rightarrow> led_call list \<Rightarrow> led_call list" where
  "blinker_flash led evt log =
     (let log = led_set led (if evt = BLINK_EV_POS then True else False) log;
          log = log @ [Led_sleep BLINK_DELTA];
          log = led_set led (if evt = BLINK_EV_POS then False else True) log
      in log @ [Led_sleep BLINK_DELTA])"

text \<open>The whole thread: the first pass uses the initial event 1.\<close>

definition blinker :: "led_id \<Rightarrow> u32 list \<Rightarrow> led_call list \<Rightarrow> led_call list" where
  "blinker led evts log = fold (blinker_flash led) (1 # evts) log"

text \<open>\<open>blink(led, invert)\<close>; \<open>led\<close> is the number of the LED, out of range ignored.\<close>

definition blink :: "nat \<Rightarrow> bool \<Rightarrow> blink_entry list \<Rightarrow> blink_entry list" where
  "blink led invert bs =
     (if led \<ge> BLINK_COUNT then bs
      else bs[led := (bs ! led)\<lparr>be_pending :=
             be_pending (bs ! led) OR (if invert then BLINK_EV_NEG else BLINK_EV_POS)\<rparr>])"

text \<open>A thread that waits with events pending: it takes the mask and flashes.\<close>

definition blinker_wake :: "nat \<Rightarrow> blink_entry list \<times> led_call list \<Rightarrow> blink_entry list \<times> led_call list" where
  "blinker_wake i = (\<lambda>(bs, log).
     if be_pending (bs ! i) = 0 then (bs, log)
     else (bs[i := (bs ! i)\<lparr>be_pending := 0\<rparr>], blinker_flash (be_id (bs ! i)) (be_pending (bs ! i)) log))"

text \<open>\<open>blink_init\<close> creates the threads one by one.\<close>

fun blink_init_loop :: "blink_entry list \<Rightarrow> nat \<Rightarrow> blink_entry list" where
  "blink_init_loop bs 0 = bs"
| "blink_init_loop bs (Suc i) = (blink_init_loop bs i)[i := (blink_init_loop bs i ! i)\<lparr>be_th := True\<rparr>]"

definition blink_init :: "blink_entry list \<Rightarrow> blink_entry list" where
  "blink_init bs = blink_init_loop bs BLINK_COUNT"

lemma blink_init_all: "length bs = BLINK_COUNT \<Longrightarrow> blink_init bs = map (\<lambda>b. b\<lparr>be_th := True\<rparr>) bs"
  unfolding blink_init_def by (subst nth_loop_eq_map [of blink_init_loop "\<lambda>b. b\<lparr>be_th := True\<rparr>"]) auto

section \<open>The state of a LED\<close>

fun led_of :: "led_call \<Rightarrow> (led_id \<times> bool) option" where
  "led_of (Led_red b) = Some (BLINK_RED, b)"
| "led_of (Led_green b) = Some (BLINK_GREEN, b)"
| "led_of (Led_rf b) = Some (BLINK_RF, b)"
| "led_of (Led_sleep n) = None"

definition led_step :: "led_call \<Rightarrow> (led_id \<Rightarrow> bool) \<Rightarrow> led_id \<Rightarrow> bool" where
  "led_step e leds = (case led_of e of None \<Rightarrow> leds | Some (led, b) \<Rightarrow> leds(led := b))"

definition leds_after :: "led_call list \<Rightarrow> (led_id \<Rightarrow> bool) \<Rightarrow> led_id \<Rightarrow> bool" where
  "leds_after log leds = fold led_step log leds"

definition led_time :: "led_call list \<Rightarrow> nat" where
  "led_time log = sum_list (map (\<lambda>e. case e of Led_sleep n \<Rightarrow> n | _ \<Rightarrow> 0) log)"

lemma led_set_state:
  "leds_after (led_set led on log) leds = (leds_after log leds)(led := on)"
  by (cases led) (simp_all add: led_set_def leds_after_def led_step_def)

lemma leds_sleep [simp]: "leds_after (log @ [Led_sleep n]) leds = leds_after log leds"
  by (simp add: leds_after_def led_step_def)

lemma led_set_time [simp]: "led_time (led_set led on log) = led_time log"
  by (cases led) (simp_all add: led_set_def led_time_def)

lemma led_time_sleep [simp]: "led_time (log @ [Led_sleep n]) = led_time log + n"
  by (simp add: led_time_def)

lemma flash_state:
  "leds_after (blinker_flash led evt log) leds = (leds_after log leds)(led := (evt \<noteq> BLINK_EV_POS))"
  by (simp add: blinker_flash_def Let_def led_set_state)

lemma flash_time: "led_time (blinker_flash led evt log) = led_time log + 2 * BLINK_DELTA"
  by (simp add: blinker_flash_def Let_def)

text \<open>
  What a flash does: the thread leaves every other LED alone; its own LED
  is on during the first half and off at the end for a positive event, off and then on
  for any other mask, so both requests together count as a negative one; it takes twice 50
  ms, so that with \<open>n\<close> wake-ups the thread has been busy for \<open>100 (n + 1)\<close> ms.
\<close>

theorem blinker_flashes:
  "leds_after (blinker led evts log) leds = (leds_after log leds)(led := (last (1 # evts) \<noteq> BLINK_EV_POS))
   \<and> led_time (blinker led evts log) = led_time log + 100 * (length evts + 1)
   \<and> leds_after (led_set led (evt = BLINK_EV_POS) log) leds led = (evt = BLINK_EV_POS)"
proof -
  have "leds_after (fold (blinker_flash led) es log) leds =
      (if es = [] then leds_after log leds else (leds_after log leds)(led := (last es \<noteq> BLINK_EV_POS)))
    \<and> led_time (fold (blinker_flash led) es log) = led_time log + 100 * length es" for es
  proof (induction es arbitrary: log)
    case (Cons e es)
    show ?case
      using Cons.IH [of "blinker_flash led e log"]
      by (simp add: flash_state flash_time BLINK_DELTA_def) (auto simp: fun_eq_iff)
  qed simp
  from this [of "1 # evts"] show ?thesis by (simp add: blinker_def led_set_state)
qed

text \<open>Several requests for one LED before its thread runs.\<close>

definition requests :: "bool list \<Rightarrow> nat \<Rightarrow> blink_entry list \<Rightarrow> blink_entry list" where
  "requests invs i bs = fold (\<lambda>inv. blink i inv) invs bs"

lemma blink_bits:
  "BLINK_EV_POS = 1" "BLINK_EV_NEG = 2"
  by (simp_all add: BLINK_EV_POS_def BLINK_EV_NEG_def)

lemma requests_mask:
  assumes "i < length bs" "length bs = BLINK_COUNT"
  shows "requests invs i bs = bs[i := (bs ! i)\<lparr>be_pending := be_pending (bs ! i)
      OR ((if False \<in> set invs then 1 else 0) OR (if True \<in> set invs then 2 else 0))\<rparr>]"
  using assms
proof (induction invs arbitrary: bs)
  case Nil
  then show ?case by (simp add: requests_def)
next
  case (Cons inv invs)
  let ?bs = "blink i inv bs"
  let ?m = "(if False \<in> set invs then 1 else 0) OR (if True \<in> set invs then 2 else 0) :: u32"
  have r: "requests (inv # invs) i bs = requests invs i ?bs" by (simp add: requests_def)
  have b: "?bs = bs[i := (bs ! i)\<lparr>be_pending := be_pending (bs ! i) OR (if inv then 2 else 1)\<rparr>]"
    using Cons.prems by (simp add: blink_def blink_bits)
  have m: "(if inv then 2 else 1) OR ?m =
      (if False \<in> set (inv # invs) then 1 else 0) OR (if True \<in> set (inv # invs) then 2 else 0)"
    by (cases inv) auto
  show ?case
    unfolding r m [symmetric] using Cons.IH [of ?bs] Cons.prems by (simp add: b or.assoc)
qed

text \<open>
  Signalling and waking: requests for a LED are added to its own mask only, repeated
  requests before the thread runs merge into one flash, and when the thread has flashed
  nothing is pending and the LED is off if only positive requests had been made, on
  otherwise.
\<close>

theorem blink_requests_merge:
  assumes "i < 3" and "length bs = 3" and "be_pending (bs ! i) = 0" and "invs \<noteq> []"
  shows "let (bs', log') = blinker_wake i (requests invs i bs, log)
    in be_pending (bs' ! i) = 0 \<and> (\<forall>j<3. j \<noteq> i \<longrightarrow> bs' ! j = bs ! j)
     \<and> leds_after log' leds (be_id (bs ! i)) = (True \<in> set invs)
     \<and> led_time log' = led_time log + 100"
proof -
  let ?m = "(if False \<in> set invs then 1 else 0) OR (if True \<in> set invs then 2 else 0) :: u32"
  have "False \<in> set invs \<or> True \<in> set invs" using assms(4) by (cases invs; cases "hd invs") auto
  then have m: "?m \<noteq> 0" "?m = 1 \<longleftrightarrow> True \<notin> set invs" by auto
  have r: "requests invs i bs = bs[i := (bs ! i)\<lparr>be_pending := ?m\<rparr>]"
    using requests_mask [of i bs invs] assms by (simp add: BLINK_COUNT_def)
  show ?thesis
    using assms m by (simp add: r blinker_wake_def flash_state flash_time blink_bits BLINK_DELTA_def)
qed

theorem blink_requests_merge_witness:
  "leds_after (snd (blinker_wake 2 (requests [False, False] 2 blinks, []))) (\<lambda>l. False) BLINK_RF = False"
  using blink_requests_merge [of 2 blinks "[False, False]" "[]" "\<lambda>l. False"]
  by (simp add: blinks_def Let_def split_beta)

end
