(* ===== verification/Main_Init.thy ===== *)
theory Main_Init
  imports Board Blink
begin

text \<open>
  The start of the firmware, \<^verbatim>\<open>firmware/main.c\<close>: the sequence of initialisations with the threads and
  interrupts each one starts, the greeting \<open>hello\<close>, and the heartbeat thread. An object must be
  initialised before a started thread uses it. \<open>calls\<close> is the call graph of the threads and interrupt handlers,
  \<open>boot_rel\<close> the interleavings of \<open>main\<close> with everything it has started, and \<open>exposed\<close> computes from
  a sequence what some interleaving can use too early.
\<close>

section \<open>The greeting\<close>

text \<open>The loop of \<open>hello\<close>: the output latches and the milliseconds slept.\<close>

fun hello_loop :: "nat \<Rightarrow> latch \<times> nat \<Rightarrow> latch \<times> nat" where
  "hello_loop 0 st = st"
| "hello_loop (Suc i) st =
     (let (odr, ms) = hello_loop i st;
          odr = led_red_toggle odr;
          odr = led_green_toggle odr
      in (odr, ms + 50))"

definition hello :: "latch \<times> nat \<Rightarrow> latch \<times> nat" where
  "hello st = hello_loop 8 st"

section \<open>The heartbeat\<close>

datatype hb_op = Hb_blink led_id bool | Hb_sleep nat

definition heartbeat_body :: "hb_op list" where
  "heartbeat_body = [Hb_blink BLINK_GREEN True, Hb_sleep 200, Hb_blink BLINK_GREEN True, Hb_sleep 1500]"

text \<open>
  While the thread sleeps the LED thread takes what is pending and flashes; \<open>None\<close> if it has not finished when the
  sleep ends.
\<close>

fun hb_step :: "hb_op \<Rightarrow> blink_entry list \<times> led_call list \<Rightarrow> (blink_entry list \<times> led_call list) option" where
  "hb_step (Hb_blink led neg) (bs, log) = Some (blink (led_num led) neg bs, log)"
| "hb_step (Hb_sleep n) (bs, log) =
     (let (bs', log') = blinker_wake (led_num BLINK_GREEN) (bs, log)
      in if led_time log' \<le> led_time log + n then Some (bs', log') else None)"

fun hb_run :: "hb_op list \<Rightarrow> blink_entry list \<times> led_call list \<Rightarrow> (blink_entry list \<times> led_call list) option" where
  "hb_run [] st = Some st"
| "hb_run (op # ops) st = Option.bind (hb_step op st) (hb_run ops)"

definition heartbeat :: "nat \<Rightarrow> blink_entry list \<times> led_call list \<Rightarrow> (blink_entry list \<times> led_call list) option" where
  "heartbeat n st = hb_run (concat (replicate n heartbeat_body)) st"

section \<open>The sequence of initialisations\<close>

text \<open>
  What \<open>main\<close> and the functions it calls prepare: the thread pointers of \<^verbatim>\<open>blinks\<close>, \<^verbatim>\<open>SDU1\<close>, the mailboxes of
  \<^verbatim>\<open>nrf\<close>, \<^verbatim>\<open>SPID3\<close>, \<^verbatim>\<open>nrf.th\<close>, \<^verbatim>\<open>data_mutex\<close>, the lwIP stack, \<^verbatim>\<open>rawd_mutex\<close> and \<^verbatim>\<open>rawd_push_th\<close>.
\<close>

datatype boot_object =
    Blink_threads | Usb_serial | Mailboxes | Spi_driver | Radio_thread | Data_mutex | Lwip_stack
  | Rawd_mutex | Rawd_push_thread

text \<open>
  The functions that use one of these or call one that does. \<open>Fn_spi\<close> stands for the register and payload
  commands of \<^verbatim>\<open>nrf24l01p.c\<close>, each a transfer on \<^verbatim>\<open>SPID3\<close>.
\<close>

datatype boot_fn =
    Fn_blinker | Fn_blink | Fn_heartbeat
  | Fn_usb_event | Fn_shell | Fn_cmd_data_dump | Fn_cmd_net
  | Fn_spi | Fn_nrf_recv | Fn_nrf_send | Fn_nrf_irq | Fn_nrf_check_tx | Fn_nrf_radio | Fn_nrf_kick_loop | Fn_nrf_ext_irq
  | Fn_data_json | Fn_data_dump | Fn_update_table | Fn_data_rx | Fn_data_clean
  | Fn_lwip_thread
  | Fn_net_put | Fn_net_finalize | Fn_path_root | Fn_path_notfound | Fn_path_raw | Fn_path_sendraw | Fn_path_json | Fn_httpd_process | Fn_httpd_loop
  | Fn_rawd_push_loop | Fn_rawd_push | Fn_rawd_new | Fn_rawd_loop

datatype boot_ref = Obj boot_object | Fn boot_fn

text \<open>
  What each function uses and calls, in the order of its body, file by file. The shell runs the commands of \<^verbatim>\<open>console.c\<close> on its
  channel; \<^verbatim>\<open>lwip_thread\<close> is not part of the repository.
\<close>

definition blink_fn_calls :: "(boot_fn \<times> boot_ref list) list" where
  "blink_fn_calls =
    [(Fn_blinker, []),
     (Fn_blink, [Obj Blink_threads])]"

definition main_fn_calls :: "(boot_fn \<times> boot_ref list) list" where
  "main_fn_calls =
    [(Fn_heartbeat, [Fn Fn_blink, Fn Fn_blink]),
     (Fn_nrf_ext_irq, [Fn Fn_nrf_kick_loop])]"

definition usb_fn_calls :: "(boot_fn \<times> boot_ref list) list" where
  "usb_fn_calls =
    [(Fn_usb_event, [Obj Usb_serial])]"

definition console_fn_calls :: "(boot_fn \<times> boot_ref list) list" where
  "console_fn_calls =
    [(Fn_cmd_data_dump, [Fn Fn_data_dump]),
     (Fn_cmd_net, [Obj Lwip_stack]),
     (Fn_shell, [Obj Usb_serial, Fn Fn_cmd_data_dump, Fn Fn_cmd_net])]"

definition nrf_fn_calls :: "(boot_fn \<times> boot_ref list) list" where
  "nrf_fn_calls =
    [(Fn_spi, [Obj Spi_driver]),
     (Fn_nrf_recv, [Obj Mailboxes]),
     (Fn_nrf_send, [Obj Mailboxes, Fn Fn_nrf_kick_loop]),
     (Fn_nrf_irq, [Fn Fn_spi, Fn Fn_blink, Obj Mailboxes, Fn Fn_spi, Obj Mailboxes, Fn Fn_blink, Obj Mailboxes, Fn Fn_spi]),
     (Fn_nrf_check_tx, [Obj Mailboxes, Fn Fn_spi, Obj Mailboxes, Fn Fn_spi]),
     (Fn_nrf_radio, [Fn Fn_spi, Fn Fn_nrf_irq, Fn Fn_nrf_check_tx]),
     (Fn_nrf_kick_loop, [Obj Radio_thread])]"

definition data_fn_calls :: "(boot_fn \<times> boot_ref list) list" where
  "data_fn_calls =
    [(Fn_data_json, [Obj Data_mutex]),
     (Fn_data_dump, [Obj Data_mutex]),
     (Fn_update_table, [Obj Data_mutex]),
     (Fn_data_rx, [Fn Fn_nrf_recv, Fn Fn_update_table, Fn Fn_rawd_push]),
     (Fn_data_clean, [Obj Data_mutex])]"

definition httpd_fn_calls :: "(boot_fn \<times> boot_ref list) list" where
  "httpd_fn_calls =
    [(Fn_net_put, [Obj Lwip_stack]),
     (Fn_net_finalize, [Obj Lwip_stack]),
     (Fn_path_root, [Fn Fn_net_put]),
     (Fn_path_notfound, [Fn Fn_net_put]),
     (Fn_path_raw, [Fn Fn_net_put, Fn Fn_data_dump]),
     (Fn_path_sendraw, [Fn Fn_net_put, Fn Fn_nrf_send, Fn Fn_net_put]),
     (Fn_path_json, [Fn Fn_net_put, Fn Fn_data_json]),
     (Fn_httpd_process, [Obj Lwip_stack, Fn Fn_blink, Fn Fn_path_root, Fn Fn_path_raw, Fn Fn_path_json, Fn Fn_path_sendraw,
       Fn Fn_path_notfound, Fn Fn_net_finalize, Obj Lwip_stack]),
     (Fn_httpd_loop, [Obj Lwip_stack, Fn Fn_httpd_process, Obj Lwip_stack])]"

definition rawd_fn_calls :: "(boot_fn \<times> boot_ref list) list" where
  "rawd_fn_calls =
    [(Fn_rawd_push_loop, [Obj Rawd_mutex, Obj Lwip_stack, Obj Rawd_mutex]),
     (Fn_rawd_push, [Obj Rawd_mutex, Obj Rawd_mutex, Obj Rawd_push_thread]),
     (Fn_rawd_new, [Obj Rawd_mutex, Obj Lwip_stack, Obj Rawd_mutex, Obj Lwip_stack]),
     (Fn_rawd_loop, [Obj Lwip_stack, Fn Fn_rawd_new])]"

definition calls :: "boot_fn \<Rightarrow> boot_ref list" where
  "calls f =
     (case map_of (blink_fn_calls @ main_fn_calls @ usb_fn_calls @ console_fn_calls @ nrf_fn_calls @ data_fn_calls
         @ httpd_fn_calls @ rawd_fn_calls) f of
        Some rs \<Rightarrow> rs
      | None \<Rightarrow> [])"

inductive touches :: "boot_fn \<Rightarrow> boot_object \<Rightarrow> bool" where
  own: "Obj ob \<in> set (calls f) \<Longrightarrow> touches f ob"
| call: "Fn g \<in> set (calls f) \<Longrightarrow> touches g ob \<Longrightarrow> touches f ob"

text \<open>
  Priorities; \<open>main\<close> has \<^verbatim>\<open>NORMALPRIO\<close>. \<open>Call\<close> is a call into the kernel or a driver that prepares none of these objects.
\<close>

datatype boot_prio = Lowprio nat | Normalprio nat | Interrupt

fun above_main :: "boot_prio \<Rightarrow> bool" where
  "above_main (Lowprio n) \<longleftrightarrow> False"
| "above_main (Normalprio n) \<longleftrightarrow> 0 < n"
| "above_main Interrupt \<longleftrightarrow> True"

datatype boot_step = Init boot_object | Start boot_fn boot_prio | Pause nat | Pins "latch \<Rightarrow> latch" | Call string

text \<open>The three LED threads count as one.\<close>

definition blink_init_steps :: "boot_step list" where
  "blink_init_steps = [Start Fn_blinker (Lowprio 0), Init Blink_threads]"

definition usb_init_steps :: "boot_step list" where
  "usb_init_steps =
     [Call ''sduObjectInit'', Init Usb_serial, Call ''usbDisconnectBus'', Pause 100,
      Start Fn_usb_event Interrupt, Call ''usbConnectBus'']"

definition nrf_init_steps :: "boot_step list" where
  "nrf_init_steps = [Init Mailboxes, Init Spi_driver, Start Fn_nrf_radio (Normalprio 1), Init Radio_thread]"

definition ext_start_steps :: "boot_step list" where
  "ext_start_steps = [Start Fn_nrf_ext_irq Interrupt]"

definition data_init_steps :: "boot_step list" where
  "data_init_steps = [Init Data_mutex, Start Fn_data_rx (Normalprio 0), Start Fn_data_clean (Normalprio 0)]"

definition hello_steps :: "boot_step list" where
  "hello_steps = concat (replicate 8 [Pins led_red_toggle, Pins led_green_toggle, Pause 50])"

definition httpd_init_steps :: "boot_step list" where
  "httpd_init_steps = [Start Fn_httpd_loop (Lowprio 2)]"

definition rawd_init_steps :: "boot_step list" where
  "rawd_init_steps =
     [Init Rawd_mutex, Start Fn_rawd_loop (Lowprio 2), Start Fn_rawd_push_loop (Lowprio 2), Init Rawd_push_thread]"

definition console_poll_steps :: "boot_step list" where
  "console_poll_steps = [Start Fn_shell (Normalprio 0), Pause 500]"

text \<open>\<open>main\<close> with the first turn of its endless loop.\<close>

definition main_steps :: "boot_step list" where
  "main_steps = [Call ''halInit'', Call ''chSysInit'', Pins eth_reset_h] @ blink_init_steps @ usb_init_steps
     @ [Call ''console_init''] @ nrf_init_steps @ ext_start_steps @ data_init_steps
     @ hello_steps @ [Pins led_green_on, Call ''sdStart'', Start Fn_heartbeat (Lowprio 0), Start Fn_lwip_thread (Normalprio 1)]
     @ httpd_init_steps @ rawd_init_steps @ console_poll_steps"

text \<open>The same with \<open>data_init\<close> moved down between \<open>rawd_init\<close> and \<open>httpd_init\<close>, which change places.\<close>

definition reordered_steps :: "boot_step list" where
  "reordered_steps = [Call ''halInit'', Call ''chSysInit'', Pins eth_reset_h] @ blink_init_steps @ usb_init_steps
     @ [Call ''console_init''] @ nrf_init_steps @ ext_start_steps
     @ hello_steps @ [Pins led_green_on, Call ''sdStart'', Start Fn_heartbeat (Lowprio 0), Start Fn_lwip_thread (Normalprio 1)]
     @ rawd_init_steps @ data_init_steps @ httpd_init_steps @ console_poll_steps"

lemmas boot_steps_defs = blink_init_steps_def usb_init_steps_def nrf_init_steps_def ext_start_steps_def
  data_init_steps_def httpd_init_steps_def rawd_init_steps_def console_poll_steps_def

section \<open>Interleavings\<close>

text \<open>
  \<open>bs_early\<close> logs the uses of objects not yet prepared. \<open>lwip\<close> is what \<^verbatim>\<open>lwip_thread\<close> prepares when it first runs: at
  once if it preempts \<open>main\<close>, at any later moment otherwise.
\<close>

record boot_st =
  bs_steps :: "boot_step list"
  bs_running :: "boot_fn list"
  bs_ready :: "boot_object list"
  bs_early :: "(boot_fn \<times> boot_object) list"

fun boot_main :: "boot_object list \<Rightarrow> boot_step \<Rightarrow> boot_st \<Rightarrow> boot_st" where
  "boot_main lwip (Init ob) y = y\<lparr>bs_ready := ob # bs_ready y\<rparr>"
| "boot_main lwip (Start f p) y =
     y\<lparr>bs_running := f # bs_running y,
       bs_ready := (if f = Fn_lwip_thread \<and> above_main p then lwip @ bs_ready y else bs_ready y)\<rparr>"
| "boot_main lwip (Pause n) y = y"
| "boot_main lwip (Pins f) y = y"
| "boot_main lwip (Call c) y = y"

inductive boot_rel :: "boot_object list \<Rightarrow> boot_st \<Rightarrow> boot_st \<Rightarrow> bool"
  for lwip where
  main_goes_on: "bs_steps y = op # ops \<Longrightarrow> boot_rel lwip y ((boot_main lwip op y)\<lparr>bs_steps := ops\<rparr>)"
| uses: "f \<in> set (bs_running y) \<Longrightarrow> touches f ob \<Longrightarrow>
     boot_rel lwip y (if ob \<in> set (bs_ready y) then y else y\<lparr>bs_early := bs_early y @ [(f, ob)]\<rparr>)"
| lwip_runs: "Fn_lwip_thread \<in> set (bs_running y) \<Longrightarrow> boot_rel lwip y (y\<lparr>bs_ready := lwip @ bs_ready y\<rparr>)"

inductive boot_reach :: "boot_object list \<Rightarrow> boot_st \<Rightarrow> boot_st \<Rightarrow> bool"
  for lwip y0 where
  start: "boot_reach lwip y0 y0"
| step: "boot_reach lwip y0 y \<Longrightarrow> boot_rel lwip y z \<Longrightarrow> boot_reach lwip y0 z"

definition boot_start :: "boot_step list \<Rightarrow> boot_st" where
  "boot_start steps = \<lparr>bs_steps = steps, bs_running = [], bs_ready = [], bs_early = []\<rparr>"

section \<open>What is exposed\<close>

lemma calls_simps [simp]:
  "calls Fn_blinker = []"
  "calls Fn_blink = [Obj Blink_threads]"
  "calls Fn_heartbeat = [Fn Fn_blink, Fn Fn_blink]"
  "calls Fn_usb_event = [Obj Usb_serial]"
  "calls Fn_cmd_data_dump = [Fn Fn_data_dump]"
  "calls Fn_cmd_net = [Obj Lwip_stack]"
  "calls Fn_shell = [Obj Usb_serial, Fn Fn_cmd_data_dump, Fn Fn_cmd_net]"
  "calls Fn_spi = [Obj Spi_driver]"
  "calls Fn_nrf_recv = [Obj Mailboxes]"
  "calls Fn_nrf_send = [Obj Mailboxes, Fn Fn_nrf_kick_loop]"
  "calls Fn_nrf_irq = [Fn Fn_spi, Fn Fn_blink, Obj Mailboxes, Fn Fn_spi, Obj Mailboxes, Fn Fn_blink, Obj Mailboxes, Fn Fn_spi]"
  "calls Fn_nrf_check_tx = [Obj Mailboxes, Fn Fn_spi, Obj Mailboxes, Fn Fn_spi]"
  "calls Fn_nrf_radio = [Fn Fn_spi, Fn Fn_nrf_irq, Fn Fn_nrf_check_tx]"
  "calls Fn_nrf_kick_loop = [Obj Radio_thread]"
  "calls Fn_nrf_ext_irq = [Fn Fn_nrf_kick_loop]"
  "calls Fn_data_json = [Obj Data_mutex]"
  "calls Fn_data_dump = [Obj Data_mutex]"
  "calls Fn_update_table = [Obj Data_mutex]"
  "calls Fn_data_rx = [Fn Fn_nrf_recv, Fn Fn_update_table, Fn Fn_rawd_push]"
  "calls Fn_data_clean = [Obj Data_mutex]"
  "calls Fn_lwip_thread = []"
  "calls Fn_net_put = [Obj Lwip_stack]"
  "calls Fn_net_finalize = [Obj Lwip_stack]"
  "calls Fn_path_root = [Fn Fn_net_put]"
  "calls Fn_path_notfound = [Fn Fn_net_put]"
  "calls Fn_path_raw = [Fn Fn_net_put, Fn Fn_data_dump]"
  "calls Fn_path_sendraw = [Fn Fn_net_put, Fn Fn_nrf_send, Fn Fn_net_put]"
  "calls Fn_path_json = [Fn Fn_net_put, Fn Fn_data_json]"
  "calls Fn_httpd_process = [Obj Lwip_stack, Fn Fn_blink, Fn Fn_path_root, Fn Fn_path_raw, Fn Fn_path_json, Fn Fn_path_sendraw,
       Fn Fn_path_notfound, Fn Fn_net_finalize, Obj Lwip_stack]"
  "calls Fn_httpd_loop = [Obj Lwip_stack, Fn Fn_httpd_process, Obj Lwip_stack]"
  "calls Fn_rawd_push_loop = [Obj Rawd_mutex, Obj Lwip_stack, Obj Rawd_mutex]"
  "calls Fn_rawd_push = [Obj Rawd_mutex, Obj Rawd_mutex, Obj Rawd_push_thread]"
  "calls Fn_rawd_new = [Obj Rawd_mutex, Obj Lwip_stack, Obj Rawd_mutex, Obj Lwip_stack]"
  "calls Fn_rawd_loop = [Obj Lwip_stack, Fn Fn_rawd_new]"
  by (simp_all add: calls_def blink_fn_calls_def main_fn_calls_def usb_fn_calls_def console_fn_calls_def nrf_fn_calls_def
      data_fn_calls_def httpd_fn_calls_def rawd_fn_calls_def)

text \<open>The objects a function reaches through at most \<open>n\<close> calls; five are enough.\<close>

fun reaches :: "nat \<Rightarrow> boot_ref \<Rightarrow> boot_object list" where
  "reaches n (Obj ob) = [ob]"
| "reaches 0 (Fn f) = []"
| "reaches (Suc n) (Fn f) = concat (map (reaches n) (calls f))"

definition touched :: "boot_fn \<Rightarrow> boot_object list" where
  "touched f = remdups (reaches 5 (Fn f))"

lemma reaches_touches: "ob \<in> set (reaches n (Fn f)) \<Longrightarrow> touches f ob"
proof (induction n arbitrary: f)
  case (Suc n)
  then obtain r where r: "r \<in> set (calls f)" "ob \<in> set (reaches n r)" by auto
  show ?case
  proof (cases r)
    case (Obj ob')
    then show ?thesis using r touches.own [of ob f] by simp
  next
    case (Fn g)
    then show ?thesis using r touches.call [of g f ob] Suc.IH [of g] by simp
  qed
qed simp

text \<open>
  What \<open>main\<close> leaves exposed, with the milliseconds for which it sleeps in that state: \<open>fs\<close> are
  running, \<open>obs\<close> are prepared.
\<close>

definition too_early :: "boot_fn list \<Rightarrow> boot_object list \<Rightarrow> (boot_fn \<times> boot_object) list" where
  "too_early fs obs = concat (map (\<lambda>f. map (\<lambda>ob. (f, ob)) (filter (\<lambda>ob. ob \<notin> set obs) (touched f))) fs)"

fun exposed :: "boot_step list \<Rightarrow> boot_fn list \<Rightarrow> boot_object list \<Rightarrow> ((boot_fn \<times> boot_object) \<times> nat) list" where
  "exposed [] fs obs = map (\<lambda>x. (x, 0)) (too_early fs obs)"
| "exposed (Init ob # steps) fs obs = map (\<lambda>x. (x, 0)) (too_early fs obs) @ exposed steps fs (ob # obs)"
| "exposed (Start f p # steps) fs obs = map (\<lambda>x. (x, 0)) (too_early fs obs)
     @ exposed steps (f # fs) (if f = Fn_lwip_thread \<and> above_main p then Lwip_stack # obs else obs)"
| "exposed (Pause n # steps) fs obs = map (\<lambda>x. (x, n)) (too_early fs obs) @ exposed steps fs obs"
| "exposed (Pins g # steps) fs obs = map (\<lambda>x. (x, 0)) (too_early fs obs) @ exposed steps fs obs"
| "exposed (Call c # steps) fs obs = map (\<lambda>x. (x, 0)) (too_early fs obs) @ exposed steps fs obs"

definition exposure_time :: "boot_fn \<times> boot_object \<Rightarrow> boot_step list \<Rightarrow> nat" where
  "exposure_time x steps = sum_list (map snd (filter (\<lambda>(y, n). y = x) (exposed steps [] [])))"

fun pins_after :: "boot_step list \<Rightarrow> latch \<Rightarrow> latch" where
  "pins_after [] odr = odr"
| "pins_after (Pins f # steps) odr = pins_after steps (f odr)"
| "pins_after (_ # steps) odr = pins_after steps odr"

lemma touched_eval:
  "touched Fn_blinker = []" "touched Fn_heartbeat = [Blink_threads]"
  "touched Fn_usb_event = [Usb_serial]" "touched Fn_shell = [Usb_serial, Data_mutex, Lwip_stack]"
  "touched Fn_nrf_radio = [Blink_threads, Mailboxes, Spi_driver]" "touched Fn_nrf_ext_irq = [Radio_thread]"
  "touched Fn_data_rx = [Mailboxes, Data_mutex, Rawd_mutex, Rawd_push_thread]" "touched Fn_data_clean = [Data_mutex]"
  "touched Fn_lwip_thread = []"
  "touched Fn_httpd_loop = [Blink_threads, Data_mutex, Mailboxes, Radio_thread, Lwip_stack]"
  "touched Fn_rawd_loop = [Rawd_mutex, Lwip_stack]" "touched Fn_rawd_push_loop = [Lwip_stack, Rawd_mutex]"
  by (simp_all add: touched_def numeral_eq_Suc)

text \<open>The deepest chain, from \<open>httpd_loop\<close> to \<open>nrf_kick_loop\<close>, has five functions; so the fuel is enough.\<close>

lemma reaches_call: "Fn g \<in> set (calls f) \<Longrightarrow> set (reaches 5 (Fn g)) \<subseteq> set (reaches 5 (Fn f))"
  by (cases f) (auto simp: numeral_eq_Suc)

lemma touches_touched: "touches f ob \<longleftrightarrow> ob \<in> set (touched f)"
proof
  show "touches f ob \<Longrightarrow> ob \<in> set (touched f)"
  proof (induction rule: touches.induct)
    case (own ob f)
    have "ob \<in> set (reaches (Suc n) (Fn f))" for n using own by (auto intro!: bexI [of _ "Obj ob"])
    from this [of 4] show ?case by (simp add: touched_def)
  next
    case (call g f ob)
    then show ?case using reaches_call by (auto simp: touched_def)
  qed
  show "ob \<in> set (touched f) \<Longrightarrow> touches f ob"
    using reaches_touches by (simp add: touched_def)
qed

text \<open>No interleaving uses anything too early that is not exposed, whatever the sequence.\<close>

lemma exposed_head: "set (too_early fs obs) \<subseteq> fst ` set (exposed steps fs obs)"
proof (cases steps)
  case (Cons op ops)
  then show ?thesis by (cases op) (simp_all add: image_Un image_image)
qed (simp add: image_image)

lemma early_exposed:
  assumes "boot_reach lwip (boot_start steps) y" and "Lwip_stack \<in> set lwip"
  shows "set (bs_early y) \<subseteq> fst ` set (exposed steps [] [])"
proof -
  let ?E = "fst ` set (exposed steps [] [])"
  have "\<exists>obs. set obs \<subseteq> set (bs_ready y) \<and> fst ` set (exposed (bs_steps y) (bs_running y) obs) \<subseteq> ?E
      \<and> set (bs_early y) \<subseteq> ?E"
    using assms(1)
  proof (induction rule: boot_reach.induct)
    case start
    show ?case by (simp add: boot_start_def)
  next
    case (step y z)
    then obtain obs where obs: "set obs \<subseteq> set (bs_ready y)"
      "fst ` set (exposed (bs_steps y) (bs_running y) obs) \<subseteq> ?E" "set (bs_early y) \<subseteq> ?E" by blast
    from step.hyps(2) obs show ?case
    proof (induction rule: boot_rel.induct)
      case (main_goes_on y op ops)
      show ?case
      proof (cases op)
        case (Init ob)
        then show ?thesis using main_goes_on by (intro exI [of _ "ob # obs"]) (simp add: image_Un; blast)
      next
        case (Start f p)
        then show ?thesis
          using main_goes_on assms(2)
          by (intro exI [of _ "if f = Fn_lwip_thread \<and> above_main p then Lwip_stack # obs else obs"]) (simp add: image_Un; blast)
      qed (use main_goes_on in \<open>auto simp: image_Un intro!: exI [of _ obs]\<close>)
    next
      case (uses f y ob)
      have "(f, ob) \<in> ?E" if "ob \<notin> set (bs_ready y)"
      proof -
        have "(f, ob) \<in> set (too_early (bs_running y) obs)"
          using uses that by (auto simp: too_early_def touches_touched)
        then show ?thesis using exposed_head uses(4) by blast
      qed
      then show ?case using uses by (intro exI [of _ obs]) auto
    next
      case (lwip_runs y)
      then show ?case by (intro exI [of _ obs]) auto
    qed
  qed
  then show ?thesis by blast
qed

text \<open>\<open>main\<close> alone.\<close>

lemma main_prefix:
  "boot_reach lwip (boot_start (pre @ post)) ((fold (boot_main lwip) pre (boot_start (pre @ post)))\<lparr>bs_steps := post\<rparr>)"
proof (induction pre arbitrary: post rule: rev_induct)
  case Nil
  have "(boot_start post)\<lparr>bs_steps := post\<rparr> = boot_start post" by (simp add: boot_start_def)
  then show ?case by (simp add: boot_reach.start)
next
  case (snoc op pre)
  let ?y = "fold (boot_main lwip) pre (boot_start (pre @ op # post))"
  have "boot_rel lwip (?y\<lparr>bs_steps := op # post\<rparr>) ((boot_main lwip op (?y\<lparr>bs_steps := op # post\<rparr>))\<lparr>bs_steps := post\<rparr>)"
    by (rule boot_rel.main_goes_on) simp
  moreover have "(boot_main lwip op (?y\<lparr>bs_steps := op # post\<rparr>))\<lparr>bs_steps := post\<rparr> = (boot_main lwip op ?y)\<lparr>bs_steps := post\<rparr>"
    by (cases op) simp_all
  ultimately show ?case using snoc [of "op # post"] by (auto intro: boot_reach.step)
qed

section \<open>Properties\<close>

lemma toggle_swap: "led_green_toggle (led_red_toggle odr) = led_red_toggle (led_green_toggle odr)"
  by (rule ext) (auto simp: pad_macro_defs palTogglePad_def intro!: bit_word_eqI simp: bit_flip_bit_iff)

lemma toggle_twice: "led_red_toggle (led_red_toggle odr) = odr" "led_green_toggle (led_green_toggle odr) = odr"
  by (simp_all add: pad_macro_defs palTogglePad_twice)

lemma hello_loop_even: "hello_loop (2 * k) (odr, ms) = (odr, ms + 100 * k)"
  by (induction k) (simp_all add: toggle_swap toggle_twice)

text \<open>
  The greeting toggles both status LEDs eight times, one state for each 50 ms, and leaves every pin as
  it was after 400 ms; in the middle of a pair both LEDs are inverted.
\<close>

theorem hello_restores_pins:
  "hello (odr, ms) = (odr, ms + 400)
    \<and> hello_loop (2 * k + 1) (odr, ms) = (led_red_toggle (led_green_toggle odr), ms + 100 * k + 50)"
  using hello_loop_even [of 4 odr ms] hello_loop_even [of k odr ms] by (simp add: hello_def toggle_swap)

text \<open>One beat: the request is pending, the sleep is long enough for the flash.\<close>

lemma hb_beat:
  assumes "length bs = 3" "be_id (bs ! 1) = BLINK_GREEN" "be_pending (bs ! 1) = 0" "100 \<le> n"
  shows "hb_run (Hb_blink BLINK_GREEN True # Hb_sleep n # ops) (bs, log) =
    hb_run ops (bs, blinker_flash BLINK_GREEN BLINK_EV_NEG log)"
proof -
  have "(bs ! 1)\<lparr>be_pending := 0\<rparr> = bs ! 1"
    using assms(3) by (cases "bs ! 1") simp
  then have "bs[1 := (bs ! 1)\<lparr>be_pending := 0\<rparr>] = bs"
    by (simp only: list_update_id)
  then show ?thesis
    using assms by (simp add: blink_def BLINK_COUNT_def blinker_wake_def flash_time BLINK_DELTA_def blink_bits)
qed

text \<open>
  C39. The heartbeat shows: no request of the heartbeat thread is merged with another, because a flash is over
  before its sleep ends, so \<open>n\<close> rounds give exactly \<open>2 n\<close> flashes of the green LED, which
  take 200 n ms, after which the LED is on and nothing is pending.
\<close>

theorem heartbeat_flashes:
  assumes "length bs = 3" and "be_id (bs ! 1) = BLINK_GREEN" and "be_pending (bs ! 1) = 0"
  shows "heartbeat n (bs, log) = Some (bs, (blinker_flash BLINK_GREEN BLINK_EV_NEG ^^ (2 * n)) log)
    \<and> (0 < n \<longrightarrow> leds_after (snd (the (heartbeat n (bs, log)))) leds BLINK_GREEN)
    \<and> led_time (snd (the (heartbeat n (bs, log)))) = led_time log + 200 * n"
proof -
  have run: "heartbeat n (bs, log) = Some (bs, (blinker_flash BLINK_GREEN BLINK_EV_NEG ^^ (2 * n)) log)" for log
  proof (induction n arbitrary: log)
    case 0
    then show ?case by (simp add: heartbeat_def)
  next
    case (Suc n)
    have "heartbeat (Suc n) (bs, log) = heartbeat n (bs, (blinker_flash BLINK_GREEN BLINK_EV_NEG ^^ 2) log)"
      using hb_beat [OF assms] by (simp add: heartbeat_def heartbeat_body_def numeral_2_eq_2)
    then show ?case by (simp add: Suc funpow_add [symmetric, THEN fun_cong, unfolded o_apply] add.commute)
  qed
  have "led_time ((blinker_flash BLINK_GREEN BLINK_EV_NEG ^^ k) log) = led_time log + 100 * k" for k
    by (induction k) (simp_all add: flash_time BLINK_DELTA_def)
  moreover have "leds_after ((blinker_flash BLINK_GREEN BLINK_EV_NEG ^^ k) log) leds BLINK_GREEN" if "0 < k" for k
    using that by (cases k) (simp_all add: flash_state blink_bits)
  ultimately show ?thesis by (simp add: run)
qed

theorem heartbeat_flashes_witness:
  "led_time (snd (the (heartbeat 3 (blinks, [])))) = 600"
proof -
  have z: "led_time [] = 0" by (simp add: led_time_def)
  have b: "length blinks = 3" "be_id (blinks ! 1) = BLINK_GREEN" "be_pending (blinks ! 1) = 0"
    by (simp_all add: blinks_def)
  from heartbeat_flashes [OF b, of 3 "[]" "\<lambda>l. False", THEN conjunct2, THEN conjunct2]
  have "led_time (snd (the (heartbeat 3 (blinks, [])))) = led_time [] + 200 * 3" .
  then show ?thesis by (simp only: z)
qed

lemma hello_steps_8:
  "hello_steps = [Pins led_red_toggle, Pins led_green_toggle, Pause 50, Pins led_red_toggle, Pins led_green_toggle, Pause 50,
     Pins led_red_toggle, Pins led_green_toggle, Pause 50, Pins led_red_toggle, Pins led_green_toggle, Pause 50,
     Pins led_red_toggle, Pins led_green_toggle, Pause 50, Pins led_red_toggle, Pins led_green_toggle, Pause 50,
     Pins led_red_toggle, Pins led_green_toggle, Pause 50, Pins led_red_toggle, Pins led_green_toggle, Pause 50]"
  by (simp add: hello_steps_def numeral_eq_Suc)

lemmas main_eval = main_steps_def reordered_steps_def boot_steps_defs hello_steps_8 too_early_def touched_eval

lemma main_exposed:
  "fst ` set (exposed main_steps [] []) = {(Fn_data_rx, Rawd_mutex), (Fn_data_rx, Rawd_push_thread)}"
  by (simp add: main_eval image_Un) blast

lemma reordered_exposed: "exposed reordered_steps [] [] = []"
  by (simp add: main_eval)

text \<open>A run in which \<open>data_rx\<close> pushes its first frame while \<open>main\<close> sleeps in \<open>hello\<close>.\<close>

lemma main_early:
  assumes "Rawd_mutex \<notin> set lwip" "Rawd_push_thread \<notin> set lwip"
  obtains y rest where "boot_reach lwip (boot_start main_steps) y" "bs_steps y = Pause 50 # rest"
    "bs_early y = [(Fn_data_rx, Rawd_mutex), (Fn_data_rx, Rawd_push_thread)]"
proof -
  let ?pre = "[Call ''halInit'', Call ''chSysInit'', Pins eth_reset_h] @ blink_init_steps @ usb_init_steps
     @ [Call ''console_init''] @ nrf_init_steps @ ext_start_steps @ data_init_steps @ [Pins led_red_toggle, Pins led_green_toggle]"
  obtain rest where steps: "main_steps = ?pre @ Pause 50 # rest"
    by (simp add: main_steps_def hello_steps_8)
  define y where "y = (fold (boot_main lwip) ?pre (boot_start main_steps))\<lparr>bs_steps := Pause 50 # rest\<rparr>"
  let ?y1 = "y\<lparr>bs_early := bs_early y @ [(Fn_data_rx, Rawd_mutex)]\<rparr>"
  let ?y2 = "?y1\<lparr>bs_early := bs_early ?y1 @ [(Fn_data_rx, Rawd_push_thread)]\<rparr>"
  have reach: "boot_reach lwip (boot_start main_steps) y"
    using main_prefix [of lwip ?pre "Pause 50 # rest"] by (simp only: steps y_def)
  have y: "Fn_data_rx \<in> set (bs_running y)" "Rawd_mutex \<notin> set (bs_ready y)" "Rawd_push_thread \<notin> set (bs_ready y)"
    "bs_early y = []" "bs_steps y = Pause 50 # rest"
    by (simp_all add: y_def boot_start_def boot_steps_defs)
  have t: "touches Fn_data_rx Rawd_mutex" "touches Fn_data_rx Rawd_push_thread"
    by (simp_all add: touches_touched touched_eval)
  have "boot_rel lwip y ?y1" using boot_rel.uses [OF y(1) t(1), of lwip] y(2) by simp
  moreover have "boot_rel lwip ?y1 ?y2" using boot_rel.uses [of Fn_data_rx ?y1 Rawd_push_thread lwip] y t(2) by simp
  ultimately have "boot_reach lwip (boot_start main_steps) ?y2" using reach by (meson boot_reach.step)
  then show thesis by (rule that) (simp_all add: y(4,5))
qed

text \<open>
  C22. The order of initialisation in \<open>main\<close>, whenever what it has started runs: of all objects that the threads and
  interrupt handlers use through the functions they call, only those of \<open>rawd_init\<close> can be used before they are prepared, and
  only by \<open>data_rx\<close>, which is started by \<open>data_init\<close> and passes each frame to \<open>rawd_push\<close>. That happens when a
  frame is received while \<open>main\<close> sleeps in \<open>hello\<close>, for 400 ms in all. With \<open>data_init\<close> after \<open>rawd_init\<close> (and
  \<open>httpd_init\<close> after both) nothing is used too early. Assumed of \<^verbatim>\<open>lwip_thread\<close>: when it first runs it prepares the lwIP stack,
  and not the static objects of \<^verbatim>\<open>rawd.c\<close>.
\<close>

theorem init_order:
  assumes "Lwip_stack \<in> set lwip" and "Rawd_mutex \<notin> set lwip" and "Rawd_push_thread \<notin> set lwip"
  shows "(\<forall>y. boot_reach lwip (boot_start main_steps) y \<longrightarrow>
       set (bs_early y) \<subseteq> {(Fn_data_rx, Rawd_mutex), (Fn_data_rx, Rawd_push_thread)})
    \<and> (\<exists>y rest. boot_reach lwip (boot_start main_steps) y \<and> bs_steps y = Pause 50 # rest
         \<and> bs_early y = [(Fn_data_rx, Rawd_mutex), (Fn_data_rx, Rawd_push_thread)])
    \<and> exposure_time (Fn_data_rx, Rawd_mutex) main_steps = 400
    \<and> exposure_time (Fn_data_rx, Rawd_push_thread) main_steps = 400
    \<and> (\<forall>y. boot_reach lwip (boot_start reordered_steps) y \<longrightarrow> bs_early y = [])"
proof (intro conjI allI impI)
  show "set (bs_early y) \<subseteq> {(Fn_data_rx, Rawd_mutex), (Fn_data_rx, Rawd_push_thread)}"
    if "boot_reach lwip (boot_start main_steps) y" for y
    using early_exposed [OF that assms(1)] by (simp only: main_exposed)
  show "\<exists>y rest. boot_reach lwip (boot_start main_steps) y \<and> bs_steps y = Pause 50 # rest
      \<and> bs_early y = [(Fn_data_rx, Rawd_mutex), (Fn_data_rx, Rawd_push_thread)]"
    using main_early [OF assms(2,3)] by blast
  show "exposure_time (Fn_data_rx, Rawd_mutex) main_steps = 400"
    "exposure_time (Fn_data_rx, Rawd_push_thread) main_steps = 400"
    by (simp_all add: exposure_time_def main_eval)
  show "bs_early y = []" if "boot_reach lwip (boot_start reordered_steps) y" for y
    using early_exposed [OF that assms(1)] by (simp add: reordered_exposed)
qed

theorem init_order_witness:
  "\<exists>y rest. boot_reach [Lwip_stack] (boot_start main_steps) y \<and> bs_steps y = Pause 50 # rest
     \<and> bs_early y = [(Fn_data_rx, Rawd_mutex), (Fn_data_rx, Rawd_push_thread)]"
  using init_order [of "[Lwip_stack]"] by simp

text \<open>At the end the Ethernet chip is out of reset and the green LED is on.\<close>

lemma main_pins:
  "bit (pins_after main_steps odr ETH_RST_GPIO) ETH_RST" "bit (pins_after main_steps odr LED_STATUS_GPIO) LED_STATUS_GREEN"
  by (simp_all add: main_eval pad_macro_defs palSetPad_def palTogglePad_def bit_set_bit_iff)

end
