(* ===== verification/Spec2Isabelle.thy ===== *)
theory Spec2Isabelle
  imports Firmware Delivery Uplink Nrf_Header Dfu_Usb Dfu_Protocol Lwip_Options Switches Console Usb_Device Main_Init Config
begin

text \<open>
  A verification development for nrf-ethernet: a board with an STM32F107 (ARM Cortex-M3) that receives
  reports of wireless sensors over an nRF24L01+ radio, keeps the last report of each sensor, and serves
  them over Ethernet. The firmware (\<^verbatim>\<open>firmware/\<close>) runs on ChibiOS and lwIP; the boot loader
  (\<^verbatim>\<open>bootloader/\<close>) updates it over USB with libopencm3.

  \<^bold>\<open>The parts and how they interact.\<close> The radio thread (\<^verbatim>\<open>nrf24l01p.c\<close>) is woken by the interrupt of the
  radio and by senders; it reads received messages into a ring of buffers and posts
  them to a mailbox, and writes queued messages to the radio. The thread \<open>data_rx\<close> (\<^verbatim>\<open>data.c\<close>) takes messages from
  the mailbox, stores them in the sensor table and hands them to the raw frame server
  (\<^verbatim>\<open>net/rawd.c\<close>), whose push thread sends them to up to three TCP clients. The cleaner thread of
  \<^verbatim>\<open>data.c\<close> ages the table once a second. The web server (\<^verbatim>\<open>net/httpd.c\<close>) prints the table as
  JSON and sends raw messages posted to it through the radio. A console on USB (\<^verbatim>\<open>console.c\<close>, \<^verbatim>\<open>usb_device.c\<close>) shows
  kernel, network and table; LED threads (\<^verbatim>\<open>blink.c\<close>) show activity; \<^verbatim>\<open>main.c\<close> starts everything.

  \<^bold>\<open>Theories and code.\<close>
  \<^item> \<^verbatim>\<open>Prelude\<close>: machine types, \<open>memcpy\<close> and \<open>memset\<close> on byte lists, little-endian integers, string literals, generic list lemmas.
  \<^item> \<^verbatim>\<open>Frames\<close>: \<^verbatim>\<open>nrf_frames.h\<close> and the message types of \<^verbatim>\<open>nrf24l01p.h\<close>; the casts between them lose nothing.
  \<^item> \<^verbatim>\<open>Ttl_Store\<close>, \<^verbatim>\<open>Data_Table\<close>: \<open>update_table\<close>, \<open>data_clean\<close>, \<open>data_init\<close> of \<^verbatim>\<open>data.c\<close>. The table is a list of 32 records; the
    locales \<open>ttl_store\<close> and \<open>bounded_store\<close> are its contract, over the map from pairs to reports, and are interpreted by the table.
    Lemmas: the loops in closed form, the invariant, refinement of the map machine, what is shown of a pair is never stale (\<open>newest\<close>), lifetime of a report.
  \<^item> \<^verbatim>\<open>Seq_Stream\<close>, \<^verbatim>\<open>Data_Report\<close>: \<open>BaseSequentialStream\<close> and \<open>chprintf\<close> as a locale and a parameter; \<open>data_json\<close> and \<open>data_dump\<close>
    print exactly the text of a JSON value, and one line per entry.
  \<^item> \<^verbatim>\<open>Mailbox\<close>, \<^verbatim>\<open>Nrf_Radio\<close>, \<^verbatim>\<open>Nrf_Queues\<close>, \<^verbatim>\<open>Nrf_Queue_Props\<close>, \<^verbatim>\<open>Radio_System\<close>, \<^verbatim>\<open>Radio_Turn\<close>: \<^verbatim>\<open>nrf24l01p.c\<close>. The mailbox of the kernel is the
    locale \<open>mailbox\<close>; the SPI bus is a trace of events, and what the radio answers is an arbitrary function of the trace (\<open>miso\<close>), so the
    theorems hold for every behaviour of the radio. \<open>radio_step\<close> interleaves the phases of the radio thread with \<open>nrf_send\<close> and \<open>nrf_recv\<close>.
    Lemmas: ring discipline, order of the queues, the newest message is never dropped, SPI protocol, configuration; a turn is a run of the step relation.
    \<^verbatim>\<open>Nrf_Header\<close> has the commands, registers and fields of \<^verbatim>\<open>nrf24l01p.h\<close> that the driver does not use, and checks the whole map.
  \<^item> \<^verbatim>\<open>Net_Stream\<close>, \<^verbatim>\<open>Httpd\<close>, \<^verbatim>\<open>Httpd_Parse\<close>, \<^verbatim>\<open>Httpd_Props\<close>: \<^verbatim>\<open>net/httpd.c\<close>. Memory of a segment is a byte list; an access past its end is the
    error \<open>Inl\<close>, so that the parser's reads are checked. Lemmas: the parser accepts exactly a grammar; replies are as specified; a connection is closed once.
  \<^item> \<^verbatim>\<open>Connections\<close>, \<^verbatim>\<open>Servers\<close>: the life of an lwIP connection as phases that a log of calls must respect, the locale \<open>conn_server\<close> for what a
    turn of a server promises, and its interpretation by both server threads (\<open>httpd_loop\<close>, \<open>rawd_loop\<close>). Lemmas: legal calls and bounded
    connections at every moment, complete answers to all clients in order.
  \<^item> \<^verbatim>\<open>Rawd\<close>: \<^verbatim>\<open>net/rawd.c\<close>. Calls of lwIP are logged; \<open>owned\<close> replays a log and fails on a use of a connection that is not owned.
    The steps of its threads are cut outside the mutex: the push thread clears its event, then enters its critical section (\<open>Push_wake\<close>, \<open>Push_send\<close>); \<open>rawd_push\<close>
    copies, then signals (\<open>Frame\<close>, \<open>Signal\<close>); \<open>rawd_new\<close> greets after it has unlocked (\<open>Client\<close>, \<open>Greet\<close>). In these windows a frame can be sent
    up to three times; the lemmas count the repetitions.
  \<^item> \<^verbatim>\<open>Data_Path\<close>: \<open>data_rx\<close> and the composition of radio, table and frame server as one step relation, with the properties from the radio to table and clients.
    \<^verbatim>\<open>Delivery\<close> adds liveness: in every fair run everything received arrives, the newest message included.
  \<^item> \<^verbatim>\<open>Json_Parse\<close>, \<^verbatim>\<open>Firmware\<close>: a reader of JSON that recovers every report, and the property that joins everything: a request for
    \<^verbatim>\<open>/json\<close> gives a browser the newest report of each pair listed, and without a frame for the pair (0, 0) exactly the map that the messages of the
    radio define. The last section is type safety of the composed state.
  \<^item> \<^verbatim>\<open>Uplink\<close>: the other way: a message posted to \<^verbatim>\<open>/sendraw\<close> reaches the radio, after those that wait.
  \<^item> \<^verbatim>\<open>Blink\<close>, \<^verbatim>\<open>Board\<close>, \<^verbatim>\<open>Main_Init\<close>: \<^verbatim>\<open>blink.c\<close>, the pins of \<^verbatim>\<open>board.h\<close>, and \<^verbatim>\<open>main.c\<close>: heartbeat, greeting and order of initialisation,
    with the call graph of all threads and interrupt handlers and the interleavings of \<open>main\<close> with them.
  \<^item> \<^verbatim>\<open>Console\<close>, \<^verbatim>\<open>Usb_Device\<close>: \<^verbatim>\<open>console.c\<close> and \<^verbatim>\<open>usb_device.c\<close>; the descriptor macros of ChibiOS are the locale \<open>usb_macros\<close>.
  \<^item> \<^verbatim>\<open>Config\<close>: the options of \<^verbatim>\<open>lwipopts.h\<close> that constrain each other, the connection pools, the clock settings of \<^verbatim>\<open>mcuconf.h\<close>, the SPI configuration.
    \<^verbatim>\<open>Switches\<close>: the switches of kernel, drivers and device (\<^verbatim>\<open>chconf.h\<close>, \<^verbatim>\<open>halconf.h\<close>, \<^verbatim>\<open>mcuconf.h\<close>) and which of them the code uses.
    \<^verbatim>\<open>Lwip_Options\<close>: all of \<^verbatim>\<open>lwipopts.h\<close>, a list of macros per section, with their expansion at the place of use and the two conditionals;
    the theorem evaluates every option. Names nest at most four deep, which is the fuel of \<open>c_expand\<close>; more fuel changes no value.
  \<^item> \<^verbatim>\<open>Dfu\<close>: \<^verbatim>\<open>bootloader/usbdfu.c\<close>; flash and USB calls are logged. Lemmas: flash is written only while unlocked, a download programs the image, the timeout.
    \<^verbatim>\<open>Dfu_Usb\<close> has its descriptors, strings and set-up; the layout string declares what the addresses are. \<^verbatim>\<open>Dfu_Protocol\<close> has the
    state machine of the DFU specification with the effect of each block on the flash, and the simulation that the code implements it.

  \<^bold>\<open>Conventions.\<close> State is a record passed along; a kernel call that may block returns \<open>None\<close> while it waits; errors are \<open>None\<close> or \<open>Inl\<close>.
  Integers keep their width where it matters (\<open>u8\<close>, \<open>u16\<close>, \<open>u32\<close> are words); indices and sizes that stay small are \<open>nat\<close>.
  A step never spans more than one section under a mutex or the system lock; code of a thread that touches only its own variables goes with the step
  before or after it. Endless loops of threads are given by one turn,
  and histories are lists of turns of any length (\<open>httpd_loop\<close> and \<open>rawd_loop\<close> run over such a list and return \<open>None\<close> while they go on); loops of the code are recursive functions that end, with no fuel; the fuel of
  \<open>desc_chain\<close> is the length of the descriptor, and each descriptor has at least two bytes.
  A tick of the kernel is a millisecond (\<open>CH_FREQUENCY\<close> is 1000).

  \<^bold>\<open>Not modelled.\<close> The code of ChibiOS, lwIP and libopencm3 (their calls are parameters or log entries, their laws named hypotheses or
  locales); what that code makes of the switches in \<^verbatim>\<open>chconf.h\<close>, \<^verbatim>\<open>halconf.h\<close> and \<^verbatim>\<open>mcuconf.h\<close>,
  and of the options of \<^verbatim>\<open>lwipopts.h\<close>; the two macros there that rename \<open>memcpy\<close>; priorities and time slices of the scheduler (every
  interleaving is considered instead; \<^verbatim>\<open>Main_Init\<close> alone uses that \<^verbatim>\<open>lwip_thread\<close> preempts \<open>main\<close> when it is created); the debug print macros of \<^verbatim>\<open>board.h\<close>, which nothing uses; linker scripts, makefiles and the
  hardware design.
\<close>

end
